(* ===== verification/Gonggo_Prelude.thy ===== *)
theory Gonggo_Prelude
  imports Complex_Main "HOL-Library.AList" "HOL-Library.Multiset" "HOL-Library.Word"
begin

text \<open>
  What every component of the model shares.

  \<^item> The vocabulary: request ids, proxy names, connections, \<open>time_t\<close>.
  \<^item> The containers of the C code.  A \<open>GPtrArray\<close> of strings or a \<open>GArray\<close> is a list
    (\<open>ptr_find\<close> is \<open>g_ptr_array_find_with_equal_func\<close>, \<open>remove_nth\<close> is
    \<open>g_ptr_array_remove_index\<close>/\<open>g_array_remove_index\<close>).  A \<open>GHashTable\<close> is an association
    list with distinct keys.  GLib does not promise the order in which
    \<open>g_hash_table_iter_next\<close> visits a table, so every operation that iterates takes the order
    as an argument \<open>ord\<close>, a function on the list of keys; all the model relies on is
    \<open>iter_order ord\<close>: each key is visited exactly once.
  \<^item> The interfaces the components implement, as locales: \<open>keyed_store\<close> (a table of contexts by
    key), \<open>name_array\<close> (a duplicate-free array of names) and \<open>invariant_system\<close> (a step relation
    with an inductive invariant).
\<close>

section \<open>Vocabulary\<close>

type_synonym uuid = string     \<comment> \<open>request id, a C string\<close>
type_synonym pname = string    \<comment> \<open>proxy name\<close>
type_synonym conn = nat        \<comment> \<open>the address of a \<open>struct mg_connection\<close>\<close>
type_synonym time_t = "64 word"
type_synonym ('k, 'v) table = "('k \<times> 'v) list"

named_theorems table_laws "lookup laws of the hash tables and of the operations on them"
named_theorems ok_intros "preservation of the well-formedness invariants"

text \<open>Sizes of the fixed buffers of \<open>define.h\<close>.\<close>

definition UUIDBUFLEN :: nat where "UUIDBUFLEN = 37"
definition PROXYNAMEBUFLEN :: nat where "PROXYNAMEBUFLEN = 51"

section \<open>Arrays\<close>

fun ptr_find :: "'a \<Rightarrow> 'a list \<Rightarrow> nat option" where
  "ptr_find x [] = None"
| "ptr_find x (y # ys) = (if y = x then Some 0 else map_option Suc (ptr_find x ys))"

definition remove_nth :: "nat \<Rightarrow> 'a list \<Rightarrow> 'a list" where
  "remove_nth i xs = take i xs @ drop (Suc i) xs"

lemma ptr_find_None [simp]: "ptr_find x xs = None \<longleftrightarrow> x \<notin> set xs"
  by (induction xs) auto

lemma ptr_find_absent [simp]: "x \<notin> set xs \<Longrightarrow> ptr_find x xs = None"
  by simp

lemma ptr_find_SomeD: "ptr_find x xs = Some i \<Longrightarrow> i < length xs \<and> xs ! i = x \<and> x \<in> set xs"
  by (induction xs arbitrary: i) (auto split: if_splits)

lemma ptr_find_Some_ex: "x \<in> set xs \<Longrightarrow> \<exists>i. ptr_find x xs = Some i"
  using ptr_find_None [of x xs] by (cases "ptr_find x xs") auto

lemma remove_nth_Cons [simp]:
  "remove_nth 0 (x # xs) = xs" "remove_nth (Suc i) (x # xs) = x # remove_nth i xs"
  by (simp_all add: remove_nth_def)

lemma remove_nth_find: "ptr_find x xs = Some i \<Longrightarrow> remove_nth i xs = remove1 x xs"
  by (induction xs arbitrary: i) (auto split: if_splits)

lemma length_remove_nth [simp]: "i < length xs \<Longrightarrow> length (remove_nth i xs) = length xs - 1"
  by (simp add: remove_nth_def)

text \<open>Adding a string unless an equal one is present, and dropping one occurrence: the two idioms
  that the code repeats on its arrays of names.\<close>

definition array_add :: "'a \<Rightarrow> 'a list \<Rightarrow> 'a list" where
  "array_add x xs = (case ptr_find x xs of None \<Rightarrow> xs @ [x] | Some _ \<Rightarrow> xs)"

definition array_drop :: "'a \<Rightarrow> 'a list \<Rightarrow> 'a list" where
  "array_drop x xs = (case ptr_find x xs of None \<Rightarrow> xs | Some i \<Rightarrow> remove_nth i xs)"

lemma array_add_eq: "array_add x xs = (if x \<in> set xs then xs else xs @ [x])"
  by (auto simp: array_add_def split: option.splits dest: ptr_find_SomeD)

lemma array_drop_eq: "array_drop x xs = remove1 x xs"
  by (auto simp: array_drop_def remove_nth_find remove1_idem split: option.splits)

lemma set_array_add [simp]: "set (array_add x xs) = insert x (set xs)"
  by (auto simp: array_add_eq)

lemma distinct_array_add [simp]: "distinct (array_add x xs) = distinct xs"
  by (auto simp: array_add_eq)

lemma set_array_drop [simp]: "distinct xs \<Longrightarrow> set (array_drop x xs) = set xs - {x}"
  by (simp add: array_drop_eq)

lemma in_array_drop_other [simp]: "y \<noteq> x \<Longrightarrow> y \<in> set (array_drop x xs) \<longleftrightarrow> y \<in> set xs"
  by (simp add: array_drop_eq)

lemma distinct_array_drop [simp]: "distinct xs \<Longrightarrow> distinct (array_drop x xs)"
  by (simp add: array_drop_eq)

text \<open>A C string ends at the first null character.\<close>

definition c_string :: "string \<Rightarrow> string" where
  "c_string s = takeWhile (\<lambda>c. c \<noteq> CHR 0x00) s"

lemma c_string_id: "CHR 0x00 \<notin> set s \<Longrightarrow> c_string s = s"
  unfolding c_string_def by (rule takeWhile_eq_all_conv [THEN iffD2]) auto

section \<open>Hash tables\<close>

definition ht_lookup :: "('k, 'v) table \<Rightarrow> 'k \<Rightarrow> 'v option" where
  "ht_lookup t k = map_of t k"

definition ht_insert :: "'k \<Rightarrow> 'v \<Rightarrow> ('k, 'v) table \<Rightarrow> ('k, 'v) table" where
  "ht_insert k v t = AList.update k v t"

definition ht_remove :: "'k \<Rightarrow> ('k, 'v) table \<Rightarrow> ('k, 'v) table" where
  "ht_remove k t = AList.delete k t"

definition ht_keys :: "('k, 'v) table \<Rightarrow> 'k list" where
  "ht_keys t = map fst t"

definition ht_ok :: "('k, 'v) table \<Rightarrow> bool" where
  "ht_ok t \<longleftrightarrow> distinct (map fst t)"

text \<open>What the model relies on of GLib's iteration: some permutation of the keys.\<close>

definition iter_order :: "('k list \<Rightarrow> 'k list) \<Rightarrow> bool" where
  "iter_order ord \<longleftrightarrow> (\<forall>ks. mset (ord ks) = mset ks)"

lemma iter_order_set: "iter_order ord \<Longrightarrow> set (ord ks) = set ks"
  by (metis iter_order_def set_mset_mset)

lemma iter_order_distinct: "iter_order ord \<Longrightarrow> distinct (ord ks) = distinct ks"
  by (metis iter_order_def mset_eq_imp_distinct_iff)

lemma iter_order_id [simp]: "iter_order id" "iter_order (\<lambda>ks. ks)" "iter_order rev"
  by (simp_all add: iter_order_def)

lemma ht_lookup_Nil [simp]: "ht_lookup [] k = None"
  by (simp add: ht_lookup_def)

lemma ht_lookup_insert [simp, table_laws]:
  "ht_lookup (ht_insert k v t) k' = (if k' = k then Some v else ht_lookup t k')"
  by (simp add: ht_lookup_def ht_insert_def update_conv')

lemma ht_lookup_remove [simp, table_laws]:
  "ht_lookup (ht_remove k t) k' = (if k' = k then None else ht_lookup t k')"
  by (simp add: ht_lookup_def ht_remove_def delete_conv')

lemma ht_ok_Nil [simp, ok_intros]: "ht_ok []"
  by (simp add: ht_ok_def)

lemma ht_ok_insert [simp, ok_intros]: "ht_ok t \<Longrightarrow> ht_ok (ht_insert k v t)"
  by (simp add: ht_ok_def ht_insert_def distinct_update)

lemma ht_ok_remove [simp, ok_intros]: "ht_ok t \<Longrightarrow> ht_ok (ht_remove k t)"
  by (simp add: ht_ok_def ht_remove_def distinct_delete)

lemma ht_keys_lookup: "k \<in> set (ht_keys t) \<longleftrightarrow> ht_lookup t k \<noteq> None"
  by (simp add: ht_keys_def ht_lookup_def map_of_eq_None_iff)

lemma ht_keys_distinct: "ht_ok t \<Longrightarrow> distinct (ht_keys t)"
  by (simp add: ht_ok_def ht_keys_def)

lemma ht_remove_absent [simp]: "ht_lookup t k = None \<Longrightarrow> ht_remove k t = t"
  by (auto simp: ht_lookup_def ht_remove_def map_of_eq_None_iff intro: delete_id)

section \<open>Interfaces\<close>

text \<open>
  A table of contexts by key: what the handlers rely on of the request, service and thread
  tables.
\<close>

locale keyed_store =
  fixes lookup :: "'s \<Rightarrow> 'k \<Rightarrow> 'v option"
    and store :: "'k \<Rightarrow> 'v \<Rightarrow> 's \<Rightarrow> 's"
    and remove :: "'k \<Rightarrow> 's \<Rightarrow> 's"
    and ok :: "'s \<Rightarrow> bool"
  assumes lookup_store: "lookup (store k v s) k' = (if k' = k then Some v else lookup s k')"
    and lookup_remove: "lookup (remove k s) k' = (if k' = k then None else lookup s k')"
    and ok_store: "ok s \<Longrightarrow> ok (store k v s)"
    and ok_remove: "ok s \<Longrightarrow> ok (remove k s)"
begin

lemma remove_store: "lookup (remove k (store k v s)) = lookup (remove k s)"
  by (simp add: fun_eq_iff lookup_store lookup_remove)

lemma store_store: "lookup (store k v (store k w s)) = lookup (store k v s)"
  by (simp add: fun_eq_iff lookup_store)

lemma lookup_fold_remove:
  "lookup (fold remove ks s) k = (if k \<in> set ks then None else lookup s k)"
  by (induction ks arbitrary: s) (auto simp: lookup_remove)

lemma ok_fold_remove: "ok s \<Longrightarrow> ok (fold remove ks s)"
  by (induction ks arbitrary: s) (auto intro: ok_remove)

end

interpretation ht: keyed_store ht_lookup ht_insert ht_remove ht_ok
  by unfold_locales simp_all

text \<open>
  An array of names without duplicates, used as a set: the terminating array of \<open>proxy.c\<close> and
  the terminate array of \<open>proxyterminatearray.c\<close>.
\<close>

locale name_array =
  fixes add :: "'a \<Rightarrow> 's \<Rightarrow> 's"
    and drop_name :: "'a \<Rightarrow> 's \<Rightarrow> 's"
    and exists :: "'a \<Rightarrow> 's \<Rightarrow> bool"
    and ok :: "'s \<Rightarrow> bool"
  assumes exists_add: "ok s \<Longrightarrow> exists x (add y s) \<longleftrightarrow> x = y \<or> exists x s"
    and exists_drop: "ok s \<Longrightarrow> exists x (drop_name y s) \<longleftrightarrow> x \<noteq> y \<and> exists x s"
    and ok_add: "ok s \<Longrightarrow> ok (add x s)"
    and ok_drop: "ok s \<Longrightarrow> ok (drop_name x s)"
begin

lemma drop_add: "ok s \<Longrightarrow> \<not> exists x s \<Longrightarrow> exists y (drop_name x (add x s)) = exists y s"
  by (auto simp: exists_add exists_drop ok_add)

lemma add_twice: "ok s \<Longrightarrow> exists y (drop_name x (add x (add x s))) \<longleftrightarrow> y \<noteq> x \<and> exists y s"
  by (auto simp: exists_add exists_drop ok_add)

end

text \<open>A step relation with an inductive invariant.\<close>

locale invariant_system =
  fixes init :: "'s \<Rightarrow> bool"
    and step :: "'s \<Rightarrow> 's \<Rightarrow> bool"
    and inv :: "'s \<Rightarrow> bool"
  assumes inv_init: "init s \<Longrightarrow> inv s"
    and inv_step: "inv s \<Longrightarrow> step s t \<Longrightarrow> inv t"
begin

lemma inv_steps: "step\<^sup>*\<^sup>* s t \<Longrightarrow> inv s \<Longrightarrow> inv t"
  by (induction rule: rtranclp_induct) (auto intro: inv_step)

lemma inv_reachable: "init s \<Longrightarrow> step\<^sup>*\<^sup>* s t \<Longrightarrow> inv t"
  by (blast intro: inv_steps inv_init)

end

end
