(* ===== verification/Json_Lib.thy ===== *)
theory Json_Lib
  imports Gonggo_Prelude
begin

text \<open>
  The JSON values the code handles and its use of cJSON, a library outside the repository.

  A \<open>cJSON\<close> tree is the value it denotes: \<open>cJSON_CreateObject\<close>, \<open>cJSON_AddItemToObject\<close>,
  \<open>cJSON_AddStringToObject\<close>, \<open>cJSON_AddNumberToObject\<close>, \<open>cJSON_AddArrayToObject\<close> and
  \<open>cJSON_AddItemToArray\<close> append to a constructor's children, \<open>cJSON_Duplicate(x, true)\<close> is the
  same value.  A number node holds a finite double, a rational.  Reading a text, printing a tree,
  finding a member and reading the fields of a node are the library's own code, so they are the
  parameter \<open>cjson\<close> of every definition that uses them.
\<close>

datatype json =
    JNull
  | JBool bool
  | JNumber rat
  | JString string
  | JArray "json list"
  | JObject "(string \<times> json) list"

record cjson =
  cJSON_Parse :: "string \<Rightarrow> json option"
  cJSON_PrintUnformatted :: "json \<Rightarrow> string"
  cJSON_GetObjectItem :: "json \<Rightarrow> string \<Rightarrow> json option"
  valuestring :: "json \<Rightarrow> string option"
  valueint :: "json \<Rightarrow> int"
  valuedouble :: "json \<Rightarrow> rat"

text \<open>\<open>cJSON_IsArray\<close> and \<open>cJSON_IsString\<close> test the kind of a node.\<close>

fun cJSON_IsArray :: "json \<Rightarrow> bool" where
  "cJSON_IsArray (JArray _) = True"
| "cJSON_IsArray _ = False"

fun cJSON_IsString :: "json \<Rightarrow> bool" where
  "cJSON_IsString (JString _) = True"
| "cJSON_IsString _ = False"

text \<open>The children of an array, as \<open>cJSON_GetArraySize\<close> and \<open>cJSON_GetArrayItem\<close> visit them,
  and the named children of an object, as the \<open>child\<close>/\<open>next\<close> links do.\<close>

fun array_items :: "json \<Rightarrow> json list" where
  "array_items (JArray xs) = xs"
| "array_items _ = []"

fun object_members :: "json \<Rightarrow> (string \<times> json) list" where
  "object_members (JObject ms) = ms"
| "object_members _ = []"

text \<open>A member of an optional tree: \<open>cJSON_GetObjectItem(NULL, _)\<close> is \<open>NULL\<close>.\<close>

definition get_item :: "cjson \<Rightarrow> json option \<Rightarrow> string \<Rightarrow> json option" where
  "get_item J node key = (case node of None \<Rightarrow> None | Some j \<Rightarrow> cJSON_GetObjectItem J j key)"

definition get_string :: "cjson \<Rightarrow> json option \<Rightarrow> string option" where
  "get_string J item = (case item of None \<Rightarrow> None | Some j \<Rightarrow> valuestring J j)"

text \<open>
  The conversion of a double to a 64-bit \<open>time_t\<close> and to a 32-bit \<open>int\<close>: truncation towards zero.
  Out of range it is undefined in C; x86-64 yields the smallest value, which is what these
  definitions take.
\<close>

definition c_trunc :: "rat \<Rightarrow> int" where
  "c_trunc r = (if 0 \<le> r then \<lfloor>r\<rfloor> else \<lceil>r\<rceil>)"

definition time_of_double :: "rat \<Rightarrow> time_t" where
  "time_of_double r =
     (let n = c_trunc r in
      if - (2 ^ 63) \<le> n \<and> n < 2 ^ 63 then word_of_int n else word_of_int (- (2 ^ 63)))"

definition int_of_double :: "rat \<Rightarrow> int" where
  "int_of_double r =
     (let n = c_trunc r in if - (2 ^ 31) \<le> n \<and> n < 2 ^ 31 then n else - (2 ^ 31))"

lemma sint_time_of_double:
  "sint (time_of_double r) =
     (if - (2 ^ 63) \<le> c_trunc r \<and> c_trunc r < 2 ^ 63 then c_trunc r else - (2 ^ 63))"
proof -
  have "sint (word_of_int n :: time_t) = n" if "- (2 ^ 63) \<le> n" "n < 2 ^ 63" for n
    using that signed_take_bit_int_eq_self [of 63 n] by (simp add: sint_sbintrunc')
  then show ?thesis by (simp add: time_of_double_def Let_def)
qed

text \<open>What the model relies on where a property needs it: the documented behaviour of the library
  on the values the code builds and reads.\<close>

definition cjson_reads :: "cjson \<Rightarrow> bool" where
  "cjson_reads J \<longleftrightarrow>
     (\<forall>s. valuestring J (JString s) = Some s) \<and>
     (\<forall>j. valuestring J j \<noteq> None \<longrightarrow> cJSON_IsString j) \<and>
     (\<forall>r. valuedouble J (JNumber r) = r)"

definition cjson_roundtrip :: "cjson \<Rightarrow> bool" where
  "cjson_roundtrip J \<longleftrightarrow> (\<forall>j. cJSON_Parse J (cJSON_PrintUnformatted J j) = Some j)"

text \<open>A concrete library for the witnesses: members are found by their first exact match.\<close>

definition find_member :: "json \<Rightarrow> string \<Rightarrow> json option" where
  "find_member j key = map_of (object_members j) key"

fun string_value :: "json \<Rightarrow> string option" where
  "string_value (JString s) = Some s"
| "string_value _ = None"

fun number_value :: "json \<Rightarrow> rat" where
  "number_value (JNumber r) = r"
| "number_value _ = 0"

definition sample_cjson :: "(string \<Rightarrow> json option) \<Rightarrow> (json \<Rightarrow> string) \<Rightarrow> cjson" where
  "sample_cjson parse prnt =
     \<lparr>cJSON_Parse = parse, cJSON_PrintUnformatted = prnt, cJSON_GetObjectItem = find_member,
      valuestring = string_value, valueint = (\<lambda>j. int_of_double (number_value j)),
      valuedouble = number_value\<rparr>"

lemma sample_cjson_reads: "cjson_reads (sample_cjson parse prnt)"
proof -
  have "string_value j \<noteq> None \<longrightarrow> cJSON_IsString j" for j by (cases j) auto
  then show ?thesis by (simp add: cjson_reads_def sample_cjson_def)
qed

lemma sample_cjson_fields [simp]:
  "cJSON_Parse (sample_cjson parse prnt) = parse"
  "cJSON_PrintUnformatted (sample_cjson parse prnt) = prnt"
  "cJSON_GetObjectItem (sample_cjson parse prnt) = find_member"
  "valuestring (sample_cjson parse prnt) = string_value"
  "valuedouble (sample_cjson parse prnt) = number_value"
  "valueint (sample_cjson parse prnt) j = int_of_double (number_value j)"
  by (simp_all add: sample_cjson_def)

end
