(* ===== verification/Request_Table.thy ===== *)
theory Request_Table
  imports Gonggo_Prelude
begin

text \<open>
  \<open>gear/clientrequesttable.c\<close>: the table from a request id to the connection that submitted the
  request, the time of its last activity and its timeout.  The static pointer
  \<open>client_request_table\<close> is an \<open>option\<close> in \<open>create\<close> and \<open>destroy\<close>; the operations run on the
  created table.  \<open>time(NULL)\<close> is the argument \<open>now\<close>.  Every operation holds the table's mutex
  from its first to its last access, so it is one atomic step of the table.
\<close>

record client_request_ctx =
  rq_conn :: conn
  rq_timestamp :: time_t
  rq_timeoutsec :: time_t

type_synonym request_table = "(uuid, client_request_ctx) table"

definition client_request_table_create :: "request_table option \<Rightarrow> request_table option" where
  "client_request_table_create p = (case p of None \<Rightarrow> Some [] | Some t \<Rightarrow> Some t)"

definition client_request_table_destroy :: "request_table option \<Rightarrow> request_table option" where
  "client_request_table_destroy p = (case p of None \<Rightarrow> None | Some _ \<Rightarrow> None)"

definition client_request_table_set ::
    "time_t \<Rightarrow> uuid \<Rightarrow> conn \<Rightarrow> time_t \<Rightarrow> request_table \<Rightarrow> request_table" where
  "client_request_table_set now request_uuid conn timeoutsec t =
     (let t1 = ht_remove request_uuid t;
          p = \<lparr>rq_conn = conn, rq_timestamp = now, rq_timeoutsec = timeoutsec\<rparr>
      in ht_insert request_uuid p t1)"

definition client_request_table_get_conn ::
    "time_t \<Rightarrow> uuid \<Rightarrow> bool \<Rightarrow> bool \<Rightarrow> request_table \<Rightarrow> conn option \<times> request_table" where
  "client_request_table_get_conn now request_uuid update_time remove_request t =
     (case ht_lookup t request_uuid of
        None \<Rightarrow> (None, t)
      | Some p \<Rightarrow>
          (Some (rq_conn p),
           if remove_request then ht_remove request_uuid t
           else if update_time then ht_insert request_uuid (p\<lparr>rq_timestamp := now\<rparr>) t
           else t))"

definition client_request_table_remove :: "uuid \<Rightarrow> request_table \<Rightarrow> request_table" where
  "client_request_table_remove request_uuid t = ht_remove request_uuid t"

text \<open>The test of the sweep, in the wrapping arithmetic and signed comparisons of \<open>time_t\<close>.\<close>

definition request_expired :: "time_t \<Rightarrow> client_request_ctx \<Rightarrow> bool" where
  "request_expired now ctx \<longleftrightarrow>
     0 <s rq_timeoutsec ctx \<and> rq_timestamp ctx + rq_timeoutsec ctx <s now"

fun expired_loop :: "time_t \<Rightarrow> request_table \<Rightarrow> uuid list \<Rightarrow> uuid list \<Rightarrow> uuid list" where
  "expired_loop now t [] arr = arr"
| "expired_loop now t (request_uuid # iter) arr =
     (case ht_lookup t request_uuid of
        None \<Rightarrow> expired_loop now t iter arr
      | Some ctx \<Rightarrow>
          if request_expired now ctx then expired_loop now t iter (arr @ [request_uuid])
          else expired_loop now t iter arr)"

definition client_request_table_expired ::
    "(uuid list \<Rightarrow> uuid list) \<Rightarrow> time_t \<Rightarrow> request_table \<Rightarrow> uuid list" where
  "client_request_table_expired ord now t = expired_loop now t (ord (ht_keys t)) []"

section \<open>The table as a store\<close>

lemma lookup_request_set [simp, table_laws]:
  "ht_lookup (client_request_table_set now r c tmo t) r' =
     (if r' = r then Some \<lparr>rq_conn = c, rq_timestamp = now, rq_timeoutsec = tmo\<rparr>
      else ht_lookup t r')"
  by (simp add: client_request_table_set_def Let_def)

lemma lookup_request_remove [simp, table_laws]:
  "ht_lookup (client_request_table_remove r t) r' = (if r' = r then None else ht_lookup t r')"
  by (simp add: client_request_table_remove_def)

lemma ht_ok_request_ops [simp, ok_intros]:
  "ht_ok t \<Longrightarrow> ht_ok (client_request_table_set now r c tmo t)"
  "ht_ok t \<Longrightarrow> ht_ok (client_request_table_remove r t)"
  "ht_ok t \<Longrightarrow> ht_ok (snd (client_request_table_get_conn now r u d t))"
  by (simp_all add: client_request_table_set_def client_request_table_remove_def Let_def
      client_request_table_get_conn_def split: option.splits)

lemma fst_get_conn [simp]:
  "fst (client_request_table_get_conn now r u d t) = map_option rq_conn (ht_lookup t r)"
  by (simp add: client_request_table_get_conn_def split: option.splits)

lemma get_conn_remove [simp]:
  "snd (client_request_table_get_conn now r u True t) = client_request_table_remove r t"
  by (simp add: client_request_table_get_conn_def client_request_table_remove_def
      split: option.splits)

lemma get_conn_peek [simp]: "snd (client_request_table_get_conn now r False False t) = t"
  by (simp add: client_request_table_get_conn_def split: option.splits)

lemma lookup_get_conn_touch [simp, table_laws]:
  "ht_lookup (snd (client_request_table_get_conn now r True False t)) r' =
     (if r' = r then map_option (rq_timestamp_update (\<lambda>_. now)) (ht_lookup t r)
      else ht_lookup t r')"
  by (auto simp: client_request_table_get_conn_def split: option.splits)

interpretation requests: keyed_store ht_lookup
  "\<lambda>r p. client_request_table_set (rq_timestamp p) r (rq_conn p) (rq_timeoutsec p)"
  client_request_table_remove ht_ok
  by unfold_locales simp_all

section \<open>The sweep\<close>

lemma expired_loop_eq:
  "expired_loop now t iter arr =
     arr @ filter (\<lambda>r. \<exists>ctx. ht_lookup t r = Some ctx \<and> request_expired now ctx) iter"
  by (induction iter arbitrary: arr) (auto split: option.splits)

lemma set_expired:
  "iter_order ord \<Longrightarrow>
     set (client_request_table_expired ord now t) =
       {r. \<exists>ctx. ht_lookup t r = Some ctx \<and> request_expired now ctx}"
  by (auto simp: client_request_table_expired_def expired_loop_eq iter_order_set ht_keys_lookup)

lemma distinct_expired:
  "iter_order ord \<Longrightarrow> ht_ok t \<Longrightarrow> distinct (client_request_table_expired ord now t)"
  by (simp add: client_request_table_expired_def expired_loop_eq iter_order_distinct
      ht_keys_distinct)

text \<open>Where the deadline fits into \<open>time_t\<close>, the test is the one over the integers.\<close>

lemma request_expired_int:
  assumes "sint (rq_timestamp ctx) + sint (rq_timeoutsec ctx) < 2 ^ 63"
    and "0 \<le> sint (rq_timestamp ctx)"
  shows "request_expired now ctx \<longleftrightarrow>
     0 < sint (rq_timeoutsec ctx) \<and> sint (rq_timestamp ctx) + sint (rq_timeoutsec ctx) < sint now"
proof (cases "0 < sint (rq_timeoutsec ctx)")
  case True
  with assms have "sint (rq_timestamp ctx + rq_timeoutsec ctx)
      = sint (rq_timestamp ctx) + sint (rq_timeoutsec ctx)"
    by (simp add: sint_word_ariths signed_take_bit_int_eq_self)
  with True show ?thesis
    by (simp add: request_expired_def word_sless_alt)
qed (simp add: request_expired_def word_sless_alt)

section \<open>Properties\<close>

text \<open>A sweep of the request table returns each request that is past its deadline once, and no
  other: the requests with a positive timeout whose time stamp plus timeout lies before now, over the
  integers, as long as no deadline leaves the range of \<open>time_t\<close>.\<close>

theorem sweep_finds_expired:
  assumes "iter_order ord" "ht_ok t"
    and "\<And>r ctx. ht_lookup t r = Some ctx \<Longrightarrow>
      0 \<le> sint (rq_timestamp ctx) \<and> sint (rq_timestamp ctx) + sint (rq_timeoutsec ctx) < 2 ^ 63"
  shows "distinct (client_request_table_expired ord now t) \<and>
    (\<forall>r. r \<in> set (client_request_table_expired ord now t) \<longleftrightarrow>
      (\<exists>ctx. ht_lookup t r = Some ctx \<and> 0 < sint (rq_timeoutsec ctx) \<and>
         sint (rq_timestamp ctx) + sint (rq_timeoutsec ctx) < sint now))"
  using assms(3) by (auto simp: set_expired [OF assms(1)] distinct_expired [OF assms(1,2)]
      request_expired_int)

theorem sweep_finds_expired_witness:
  "''a'' \<in> set (client_request_table_expired id 16
     [(''a'', \<lparr>rq_conn = 7, rq_timestamp = 10, rq_timeoutsec = 5\<rparr>),
      (''b'', \<lparr>rq_conn = 7, rq_timestamp = 12, rq_timeoutsec = 5\<rparr>)])"
proof -
  let ?t = "[(''a'', \<lparr>rq_conn = 7, rq_timestamp = 10, rq_timeoutsec = 5\<rparr>),
      (''b'', \<lparr>rq_conn = 7, rq_timestamp = 12, rq_timeoutsec = 5\<rparr>)] :: request_table"
  have "iter_order id" "ht_ok ?t" by (simp_all add: ht_ok_def)
  moreover have "0 \<le> sint (rq_timestamp ctx) \<and>
      sint (rq_timestamp ctx) + sint (rq_timeoutsec ctx) < 2 ^ 63" if "ht_lookup ?t r = Some ctx" for r ctx
    using that by (auto simp: ht_lookup_def split: if_splits)
  ultimately show ?thesis
    using sweep_finds_expired [of id ?t 16] by (simp add: ht_lookup_def)
qed

text \<open>The deadline is computed in \<open>time_t\<close>, so the largest timeout a client can ask for wraps
  around, and the request it belongs to is expired as soon as it is stored.\<close>

theorem huge_timeout_expires_at_once:
  "rid \<in> set (client_request_table_expired id 1700000000
     (client_request_table_set 1700000000 rid conn 9223372036854775807 t))"
  by (simp add: set_expired request_expired_def word_sless_alt)

end
