(* ===== verification/Connection_Table.thy ===== *)
theory Connection_Table
  imports Gonggo_Prelude
begin

text \<open>
  \<open>gear/clientconnectiontable.c\<close>: the table from a connection to the array of the request ids it
  submitted.  \<open>client_connection_table_set\<close> takes the table it works on as an argument: the static
  table, or (\<open>othertable_nolock\<close>) a private one made with \<open>client_connection_table_similar\<close>.
\<close>

type_synonym connection_table = "(conn, uuid list) table"

definition client_connection_table_create ::
    "connection_table option \<Rightarrow> connection_table option" where
  "client_connection_table_create p = (case p of None \<Rightarrow> Some [] | Some t \<Rightarrow> Some t)"

definition client_connection_table_destroy ::
    "connection_table option \<Rightarrow> connection_table option" where
  "client_connection_table_destroy p = (case p of None \<Rightarrow> None | Some _ \<Rightarrow> None)"

definition client_connection_table_similar ::
    "connection_table option \<Rightarrow> connection_table option" where
  "client_connection_table_similar p = (case p of None \<Rightarrow> None | Some _ \<Rightarrow> Some [])"

definition client_connection_table_set ::
    "conn \<Rightarrow> uuid \<Rightarrow> connection_table \<Rightarrow> connection_table" where
  "client_connection_table_set conn request_uuid table =
     (case ht_lookup table conn of
        None \<Rightarrow> ht_insert conn [request_uuid] table
      | Some arr \<Rightarrow>
          (case ptr_find request_uuid arr of
             Some _ \<Rightarrow> table
           | None \<Rightarrow> ht_insert conn (arr @ [request_uuid]) table))"

definition client_connection_table_drop ::
    "conn \<Rightarrow> uuid \<Rightarrow> connection_table \<Rightarrow> connection_table" where
  "client_connection_table_drop conn request_uuid t =
     (case ht_lookup t conn of
        None \<Rightarrow> t
      | Some arr \<Rightarrow>
          (case ptr_find request_uuid arr of
             None \<Rightarrow> t
           | Some idx \<Rightarrow>
               (let arr' = remove_nth idx arr
                in if length arr' < 1 then ht_remove conn t else ht_insert conn arr' t)))"

text \<open>The same with the connection as a pointer that may be \<open>NULL\<close>, which is no key of the table.\<close>

definition connection_drop_ptr :: "conn option \<Rightarrow> uuid \<Rightarrow> connection_table \<Rightarrow> connection_table" where
  "connection_drop_ptr conn request_uuid t =
     (case conn of None \<Rightarrow> t | Some c \<Rightarrow> client_connection_table_drop c request_uuid t)"

definition client_connection_table_request_dup ::
    "conn \<Rightarrow> connection_table \<Rightarrow> uuid list option" where
  "client_connection_table_request_dup conn t =
     (case ht_lookup t conn of Some p \<Rightarrow> Some p | None \<Rightarrow> None)"

definition client_connection_table_remove :: "conn \<Rightarrow> connection_table \<Rightarrow> connection_table" where
  "client_connection_table_remove conn t = ht_remove conn t"

section \<open>What the table means: the ids of a connection\<close>

definition conn_rids :: "connection_table \<Rightarrow> conn \<Rightarrow> uuid list" where
  "conn_rids t c = (case ht_lookup t c of None \<Rightarrow> [] | Some arr \<Rightarrow> arr)"

definition connection_ok :: "connection_table \<Rightarrow> bool" where
  "connection_ok t \<longleftrightarrow> ht_ok t \<and> (\<forall>c arr. ht_lookup t c = Some arr \<longrightarrow> arr \<noteq> [] \<and> distinct arr)"

lemma conn_rids_set:
  "conn_rids (client_connection_table_set c r t) c' =
     (if c' = c then array_add r (conn_rids t c) else conn_rids t c')"
  by (auto simp: client_connection_table_set_def conn_rids_def array_add_def
      split: option.splits dest: ptr_find_SomeD)

lemma conn_rids_drop:
  "conn_rids (client_connection_table_drop c r t) c' =
     (if c' = c then array_drop r (conn_rids t c) else conn_rids t c')"
  by (auto simp: client_connection_table_drop_def conn_rids_def array_drop_def Let_def
      split: option.splits dest: ptr_find_SomeD)

lemma conn_rids_remove:
  "conn_rids (client_connection_table_remove c t) c' = (if c' = c then [] else conn_rids t c')"
  by (simp add: client_connection_table_remove_def conn_rids_def)

lemmas conn_rids_ops [simp, table_laws] = conn_rids_set conn_rids_drop conn_rids_remove

lemma request_dup_eq:
  "client_connection_table_request_dup c t = ht_lookup t c"
  by (simp add: client_connection_table_request_dup_def split: option.splits)

lemma distinct_conn_rids: "connection_ok t \<Longrightarrow> distinct (conn_rids t c)"
  by (simp add: connection_ok_def conn_rids_def split: option.splits)

lemma connection_ok_Nil [simp, ok_intros]: "connection_ok []"
  by (simp add: connection_ok_def)

lemma connection_ok_set [simp, ok_intros]:
  "connection_ok t \<Longrightarrow> connection_ok (client_connection_table_set c r t)"
  by (auto simp: connection_ok_def client_connection_table_set_def split: option.splits if_splits)

lemma connection_ok_drop [simp, ok_intros]:
  "connection_ok t \<Longrightarrow> connection_ok (client_connection_table_drop c r t)"
  by (auto simp: connection_ok_def client_connection_table_drop_def Let_def remove_nth_find
      split: option.splits if_splits)

lemma connection_ok_remove [simp, ok_intros]:
  "connection_ok t \<Longrightarrow> connection_ok (client_connection_table_remove c t)"
  by (auto simp: connection_ok_def client_connection_table_remove_def split: if_splits)

lemma connection_ok_drop_ptr [simp, ok_intros]:
  "connection_ok t \<Longrightarrow> connection_ok (connection_drop_ptr co r t)"
  by (simp add: connection_drop_ptr_def split: option.splits)

lemma conn_rids_drop_ptr [simp, table_laws]:
  "conn_rids (connection_drop_ptr co r t) c =
     (if co = Some c then array_drop r (conn_rids t c) else conn_rids t c)"
  by (auto simp: connection_drop_ptr_def split: option.splits)

end
