(* ===== verification/Service_Table.thy ===== *)
theory Service_Table
  imports Json_Lib
begin

text \<open>
  \<open>gear/clientservicetable.c\<close>: the table from a request id to the text the proxy will read, the
  unformatted JSON of the service name and the client's payload.
\<close>

type_synonym service_table = "(uuid, string) table"

definition client_service_table_create :: "service_table option \<Rightarrow> service_table option" where
  "client_service_table_create p = (case p of None \<Rightarrow> Some [] | Some t \<Rightarrow> Some t)"

definition client_service_table_destroy :: "service_table option \<Rightarrow> service_table option" where
  "client_service_table_destroy p = (case p of None \<Rightarrow> None | Some _ \<Rightarrow> None)"

definition service_payload_tree :: "string \<Rightarrow> json option \<Rightarrow> json" where
  "service_payload_tree service_name payload =
     JObject ([(''service'', JString service_name)] @
              (case payload of None \<Rightarrow> [] | Some p \<Rightarrow> [(''payload'', p)]))"

definition client_service_table_service_payload_create ::
    "cjson \<Rightarrow> string \<Rightarrow> json option \<Rightarrow> string" where
  "client_service_table_service_payload_create J service_name payload =
     cJSON_PrintUnformatted J (service_payload_tree service_name payload)"

definition client_service_table_set ::
    "cjson \<Rightarrow> uuid \<Rightarrow> string \<Rightarrow> json option \<Rightarrow> service_table \<Rightarrow> service_table" where
  "client_service_table_set J request_uuid service_name payload t =
     (let t1 = ht_remove request_uuid t;
          service_payload = client_service_table_service_payload_create J service_name payload
      in ht_insert request_uuid service_payload t1)"

definition client_service_table_dup :: "uuid \<Rightarrow> service_table \<Rightarrow> string option" where
  "client_service_table_dup request_uuid t =
     (case ht_lookup t request_uuid of None \<Rightarrow> None | Some s \<Rightarrow> Some s)"

definition client_service_table_remove :: "uuid \<Rightarrow> service_table \<Rightarrow> service_table" where
  "client_service_table_remove request_uuid t = ht_remove request_uuid t"

lemma lookup_service_set [simp, table_laws]:
  "ht_lookup (client_service_table_set J r svc p t) r' =
     (if r' = r then Some (client_service_table_service_payload_create J svc p)
      else ht_lookup t r')"
  by (simp add: client_service_table_set_def Let_def)

lemma lookup_service_remove [simp, table_laws]:
  "ht_lookup (client_service_table_remove r t) r' = (if r' = r then None else ht_lookup t r')"
  by (simp add: client_service_table_remove_def)

lemma service_dup_eq [simp]: "client_service_table_dup r t = ht_lookup t r"
  by (simp add: client_service_table_dup_def split: option.splits)

lemma ht_ok_service_ops [simp, ok_intros]:
  "ht_ok t \<Longrightarrow> ht_ok (client_service_table_set J r svc p t)"
  "ht_ok t \<Longrightarrow> ht_ok (client_service_table_remove r t)"
  by (simp_all add: client_service_table_set_def client_service_table_remove_def Let_def)

text \<open>The stores of the handlers, given a printer: a service name and an optional payload by id.\<close>

interpretation services: keyed_store "\<lambda>t r. client_service_table_dup r t"
  "\<lambda>r s. ht_insert r s \<circ> ht_remove r" client_service_table_remove ht_ok
  by unfold_locales simp_all

end
