(* ===== verification/Proxyname_Table.thy ===== *)
theory Proxyname_Table
  imports Gonggo_Prelude
begin

text \<open>
  \<open>gear/clientproxynametable.c\<close>: the table from a proxy name to the requests addressed to it.  A
  value is two parallel arrays, the request ids and whether each was handed to the proxy.
  \<open>client_proxyname_table_drop_all\<close> and \<open>client_proxyname_table_proxy_name_dup\<close> walk the whole
  table and take the order in which GLib visits it.
\<close>

record proxyname_value =
  request_uuids :: "uuid list"
  sents :: "bool list"

type_synonym proxyname_table = "(pname, proxyname_value) table"

definition client_proxyname_table_create :: "proxyname_table option \<Rightarrow> proxyname_table option" where
  "client_proxyname_table_create p = (case p of None \<Rightarrow> Some [] | Some t \<Rightarrow> Some t)"

definition client_proxyname_table_destroy :: "proxyname_table option \<Rightarrow> proxyname_table option" where
  "client_proxyname_table_destroy p = (case p of None \<Rightarrow> None | Some _ \<Rightarrow> None)"

definition client_proxyname_table_similar :: "proxyname_table option \<Rightarrow> proxyname_table option" where
  "client_proxyname_table_similar p = (case p of None \<Rightarrow> None | Some _ \<Rightarrow> Some [])"

definition client_proxyname_table_set :: "pname \<Rightarrow> uuid \<Rightarrow> proxyname_table \<Rightarrow> proxyname_table" where
  "client_proxyname_table_set proxy_name request_uuid table =
     (let (value, exist) =
        (case ht_lookup table proxy_name of
           None \<Rightarrow> (\<lparr>request_uuids = [], sents = []\<rparr>, False)
         | Some value \<Rightarrow> (value, ptr_find request_uuid (request_uuids value) \<noteq> None))
      in if exist then table
         else ht_insert proxy_name
                \<lparr>request_uuids = request_uuids value @ [request_uuid],
                 sents = sents value @ [False]\<rparr> table)"

definition client_proxyname_table_request_sent ::
    "pname \<Rightarrow> uuid \<Rightarrow> proxyname_table \<Rightarrow> proxyname_table" where
  "client_proxyname_table_request_sent proxy_name request_uuid t =
     (case ht_lookup t proxy_name of
        None \<Rightarrow> t
      | Some value \<Rightarrow>
          (case ptr_find request_uuid (request_uuids value) of
             None \<Rightarrow> t
           | Some idx \<Rightarrow> ht_insert proxy_name (value\<lparr>sents := (sents value)[idx := True]\<rparr>) t))"

definition client_proxyname_table_request_unsent :: "pname \<Rightarrow> proxyname_table \<Rightarrow> proxyname_table" where
  "client_proxyname_table_request_unsent proxy_name t =
     (case ht_lookup t proxy_name of
        None \<Rightarrow> t
      | Some value \<Rightarrow>
          ht_insert proxy_name (value\<lparr>sents := map (\<lambda>_. False) (sents value)\<rparr>) t)"

definition client_proxyname_table_drop ::
    "pname \<Rightarrow> uuid \<Rightarrow> proxyname_table \<Rightarrow> bool \<times> proxyname_table" where
  "client_proxyname_table_drop proxy_name request_uuid t =
     (case ht_lookup t proxy_name of
        None \<Rightarrow> (False, t)
      | Some value \<Rightarrow>
          (case ptr_find request_uuid (request_uuids value) of
             None \<Rightarrow> (False, t)
           | Some idx \<Rightarrow>
               (let value' = \<lparr>request_uuids = remove_nth idx (request_uuids value),
                              sents = remove_nth idx (sents value)\<rparr>
                in (True, if length (request_uuids value') < 1 then ht_remove proxy_name t
                          else ht_insert proxy_name value' t))))"

fun drop_all_loop :: "pname list \<Rightarrow> uuid \<Rightarrow> proxyname_table \<Rightarrow> proxyname_table" where
  "drop_all_loop [] request_uuid t = t"
| "drop_all_loop (proxy_name # sa) request_uuid t =
     (let (found, t') = client_proxyname_table_drop proxy_name request_uuid t
      in if found then t' else drop_all_loop sa request_uuid t')"

definition client_proxyname_table_drop_all ::
    "(pname list \<Rightarrow> pname list) \<Rightarrow> uuid \<Rightarrow> proxyname_table \<Rightarrow> proxyname_table" where
  "client_proxyname_table_drop_all ord request_uuid t =
     drop_all_loop (ord (ht_keys t)) request_uuid t"

definition client_proxyname_table_request_dup ::
    "pname \<Rightarrow> bool \<Rightarrow> proxyname_table \<Rightarrow> uuid list option" where
  "client_proxyname_table_request_dup proxy_name not_sent_only t =
     (case ht_lookup t proxy_name of
        None \<Rightarrow> None
      | Some value \<Rightarrow>
          Some (if not_sent_only
                then map fst (filter (\<lambda>(_, sent). \<not> sent) (zip (request_uuids value) (sents value)))
                else request_uuids value))"

fun proxy_name_loop :: "pname list \<Rightarrow> uuid \<Rightarrow> proxyname_table \<Rightarrow> pname option" where
  "proxy_name_loop [] request_uuid t = None"
| "proxy_name_loop (p # iter) request_uuid t =
     (case ht_lookup t p of
        Some value \<Rightarrow>
          (if ptr_find request_uuid (request_uuids value) \<noteq> None then Some p
           else proxy_name_loop iter request_uuid t)
      | None \<Rightarrow> proxy_name_loop iter request_uuid t)"

definition client_proxyname_table_proxy_name_dup ::
    "(pname list \<Rightarrow> pname list) \<Rightarrow> uuid \<Rightarrow> proxyname_table \<Rightarrow> pname option" where
  "client_proxyname_table_proxy_name_dup ord request_uuid t =
     proxy_name_loop (ord (ht_keys t)) request_uuid t"

section \<open>Parallel arrays\<close>

lemma zip_update_found:
  assumes "ptr_find r xs = Some i" "distinct xs" "length ys = length xs"
  shows "zip xs (ys[i := True]) = map (\<lambda>(x, b). (x, b \<or> x = r)) (zip xs ys)"
proof (rule nth_equalityI)
  fix j assume "j < length (zip xs (ys[i := True]))"
  with assms ptr_find_SomeD [OF assms(1)] show
    "zip xs (ys[i := True]) ! j = map (\<lambda>(x, b). (x, b \<or> x = r)) (zip xs ys) ! j"
    by (auto simp: nth_list_update nth_eq_iff_index_eq)
qed (use assms in simp)

lemma zip_remove_found:
  "ptr_find r xs = Some i \<Longrightarrow> distinct xs \<Longrightarrow> length ys = length xs \<Longrightarrow>
     zip (remove_nth i xs) (remove_nth i ys) = filter (\<lambda>(x, b). x \<noteq> r) (zip xs ys)"
proof (induction xs arbitrary: i ys)
  case (Cons x xs)
  then obtain y ys' where ys: "ys = y # ys'" by (cases ys) auto
  show ?case
  proof (cases "x = r")
    case True
    with Cons.prems have "filter (\<lambda>(x, b). x \<noteq> r) (zip xs ys') = zip xs ys'"
      by (auto simp: filter_id_conv dest: set_zip_leftD)
    with Cons.prems True ys show ?thesis by simp
  next
    case False
    with Cons.prems obtain j where "i = Suc j" "ptr_find r xs = Some j" by auto
    with Cons False ys show ?thesis by simp
  qed
qed simp

lemma map_snd_const_zip:
  "length ys = length xs \<Longrightarrow> zip xs (map (\<lambda>_. b) ys) = map (\<lambda>(x, _). (x, b)) (zip xs ys)"
  by (simp add: zip_map2)

section \<open>Abstraction: per proxy, its requests in order with their sent flag\<close>

definition value_ok :: "proxyname_value \<Rightarrow> bool" where
  "value_ok v \<longleftrightarrow> length (sents v) = length (request_uuids v) \<and> distinct (request_uuids v) \<and>
     request_uuids v \<noteq> []"

definition proxyname_ok :: "proxyname_table \<Rightarrow> bool" where
  "proxyname_ok t \<longleftrightarrow> ht_ok t \<and> (\<forall>p v. ht_lookup t p = Some v \<longrightarrow> value_ok v)"

definition pn_entries :: "proxyname_table \<Rightarrow> pname \<Rightarrow> (uuid \<times> bool) list" where
  "pn_entries t p =
     (case ht_lookup t p of None \<Rightarrow> [] | Some v \<Rightarrow> zip (request_uuids v) (sents v))"

definition pn_rids :: "proxyname_table \<Rightarrow> pname \<Rightarrow> uuid set" where
  "pn_rids t p = fst ` set (pn_entries t p)"

text \<open>The specification of the operations, on functions from a proxy to its entries.\<close>

definition spec_set :: "pname \<Rightarrow> uuid \<Rightarrow> (pname \<Rightarrow> (uuid \<times> bool) list) \<Rightarrow> pname \<Rightarrow> (uuid \<times> bool) list" where
  "spec_set p r m = m(p := if r \<in> fst ` set (m p) then m p else m p @ [(r, False)])"

definition spec_sent :: "pname \<Rightarrow> uuid \<Rightarrow> (pname \<Rightarrow> (uuid \<times> bool) list) \<Rightarrow> pname \<Rightarrow> (uuid \<times> bool) list" where
  "spec_sent p r m = m(p := map (\<lambda>(x, b). (x, b \<or> x = r)) (m p))"

definition spec_unsent :: "pname \<Rightarrow> (pname \<Rightarrow> (uuid \<times> bool) list) \<Rightarrow> pname \<Rightarrow> (uuid \<times> bool) list" where
  "spec_unsent p m = m(p := map (\<lambda>(x, _). (x, False)) (m p))"

definition spec_drop :: "pname \<Rightarrow> uuid \<Rightarrow> (pname \<Rightarrow> (uuid \<times> bool) list) \<Rightarrow> pname \<Rightarrow> (uuid \<times> bool) list" where
  "spec_drop p r m = m(p := filter (\<lambda>(x, _). x \<noteq> r) (m p))"

lemmas spec_ops = spec_set_def spec_sent_def spec_unsent_def spec_drop_def

lemma proxyname_okD:
  "proxyname_ok t \<Longrightarrow> ht_lookup t p = Some v \<Longrightarrow>
     length (sents v) = length (request_uuids v) \<and> distinct (request_uuids v) \<and> request_uuids v \<noteq> []"
  by (simp add: proxyname_ok_def value_ok_def)

lemma pn_rids_lookup:
  "proxyname_ok t \<Longrightarrow>
     pn_rids t p = (case ht_lookup t p of None \<Rightarrow> {} | Some v \<Rightarrow> set (request_uuids v))"
  by (auto simp: pn_rids_def pn_entries_def image_set map_fst_zip dest: proxyname_okD
      split: option.splits simp del: set_map)

lemma pn_rids_found:
  "proxyname_ok t \<Longrightarrow>
     r \<in> pn_rids t p \<longleftrightarrow> (\<exists>v i. ht_lookup t p = Some v \<and> ptr_find r (request_uuids v) = Some i)"
  by (auto simp: pn_rids_lookup split: option.splits dest: ptr_find_SomeD ptr_find_Some_ex)

lemma pn_entries_set:
  assumes "proxyname_ok t"
  shows "pn_entries (client_proxyname_table_set p r t) = spec_set p r (pn_entries t)"
proof (cases "ht_lookup t p")
  case None
  then show ?thesis
    by (auto simp: client_proxyname_table_set_def pn_entries_def spec_set_def fun_eq_iff)
next
  case (Some v)
  note okv = proxyname_okD [OF assms Some]
  then have "fst ` set (zip (request_uuids v) (sents v)) = set (request_uuids v)"
    by (metis image_set map_fst_zip)
  with Some okv show ?thesis
    by (auto simp: client_proxyname_table_set_def pn_entries_def spec_set_def fun_eq_iff)
qed

lemma pn_entries_sent:
  assumes "proxyname_ok t"
  shows "pn_entries (client_proxyname_table_request_sent p r t) = spec_sent p r (pn_entries t)"
proof (cases "ht_lookup t p")
  case None
  then show ?thesis
    by (auto simp: client_proxyname_table_request_sent_def pn_entries_def spec_sent_def)
next
  case (Some v)
  note okv = proxyname_okD [OF assms Some]
  show ?thesis
  proof (cases "ptr_find r (request_uuids v)")
    case None
    then have "map (\<lambda>(x, b). (x, b \<or> x = r)) (zip (request_uuids v) (sents v))
        = zip (request_uuids v) (sents v)"
      by (auto intro!: map_idI dest: set_zip_leftD)
    with None Some show ?thesis
      by (auto simp: client_proxyname_table_request_sent_def pn_entries_def spec_sent_def fun_eq_iff)
  next
    case (Some i)
    with okv \<open>ht_lookup t p = Some v\<close> show ?thesis
      by (auto simp: client_proxyname_table_request_sent_def pn_entries_def spec_sent_def
          zip_update_found fun_eq_iff)
  qed
qed

lemma pn_entries_unsent:
  assumes "proxyname_ok t"
  shows "pn_entries (client_proxyname_table_request_unsent p t) = spec_unsent p (pn_entries t)"
  using proxyname_okD [OF assms, of p]
  by (auto simp: client_proxyname_table_request_unsent_def pn_entries_def spec_unsent_def
      map_snd_const_zip fun_eq_iff split: option.splits)

lemma drop_not_found:
  "proxyname_ok t \<Longrightarrow> r \<notin> pn_rids t p \<Longrightarrow> client_proxyname_table_drop p r t = (False, t)"
  by (auto simp: pn_rids_found client_proxyname_table_drop_def split: option.splits)

lemma fst_drop:
  "proxyname_ok t \<Longrightarrow> fst (client_proxyname_table_drop p r t) = (r \<in> pn_rids t p)"
  by (auto simp: pn_rids_found client_proxyname_table_drop_def Let_def split: option.splits)

lemma pn_entries_drop:
  assumes "proxyname_ok t"
  shows "pn_entries (snd (client_proxyname_table_drop p r t)) = spec_drop p r (pn_entries t)"
proof (cases "r \<in> pn_rids t p")
  case False
  then have "filter (\<lambda>(x, _). x \<noteq> r) (pn_entries t p) = pn_entries t p"
    by (auto simp: pn_rids_def filter_id_conv image_iff)
  with drop_not_found [OF assms False] show ?thesis by (simp add: spec_drop_def)
next
  case True
  then obtain v i where v: "ht_lookup t p = Some v" and i: "ptr_find r (request_uuids v) = Some i"
    using assms by (auto simp: pn_rids_found)
  note okv = proxyname_okD [OF assms v]
  have z: "zip (remove_nth i (request_uuids v)) (remove_nth i (sents v)) =
      filter (\<lambda>(x, _). x \<noteq> r) (zip (request_uuids v) (sents v))"
    by (rule zip_remove_found [OF i]) (use okv in auto)
  show ?thesis
  proof (cases "remove_nth i (request_uuids v)")
    case Nil
    with z have "filter (\<lambda>(x, _). x \<noteq> r) (zip (request_uuids v) (sents v)) = []" by simp
    with Nil v i show ?thesis
      by (auto simp: client_proxyname_table_drop_def pn_entries_def spec_drop_def Let_def
          fun_eq_iff)
  next
    case (Cons a as)
    with v i z show ?thesis
      by (auto simp: client_proxyname_table_drop_def pn_entries_def spec_drop_def Let_def
          fun_eq_iff)
  qed
qed

section \<open>Well-formedness\<close>

lemma proxyname_ok_Nil [simp, ok_intros]: "proxyname_ok []"
  by (simp add: proxyname_ok_def)

lemma proxyname_ok_insert: "proxyname_ok t \<Longrightarrow> value_ok v \<Longrightarrow> proxyname_ok (ht_insert p v t)"
  by (simp add: proxyname_ok_def)

lemma proxyname_ok_remove: "proxyname_ok t \<Longrightarrow> proxyname_ok (ht_remove p t)"
  by (simp add: proxyname_ok_def)

lemma proxyname_ok_set [simp, ok_intros]:
  assumes "proxyname_ok t"
  shows "proxyname_ok (client_proxyname_table_set p r t)"
proof (cases "ht_lookup t p")
  case None
  then show ?thesis
    using assms by (simp add: client_proxyname_table_set_def proxyname_ok_insert value_ok_def)
next
  case (Some v)
  then show ?thesis
    using assms proxyname_okD [OF assms Some]
    by (auto simp: client_proxyname_table_set_def intro!: proxyname_ok_insert simp: value_ok_def)
qed

lemma proxyname_ok_sent [simp, ok_intros]:
  "proxyname_ok t \<Longrightarrow> proxyname_ok (client_proxyname_table_request_sent p r t)"
  by (auto simp: client_proxyname_table_request_sent_def value_ok_def split: option.splits
      dest: proxyname_okD intro!: proxyname_ok_insert)

lemma proxyname_ok_unsent [simp, ok_intros]:
  "proxyname_ok t \<Longrightarrow> proxyname_ok (client_proxyname_table_request_unsent p t)"
  by (auto simp: client_proxyname_table_request_unsent_def value_ok_def split: option.splits
      dest: proxyname_okD intro!: proxyname_ok_insert)

lemma proxyname_ok_drop [simp, ok_intros]:
  assumes "proxyname_ok t"
  shows "proxyname_ok (snd (client_proxyname_table_drop p r t))"
proof -
  have "value_ok \<lparr>request_uuids = remove_nth i (request_uuids v), sents = remove_nth i (sents v)\<rparr>"
    if v: "ht_lookup t p = Some v" and i: "ptr_find r (request_uuids v) = Some i"
      and ne: "remove_nth i (request_uuids v) \<noteq> []" for v i
  proof -
    note okv = proxyname_okD [OF assms v] and fi = ptr_find_SomeD [OF i]
    have "distinct (remove_nth i (request_uuids v))"
      using okv by (simp add: remove_nth_find [OF i])
    with okv fi ne show ?thesis by (simp add: value_ok_def)
  qed
  then show ?thesis
    using assms
    by (auto simp: client_proxyname_table_drop_def Let_def split: option.splits
        intro!: proxyname_ok_insert proxyname_ok_remove)
qed

section \<open>The ids of a proxy after each operation\<close>

lemma pn_rids_set [simp, table_laws]:
  "proxyname_ok t \<Longrightarrow> pn_rids (client_proxyname_table_set p r t) p' =
     (if p' = p then insert r (pn_rids t p) else pn_rids t p')"
  by (auto simp: pn_rids_def pn_entries_set spec_set_def)

lemma pn_rids_sent [simp, table_laws]:
  "proxyname_ok t \<Longrightarrow> pn_rids (client_proxyname_table_request_sent p r t) p' = pn_rids t p'"
  by (simp add: pn_rids_def pn_entries_sent spec_sent_def image_image split_beta)

lemma pn_rids_unsent [simp, table_laws]:
  "proxyname_ok t \<Longrightarrow> pn_rids (client_proxyname_table_request_unsent p t) p' = pn_rids t p'"
  by (simp add: pn_rids_def pn_entries_unsent spec_unsent_def image_image split_beta)

lemma pn_rids_drop [simp, table_laws]:
  "proxyname_ok t \<Longrightarrow> pn_rids (snd (client_proxyname_table_drop p r t)) p' =
     (if p' = p then pn_rids t p - {r} else pn_rids t p')"
  by (auto simp: pn_rids_def pn_entries_drop spec_drop_def image_iff split_beta)

lemma request_dup_entries:
  assumes "proxyname_ok t"
  shows "client_proxyname_table_request_dup p ns t =
     (if pn_entries t p = [] then None
      else Some (map fst (filter (\<lambda>(_, sent). ns \<longrightarrow> \<not> sent) (pn_entries t p))))"
  using proxyname_okD [OF assms, of p]
  by (auto simp: client_proxyname_table_request_dup_def pn_entries_def map_fst_zip zip_eq_Nil_iff
      split: option.splits)

lemma in_keys_if_rid: "proxyname_ok t \<Longrightarrow> r \<in> pn_rids t p \<Longrightarrow> p \<in> set (ht_keys t)"
  by (auto simp: pn_rids_lookup ht_keys_lookup split: option.splits)

section \<open>Walks over the whole table\<close>

lemma drop_all_loop_cases:
  "proxyname_ok t \<Longrightarrow>
     (\<exists>p \<in> set ks. r \<in> pn_rids t p \<and>
        drop_all_loop ks r t = snd (client_proxyname_table_drop p r t)) \<or>
     (\<forall>p \<in> set ks. r \<notin> pn_rids t p) \<and> drop_all_loop ks r t = t"
proof (induction ks)
  case (Cons k ks)
  show ?case
  proof (cases "r \<in> pn_rids t k")
    case True
    with fst_drop [OF Cons.prems, of k r] show ?thesis by (auto simp: split_beta Let_def)
  next
    case False
    with Cons show ?thesis by (auto simp: drop_not_found)
  qed
qed simp

lemma drop_all_cases:
  assumes "proxyname_ok t" "iter_order ord"
  obtains (found) p where "r \<in> pn_rids t p"
      "client_proxyname_table_drop_all ord r t = snd (client_proxyname_table_drop p r t)"
  | (absent) "\<forall>p. r \<notin> pn_rids t p" "client_proxyname_table_drop_all ord r t = t"
  using drop_all_loop_cases [OF assms(1), of "ord (ht_keys t)" r] assms
  by (auto simp: client_proxyname_table_drop_all_def iter_order_set dest: in_keys_if_rid)

lemma proxyname_ok_drop_all [simp, ok_intros]:
  "proxyname_ok t \<Longrightarrow> proxyname_ok (client_proxyname_table_drop_all ord r t)"
  using drop_all_loop_cases [of t "ord (ht_keys t)" r]
  by (auto simp: client_proxyname_table_drop_all_def)

lemma pn_rids_drop_all_subset:
  "proxyname_ok t \<Longrightarrow> pn_rids (client_proxyname_table_drop_all ord r t) p \<subseteq> pn_rids t p"
  using drop_all_loop_cases [of t "ord (ht_keys t)" r]
  by (auto simp: client_proxyname_table_drop_all_def split: if_splits)

lemma pn_rids_drop_all_other [simp]:
  "proxyname_ok t \<Longrightarrow> r' \<noteq> r \<Longrightarrow>
     r' \<in> pn_rids (client_proxyname_table_drop_all ord r t) p \<longleftrightarrow> r' \<in> pn_rids t p"
  using drop_all_loop_cases [of t "ord (ht_keys t)" r]
  by (auto simp: client_proxyname_table_drop_all_def split: if_splits)

lemma proxy_name_loop_Some:
  "proxyname_ok t \<Longrightarrow> proxy_name_loop ks r t = Some p \<Longrightarrow> r \<in> pn_rids t p \<and> p \<in> set ks"
  by (induction ks) (auto simp: pn_rids_lookup split: option.splits if_splits)

lemma proxy_name_loop_None:
  "proxyname_ok t \<Longrightarrow> proxy_name_loop ks r t = None \<longleftrightarrow> (\<forall>p \<in> set ks. r \<notin> pn_rids t p)"
  by (induction ks) (auto simp: pn_rids_lookup split: option.splits)

lemma proxy_name_dup_Some:
  "proxyname_ok t \<Longrightarrow> client_proxyname_table_proxy_name_dup ord r t = Some p \<Longrightarrow> r \<in> pn_rids t p"
  by (auto simp: client_proxyname_table_proxy_name_dup_def dest: proxy_name_loop_Some)

lemma proxy_name_dup_None:
  "proxyname_ok t \<Longrightarrow> iter_order ord \<Longrightarrow>
     client_proxyname_table_proxy_name_dup ord r t = None \<longleftrightarrow> (\<forall>p. r \<notin> pn_rids t p)"
  by (auto simp: client_proxyname_table_proxy_name_dup_def proxy_name_loop_None iter_order_set
      dest: in_keys_if_rid)

section \<open>Properties\<close>

text \<open>C12: per proxy the table is a queue of request ids, each with a flag that tells whether the
  proxy has got it.  \<open>set\<close> appends an absent id as not sent and leaves a present one where it is,
  \<open>request_sent\<close> marks one id, \<open>request_unsent\<close> makes all ids of a proxy pending again, and \<open>drop\<close>
  removes one id of one proxy; the two parallel arrays of the code implement this queue.\<close>

theorem proxyname_refines_queue:
  assumes "proxyname_ok t"
  shows "pn_entries (client_proxyname_table_set p r t) = spec_set p r (pn_entries t) \<and>
    pn_entries (client_proxyname_table_request_sent p r t) = spec_sent p r (pn_entries t) \<and>
    pn_entries (client_proxyname_table_request_unsent p t) = spec_unsent p (pn_entries t) \<and>
    pn_entries (snd (client_proxyname_table_drop p r t)) = spec_drop p r (pn_entries t) \<and>
    fst (client_proxyname_table_drop p r t) = (r \<in> pn_rids t p)"
  using assms
  by (simp add: pn_entries_set pn_entries_sent pn_entries_unsent pn_entries_drop fst_drop)

theorem proxyname_refines_queue_witness:
  "pn_entries (snd (client_proxyname_table_drop ''p'' ''r1''
      [(''p'', \<lparr>request_uuids = [''r1'', ''r2''], sents = [True, False]\<rparr>)])) ''p'' =
     [(''r2'', False)]"
  using proxyname_refines_queue [of "[(''p'', \<lparr>request_uuids = [''r1'', ''r2''], sents = [True, False]\<rparr>)]"
      "''p''" "''r1''"]
  by (simp add: proxyname_ok_def value_ok_def ht_ok_def ht_lookup_def spec_drop_def pn_entries_def)

text \<open>When a proxy is declared dead, everything it was given and has not answered is handed over
  again to its next instance, in the original order: after \<open>request_unsent\<close> the unsent requests of
  the proxy are all its requests.\<close>

theorem unsent_means_redelivery:
  assumes "proxyname_ok t" "pn_entries t p \<noteq> []"
  shows "client_proxyname_table_request_dup p True (client_proxyname_table_request_unsent p t) =
    client_proxyname_table_request_dup p False t"
  using assms by (simp add: request_dup_entries pn_entries_unsent spec_unsent_def split_beta o_def)

theorem unsent_means_redelivery_witness:
  "client_proxyname_table_request_dup ''p'' True (client_proxyname_table_request_unsent ''p''
     [(''p'', \<lparr>request_uuids = [''r1'', ''r2''], sents = [True, False]\<rparr>)]) = Some [''r1'', ''r2'']"
  using unsent_means_redelivery
    [of "[(''p'', \<lparr>request_uuids = [''r1'', ''r2''], sents = [True, False]\<rparr>)]" "''p''"]
  by (simp add: proxyname_ok_def value_ok_def ht_ok_def ht_lookup_def pn_entries_def
      client_proxyname_table_request_dup_def)

text \<open>\<open>drop_all\<close> says it searches all proxies, but stops at the first one that has the id: of an
  id that two clients sent to two proxies one entry stays behind.\<close>

theorem drop_all_leaves_second_proxy:
  "client_proxyname_table_drop_all id r
     (client_proxyname_table_set ''q'' r (client_proxyname_table_set ''p'' r [])) =
     client_proxyname_table_set ''q'' r []"
  by (simp add: client_proxyname_table_drop_all_def client_proxyname_table_set_def
      client_proxyname_table_drop_def ht_insert_def ht_lookup_def ht_keys_def ht_remove_def
      remove_nth_def)

end
