(* ===== verification/Name_Arrays.thy ===== *)
theory Name_Arrays
  imports Gonggo_Prelude
begin

text \<open>
  The two arrays of proxy names.  \<open>proxy_terminating_arr\<close> of \<open>gear/proxy.c\<close> holds the proxies
  whose threads are being killed: a proxy in it is a zombie and may not be activated.
  \<open>proxy_terminate_array\<close> of \<open>gear/proxyterminatearray.c\<close> holds the proxies that timed out during
  their activation and are to be asked to stop.  Each operation runs under the array's mutex.
\<close>

type_synonym name_list = "pname list"

section \<open>The terminating array of proxy.c\<close>

definition proxy_thread_killer_init :: "name_list option \<Rightarrow> name_list option" where
  "proxy_thread_killer_init p = (case p of None \<Rightarrow> Some [] | Some a \<Rightarrow> Some a)"

definition proxy_thread_killer_destroy :: "name_list option \<Rightarrow> name_list option" where
  "proxy_thread_killer_destroy p = (case p of None \<Rightarrow> None | Some _ \<Rightarrow> None)"

definition proxy_thread_terminating_set :: "pname \<Rightarrow> name_list \<Rightarrow> name_list" where
  "proxy_thread_terminating_set proxy_name arr =
     (if ptr_find proxy_name arr = None then arr @ [proxy_name] else arr)"

definition proxy_thread_terminating_drop :: "pname \<Rightarrow> name_list \<Rightarrow> name_list" where
  "proxy_thread_terminating_drop proxy_name arr =
     (case ptr_find proxy_name arr of Some idx \<Rightarrow> remove_nth idx arr | None \<Rightarrow> arr)"

definition proxy_thread_zombie :: "pname \<Rightarrow> name_list \<Rightarrow> bool" where
  "proxy_thread_zombie proxy_name arr \<longleftrightarrow> ptr_find proxy_name arr \<noteq> None"

section \<open>The terminate array\<close>

definition proxy_terminate_array_create :: "name_list option \<Rightarrow> name_list option" where
  "proxy_terminate_array_create p = (case p of None \<Rightarrow> Some [] | Some a \<Rightarrow> Some a)"

definition proxy_terminate_array_destroy :: "name_list option \<Rightarrow> name_list option" where
  "proxy_terminate_array_destroy p = (case p of None \<Rightarrow> None | Some _ \<Rightarrow> None)"

definition proxy_terminate_array_set :: "pname \<Rightarrow> name_list \<Rightarrow> name_list" where
  "proxy_terminate_array_set proxy_name arr =
     (if ptr_find proxy_name arr = None then arr @ [proxy_name] else arr)"

definition proxy_terminate_array_drop :: "pname \<Rightarrow> name_list \<Rightarrow> name_list" where
  "proxy_terminate_array_drop proxy_name arr =
     (case ptr_find proxy_name arr of Some idx \<Rightarrow> remove_nth idx arr | None \<Rightarrow> arr)"

definition proxy_terminate_array_exists :: "pname \<Rightarrow> name_list \<Rightarrow> bool" where
  "proxy_terminate_array_exists proxy_name arr \<longleftrightarrow> ptr_find proxy_name arr \<noteq> None"

section \<open>Both are duplicate-free arrays used as sets\<close>

lemma terminating_eq:
  "proxy_thread_terminating_set p arr = array_add p arr"
  "proxy_thread_terminating_drop p arr = array_drop p arr"
  "proxy_thread_zombie p arr \<longleftrightarrow> p \<in> set arr"
  by (auto simp: proxy_thread_terminating_set_def proxy_thread_terminating_drop_def
      proxy_thread_zombie_def array_add_def array_drop_def split: option.splits
      dest: ptr_find_SomeD)

lemma terminate_eq:
  "proxy_terminate_array_set p arr = array_add p arr"
  "proxy_terminate_array_drop p arr = array_drop p arr"
  "proxy_terminate_array_exists p arr \<longleftrightarrow> p \<in> set arr"
  by (auto simp: proxy_terminate_array_set_def proxy_terminate_array_drop_def
      proxy_terminate_array_exists_def array_add_def array_drop_def split: option.splits
      dest: ptr_find_SomeD)

interpretation zombies: name_array proxy_thread_terminating_set proxy_thread_terminating_drop
  proxy_thread_zombie distinct
  by unfold_locales (auto simp: terminating_eq)

interpretation terminates: name_array proxy_terminate_array_set proxy_terminate_array_drop
  proxy_terminate_array_exists distinct
  by unfold_locales (auto simp: terminate_eq)

end
