(* ===== verification/Database.thy ===== *)
theory Database
  imports Gonggo_Prelude
begin

text \<open>
  \<open>gear/db.c\<close>: the responses kept for the \<open>responseDump\<close> service, in the SQLite table
  \<open>request (id, num, respond, ts)\<close> with primary key \<open>(id, num)\<close>.

  SQLite is outside the repository: the status of each of its calls is an argument (a record of
  statuses per function, in the order of the calls), and the effect of a statement is that of its
  SQL text when its step succeeds.  Local time is formatted by \<open>fmt\<close>, with the zone name \<open>tz\<close>
  where \<open>strftime\<close> is asked for it.
\<close>

definition SQLITE_OK :: int where "SQLITE_OK = 0"
definition SQLITE_ROW :: int where "SQLITE_ROW = 100"
definition SQLITE_DONE :: int where "SQLITE_DONE = 101"

lemmas sqlite_codes = SQLITE_OK_def SQLITE_ROW_def SQLITE_DONE_def

definition db_error :: "int \<Rightarrow> bool" where
  "db_error status \<longleftrightarrow> status \<noteq> SQLITE_OK"

record row =
  row_id :: uuid
  row_num :: int
  row_respond :: string
  row_ts :: string

type_synonym db_table = "row list"

section \<open>db\_ensure\<close>

record ensure_status =
  es_open :: int
  es_exec :: int

text \<open>The database file before and after: \<open>CREATE TABLE IF NOT EXISTS\<close>.\<close>

definition db_ensure :: "ensure_status \<Rightarrow> db_table option \<Rightarrow> bool \<times> db_table option" where
  "db_ensure st file =
     (if db_error (es_open st) then (False, file)
      else if db_error (es_exec st) then (False, file)
      else (True, case file of None \<Rightarrow> Some [] | Some t \<Rightarrow> Some t))"

section \<open>db\_respond\_purge\<close>

text \<open>SQLite compares two texts byte by byte.\<close>

fun text_less :: "string \<Rightarrow> string \<Rightarrow> bool" where
  "text_less _ [] = False"
| "text_less [] (_ # _) = True"
| "text_less (x # xs) (y # ys) =
     (let a = (of_char x :: nat); b = of_char y
      in if a < b then True else if b < a then False else text_less xs ys)"

record purge_status =
  ps_open :: int
  ps_prepare :: int
  ps_bind :: int
  ps_step :: int

definition db_respond_purge ::
    "purge_status \<Rightarrow> (int \<Rightarrow> string) \<Rightarrow> string \<Rightarrow> int \<Rightarrow> int \<Rightarrow> db_table \<Rightarrow> bool \<times> db_table" where
  "db_respond_purge st fmt tz now overdue db =
     (if db_error (ps_open st) then (False, db)
      else let t = now - overdue; tmstr = fmt t @ '' '' @ tz in
        if db_error (ps_prepare st) then (False, db)
        else if db_error (ps_bind st) then (False, db)
        else if ps_step st \<noteq> SQLITE_DONE then (False, db)
        else (True, filter (\<lambda>r. \<not> text_less (row_ts r) tmstr) db))"

section \<open>db\_respond\_insert\<close>

record insert_status =
  is_open :: int
  is_prepare_max :: int
  is_bind_max :: int
  is_step_max :: int
  is_prepare :: int
  is_bind_id :: int
  is_bind_num :: int
  is_bind_respond :: int
  is_step :: int

text \<open>\<open>SELECT MAX(num) FROM request WHERE id = ?\<close> read with \<open>sqlite3_column_int\<close>: the SQL \<open>NULL\<close>
  of no rows reads as 0.\<close>

definition max_num :: "uuid \<Rightarrow> db_table \<Rightarrow> int" where
  "max_num rid db =
     (let nums = map row_num (filter (\<lambda>r. row_id r = rid) db)
      in if nums = [] then 0 else fold max (tl nums) (hd nums))"

definition db_respond_insert ::
    "insert_status \<Rightarrow> string \<Rightarrow> uuid \<Rightarrow> string \<Rightarrow> db_table \<Rightarrow> bool \<times> db_table" where
  "db_respond_insert st ts rid respond db =
     (if db_error (is_open st) then (False, db)
      else if db_error (is_prepare_max st) then (False, db)
      else if db_error (is_bind_max st) then (False, db)
      else if is_step_max st \<noteq> SQLITE_ROW \<and> is_step_max st \<noteq> SQLITE_DONE then (False, db)
      else let num = (if is_step_max st = SQLITE_ROW then max_num rid db else 0) in
        if db_error (is_prepare st) then (False, db)
        else if db_error (is_bind_id st) then (False, db)
        else if db_error (is_bind_num st) then (False, db)
        else if db_error (is_bind_respond st) then (False, db)
        else if is_step st \<noteq> SQLITE_DONE then (False, db)
        else (True, db @ [\<lparr>row_id = rid, row_num = num + 1, row_respond = respond, row_ts = ts\<rparr>]))"

definition insert_all_ok :: insert_status where
  "insert_all_ok = \<lparr>is_open = 0, is_prepare_max = 0, is_bind_max = 0, is_step_max = 100,
     is_prepare = 0, is_bind_id = 0, is_bind_num = 0, is_bind_respond = 0, is_step = 101\<rparr>"

section \<open>db\_respond\_query\<close>

text \<open>A cell of the array \<open>r->respond\<close>: fresh from \<open>malloc\<close>, the terminating \<open>NULL\<close>, or a string.\<close>

datatype cell = Uninit | CNull | CStr string

record RespondQueryResult =
  qr_respond :: "cell list option"
  qr_stop :: int
  qr_more :: int

definition db_respond_query_result_init :: RespondQueryResult where
  "db_respond_query_result_init = \<lparr>qr_respond = None, qr_stop = 0, qr_more = 0\<rparr>"

text \<open>Freeing walks the cells up to the \<open>NULL\<close>; reading an uninitialised cell, or running off the
  array, is undefined behaviour: the value \<open>None\<close>.\<close>

fun free_cells :: "cell list \<Rightarrow> unit option" where
  "free_cells (CNull # _) = Some ()"
| "free_cells (CStr _ # cs) = free_cells cs"
| "free_cells (Uninit # _) = None"
| "free_cells [] = None"

definition db_respond_query_result_destroy :: "RespondQueryResult \<Rightarrow> unit option" where
  "db_respond_query_result_destroy r =
     (case qr_respond r of None \<Rightarrow> Some () | Some cells \<Rightarrow> free_cells cells)"

record query_status =
  qs_open :: int
  qs_prepare_count :: int
  qs_bind_count_id :: int
  qs_bind_count_start :: int
  qs_step_count :: int
  qs_prepare :: int
  qs_bind_id :: int
  qs_bind_start :: int
  qs_bind_limit :: int
  qs_last_step :: int    \<comment> \<open>the status that ends the row loop\<close>
  qs_rows :: nat         \<comment> \<open>the number of rows stepped when it is an error\<close>

definition select_rows :: "uuid \<Rightarrow> int \<Rightarrow> db_table \<Rightarrow> row list" where
  "select_rows rid start db = filter (\<lambda>r. row_id r = rid \<and> start \<le> row_num r) db"

text \<open>The loop over the rows of the second statement: \<open>stop\<close> is the last number seen, the responses
  are stored one after the other and the cell after the last one gets the \<open>NULL\<close>.\<close>

fun fill_rows :: "row list \<Rightarrow> nat \<Rightarrow> RespondQueryResult \<Rightarrow> RespondQueryResult" where
  "fill_rows [] i r =
     r\<lparr>qr_respond := map_option (\<lambda>cs. cs[i := CNull]) (qr_respond r)\<rparr>"
| "fill_rows (x # xs) i r =
     fill_rows xs (Suc i)
       (r\<lparr>qr_stop := row_num x,
          qr_respond := map_option (\<lambda>cs. cs[i := CStr (row_respond x)]) (qr_respond r)\<rparr>)"

definition db_respond_query ::
    "query_status \<Rightarrow> uuid \<Rightarrow> int \<Rightarrow> int \<Rightarrow> db_table \<Rightarrow> bool \<times> RespondQueryResult" where
  "db_respond_query st rid start sz db =
     (let r0 = db_respond_query_result_init in
      if db_error (qs_open st) then (False, r0)
      else if db_error (qs_prepare_count st) then (False, r0)
      else if db_error (qs_bind_count_id st) then (False, r0)
      else if db_error (qs_bind_count_start st) then (False, r0)
      else if qs_step_count st \<noteq> SQLITE_ROW \<and> qs_step_count st \<noteq> SQLITE_DONE then (False, r0)
      else let total = (if qs_step_count st = SQLITE_ROW
                        then int (length (select_rows rid start db)) else 0) in
        if total < 1 then (True, r0)
        else let count = (if total > sz then sz else total);
                 r1 = r0\<lparr>qr_more := (if total > sz then total - sz else 0),
                         qr_respond := Some (replicate (nat count + 1) Uninit)\<rparr> in
          if db_error (qs_prepare st) then (False, r1)
          else if db_error (qs_bind_id st) then (False, r1)
          else if db_error (qs_bind_start st) then (False, r1)
          else if db_error (qs_bind_limit st) then (False, r1)
          else let rows = take (nat count) (sort_key row_num (select_rows rid start db));
                   stepped = (if qs_last_step st = SQLITE_DONE then rows else take (qs_rows st) rows);
                   r2 = fill_rows stepped 0 r1
               in (qs_last_step st = SQLITE_DONE, r2))"

definition query_all_ok :: query_status where
  "query_all_ok = \<lparr>qs_open = 0, qs_prepare_count = 0, qs_bind_count_id = 0,
     qs_bind_count_start = 0, qs_step_count = 100, qs_prepare = 0, qs_bind_id = 0,
     qs_bind_start = 0, qs_bind_limit = 0, qs_last_step = 101, qs_rows = 0\<rparr>"

section \<open>The log of the responses of a request\<close>

text \<open>What the table promises: per request id the responses in the order they were inserted,
  numbered upwards.\<close>

definition log_of :: "db_table \<Rightarrow> uuid \<Rightarrow> row list" where
  "log_of db rid = filter (\<lambda>r. row_id r = rid) db"

definition db_ok :: "db_table \<Rightarrow> bool" where
  "db_ok db \<longleftrightarrow> (\<forall>rid. sorted_wrt (<) (map row_num (log_of db rid)) \<and>
                     (\<forall>r \<in> set (log_of db rid). 1 \<le> row_num r))"

lemma max_num_sorted:
  assumes "sorted_wrt (<) (map row_num (log_of db rid))"
  shows "max_num rid db = (if log_of db rid = [] then 0 else row_num (last (log_of db rid)))"
proof (cases "log_of db rid")
  case Nil
  then show ?thesis by (simp add: max_num_def log_of_def [symmetric])
next
  case (Cons x xs)
  have "fold max (map row_num ys) m = row_num (last (y # ys))"
    if "sorted_wrt (<) (map row_num (y # ys))" "m = row_num y" for y ys m
    using that
  proof (induction ys arbitrary: y m)
    case (Cons z zs)
    then have "max (row_num z) (row_num y) = row_num z" by simp
    with Cons show ?case by simp
  qed simp
  from this [OF assms [unfolded Cons]] Cons show ?thesis
    by (simp add: max_num_def log_of_def [symmetric])
qed

lemma max_num_bound:
  assumes "db_ok db" "r \<in> set (log_of db rid)"
  shows "row_num r \<le> max_num rid db" "1 \<le> max_num rid db"
proof -
  from assms(1) have s: "sorted_wrt (<) (map row_num (log_of db rid))"
    and p: "\<forall>r \<in> set (log_of db rid). 1 \<le> row_num r"
    by (auto simp: db_ok_def)
  from assms(2) obtain ys y where ys: "log_of db rid = ys @ [y]"
    by (cases "log_of db rid" rule: rev_cases) auto
  then have "max_num rid db = row_num y" by (simp add: max_num_sorted [OF s])
  with s p ys assms(2) show "row_num r \<le> max_num rid db" "1 \<le> max_num rid db"
    by (auto simp: sorted_wrt_append)
qed

lemma insert_success:
  "fst (db_respond_insert st ts rid txt db) \<Longrightarrow>
     \<exists>num. snd (db_respond_insert st ts rid txt db) =
       db @ [\<lparr>row_id = rid, row_num = num + 1, row_respond = txt, row_ts = ts\<rparr>] \<and>
       (num = max_num rid db \<or> is_step_max st = SQLITE_DONE)"
  by (auto simp: db_respond_insert_def Let_def split: if_splits)

lemma insert_failure:
  "\<not> fst (db_respond_insert st ts rid txt db) \<Longrightarrow> snd (db_respond_insert st ts rid txt db) = db"
  by (auto simp: db_respond_insert_def Let_def split: if_splits)

lemma db_ok_insert:
  assumes "db_ok db" "is_step_max st \<noteq> SQLITE_DONE"
  shows "db_ok (snd (db_respond_insert st ts rid txt db))"
proof (cases "fst (db_respond_insert st ts rid txt db)")
  case True
  with insert_success [OF True] assms(2) have
    e: "snd (db_respond_insert st ts rid txt db) =
       db @ [\<lparr>row_id = rid, row_num = max_num rid db + 1, row_respond = txt, row_ts = ts\<rparr>]"
    by auto
  have "0 \<le> max_num rid db"
  proof (cases "log_of db rid")
    case Nil
    then show ?thesis by (simp add: max_num_def log_of_def)
  next
    case (Cons r rs)
    then show ?thesis using max_num_bound(2) [OF assms(1), of r rid] by simp
  qed
  then show ?thesis
    using assms(1) max_num_bound [OF assms(1), of _ rid]
    by (fastforce simp: e db_ok_def log_of_def sorted_wrt_append)
next
  case False
  with insert_failure [OF False] assms(1) show ?thesis by simp
qed

lemma log_of_filter: "log_of (filter P db) rid = filter P (log_of db rid)"
  by (auto simp: log_of_def intro: filter_cong)

lemma db_ok_filter: "db_ok db \<Longrightarrow> db_ok (filter P db)"
  by (auto simp: db_ok_def log_of_filter sorted_wrt_map intro: sorted_wrt_filter)

lemma db_ok_purge: "db_ok db \<Longrightarrow> db_ok (snd (db_respond_purge st fmt tz now overdue db))"
  by (auto simp: db_respond_purge_def Let_def db_ok_filter)

section \<open>A query is a page of the log\<close>

definition log_from :: "db_table \<Rightarrow> uuid \<Rightarrow> int \<Rightarrow> row list" where
  "log_from db rid start = filter (\<lambda>r. start \<le> row_num r) (log_of db rid)"

definition page :: "row list \<Rightarrow> nat \<Rightarrow> RespondQueryResult" where
  "page rows n =
     (if rows = [] then db_respond_query_result_init
      else \<lparr>qr_respond = Some (map (CStr \<circ> row_respond) (take n rows) @ [CNull]),
            qr_stop = row_num (last (take n rows)), qr_more = int (length rows - n)\<rparr>)"

lemma select_rows_log: "select_rows rid start db = log_from db rid start"
  by (auto simp: select_rows_def log_from_def log_of_def conj_commute intro: filter_cong)

lemma sorted_log_from:
  "db_ok db \<Longrightarrow> sorted_wrt (\<lambda>x y. row_num x < row_num y) (log_from db rid start)"
  by (auto simp: db_ok_def log_from_def sorted_wrt_map intro: sorted_wrt_filter)

lemma sort_log_from:
  assumes "db_ok db"
  shows "sort_key row_num (log_from db rid start) = log_from db rid start"
proof -
  have "sorted_wrt (\<lambda>x y. row_num x \<le> row_num y) (log_from db rid start)"
    by (rule sorted_wrt_mono_rel [OF _ sorted_log_from [OF assms]]) simp
  then show ?thesis by (simp add: sort_key_id_if_sorted sorted_wrt_map)
qed

lemma fill_rows_cells:
  "qr_respond r = Some cs \<Longrightarrow> i + length xs < length cs \<Longrightarrow>
     fill_rows xs i r = \<lparr>qr_respond = Some (take i cs @ map (CStr \<circ> row_respond) xs @ [CNull] @
                                          drop (Suc (i + length xs)) cs),
                        qr_stop = (if xs = [] then qr_stop r else row_num (last xs)),
                        qr_more = qr_more r\<rparr>"
proof (induction xs arbitrary: i r cs)
  case Nil
  then show ?case by (simp add: upd_conv_take_nth_drop)
next
  case (Cons x xs)
  let ?r = "r\<lparr>qr_stop := row_num x, qr_respond := Some (cs[i := CStr (row_respond x)])\<rparr>"
  have "fill_rows (x # xs) i r = fill_rows xs (Suc i) ?r" using Cons.prems by simp
  also have "\<dots> = \<lparr>qr_respond = Some (take (Suc i) (cs[i := CStr (row_respond x)]) @
        map (CStr \<circ> row_respond) xs @ [CNull] @
        drop (Suc (Suc i + length xs)) (cs[i := CStr (row_respond x)])),
      qr_stop = (if xs = [] then row_num x else row_num (last xs)), qr_more = qr_more r\<rparr>"
    using Cons.IH [of ?r "cs[i := CStr (row_respond x)]" "Suc i"] Cons.prems by simp
  finally show ?case
    using Cons.prems by (simp add: take_Suc_conv_app_nth)
qed

lemma free_cells_map [simp]: "free_cells (map (CStr \<circ> f) xs @ CNull # cs) = Some ()"
  by (induction xs) auto

lemma query_page:
  assumes ok: "db_ok db" and sz: "1 \<le> sz"
    and row: "qs_step_count st = SQLITE_ROW" and res: "fst (db_respond_query st rid start sz db)"
  shows "snd (db_respond_query st rid start sz db) = page (log_from db rid start) (nat sz)"
proof (cases "log_from db rid start = []")
  case True
  with row res show ?thesis
    by (auto simp: db_respond_query_def page_def select_rows_log Let_def split: if_splits)
next
  case False
  then have pos: "\<not> int (length (log_from db rid start)) < 1"
    by (cases "log_from db rid start") auto
  let ?rows = "log_from db rid start"
  let ?n = "nat (if int (length ?rows) > sz then sz else int (length ?rows))"
  let ?r1 = "\<lparr>qr_respond = Some (replicate (?n + 1) Uninit), qr_stop = 0,
      qr_more = (if int (length ?rows) > sz then int (length ?rows) - sz else 0)\<rparr>"
  have n: "take ?n ?rows = take (nat sz) ?rows" "?n = length (take (nat sz) ?rows)" by auto
  have "snd (db_respond_query st rid start sz db) = fill_rows (take ?n ?rows) 0 ?r1"
    using row res pos
    by (simp add: db_respond_query_def select_rows_log sort_log_from [OF ok] Let_def
        db_respond_query_result_init_def split: if_split_asm)
  also have "\<dots> = page ?rows (nat sz)"
    using sz False n by (subst fill_rows_cells) (auto simp: page_def)
  finally show ?thesis .
qed

text \<open>Splitting the log at a page: the rows after it are those from \<open>stop + 1\<close> on.\<close>

lemma filter_gt_sorted:
  "sorted_wrt (\<lambda>x y. row_num x < row_num y) (xs @ [y] @ zs) \<Longrightarrow>
     filter (\<lambda>r. row_num y < row_num r) (xs @ [y] @ zs) = zs"
  by (fastforce simp: sorted_wrt_append filter_empty_conv filter_id_conv)

lemma log_from_next:
  assumes "db_ok db" "log_from db rid start \<noteq> []" "0 < n"
  shows "log_from db rid (row_num (last (take n (log_from db rid start))) + 1) =
    drop n (log_from db rid start)"
proof -
  let ?rows = "log_from db rid start"
  have ne: "take n ?rows \<noteq> []" using assms by auto
  define y where "y = last (take n ?rows)"
  have split: "?rows = butlast (take n ?rows) @ [y] @ drop n ?rows"
    using ne by (metis append_assoc append_butlast_last_id append_take_drop_id y_def)
  have "y \<in> set ?rows" using ne by (metis last_in_set in_set_takeD y_def)
  then have "start \<le> row_num y" by (simp add: log_from_def)
  then have "log_from db rid (row_num y + 1) = filter (\<lambda>r. row_num y < row_num r) ?rows"
    by (auto simp: log_from_def intro!: filter_cong)
  also have "\<dots> = drop n ?rows"
    using filter_gt_sorted [of "butlast (take n ?rows)" y "drop n ?rows"]
      sorted_log_from [OF assms(1)] split by metis
  finally show ?thesis by (simp add: y_def)
qed

section \<open>Reading the whole log page by page\<close>

text \<open>What a client of \<open>responseDump\<close> does: ask from \<open>start\<close> on, and while \<open>more\<close> is positive ask
  again from \<open>stop + 1\<close>; \<open>fuel\<close> bounds the number of queries.\<close>

fun cell_texts :: "cell list \<Rightarrow> string list" where
  "cell_texts (CStr s # cs) = s # cell_texts cs"
| "cell_texts _ = []"

fun read_pages :: "nat \<Rightarrow> uuid \<Rightarrow> int \<Rightarrow> int \<Rightarrow> db_table \<Rightarrow> string list" where
  "read_pages 0 rid start sz db = []"
| "read_pages (Suc fuel) rid start sz db =
     (let r = snd (db_respond_query query_all_ok rid start sz db)
      in (case qr_respond r of None \<Rightarrow> [] | Some cells \<Rightarrow> cell_texts cells) @
         (if qr_more r > 0 then read_pages fuel rid (qr_stop r + 1) sz db else []))"

lemma cell_texts_map [simp]: "cell_texts (map (CStr \<circ> f) xs @ CNull # cs) = map f xs"
  by (induction xs) auto

lemma query_all_ok_succeeds: "fst (db_respond_query query_all_ok rid start sz db)"
  by (simp add: db_respond_query_def query_all_ok_def db_error_def sqlite_codes Let_def)

lemma query_all_ok_page:
  "db_ok db \<Longrightarrow> 1 \<le> sz \<Longrightarrow>
     snd (db_respond_query query_all_ok rid start sz db) = page (log_from db rid start) (nat sz)"
  by (rule query_page [OF _ _ _ query_all_ok_succeeds])
    (simp_all add: query_all_ok_def sqlite_codes)

lemma read_pages_log:
  assumes "db_ok db" "1 \<le> sz" "length (log_from db rid start) < fuel"
  shows "read_pages fuel rid start sz db = map row_respond (log_from db rid start)"
  using assms(3)
proof (induction fuel arbitrary: start)
  case (Suc fuel)
  let ?rows = "log_from db rid start"
  note page = query_all_ok_page [OF assms(1,2), of rid start]
  show ?case
  proof (cases "?rows = []")
    case True
    then show ?thesis by (simp add: page page_def db_respond_query_result_init_def)
  next
    case False
    have next_rows: "log_from db rid (row_num (last (take (nat sz) ?rows)) + 1) = drop (nat sz) ?rows"
      using assms False by (intro log_from_next) auto
    have "length (drop (nat sz) ?rows) < fuel" using Suc.prems assms(2) False
      by (cases ?rows) auto
    then have "read_pages fuel rid (row_num (last (take (nat sz) ?rows)) + 1) sz db =
        map row_respond (drop (nat sz) ?rows)"
      using Suc.IH [of "row_num (last (take (nat sz) ?rows)) + 1"] by (simp add: next_rows)
    then show ?thesis
      using False by (auto simp: page page_def map_append [symmetric] simp del: map_append)
  qed
qed simp

section \<open>What the purge deletes\<close>

lemma text_less_extended:
  "length xs = length ys \<Longrightarrow> text_less xs (ys @ z # zs) \<longleftrightarrow> xs = ys \<or> text_less xs ys"
  by (induction xs ys rule: list_induct2) (auto simp: Let_def)

section \<open>Properties\<close>



text \<open>C31: round trip of the response log: a client that reads the stored responses of a request page
  by page, following \<open>stop\<close> and \<open>more\<close>, gets each response from its starting number on exactly once,
  in the order of their numbers, whatever the page size.\<close>

theorem paging_reads_whole_log:
  assumes "db_ok db" "1 \<le> sz" "length (log_from db rid start) < fuel"
  shows "read_pages fuel rid start sz db = map row_respond (log_from db rid start)"
  using assms by (rule read_pages_log)

theorem paging_reads_whole_log_witness:
  "read_pages 9 ''r'' 2 2
     (map (\<lambda>(n, s). \<lparr>row_id = ''r'', row_num = n, row_respond = s, row_ts = ''t''\<rparr>)
        [(1, ''a''), (2, ''b''), (3, ''c''), (5, ''d'')]) = [''b'', ''c'', ''d'']"
  by (subst paging_reads_whole_log) (auto simp: db_ok_def log_of_def log_from_def)

text \<open>C37: after a query that succeeds the result can be destroyed; after one that fails while its
  second statement is prepared the array is there but was never filled, and destroying it, as
  \<open>gonggo_response_dump\<close> does, walks uninitialised memory.\<close>

theorem query_result_destroy:
  assumes "db_ok db" "1 \<le> sz" "qs_step_count st = SQLITE_ROW"
  shows "(fst (db_respond_query st rid start sz db) \<longrightarrow>
            db_respond_query_result_destroy (snd (db_respond_query st rid start sz db)) = Some ()) \<and>
    (\<not> db_error (qs_open st) \<and> \<not> db_error (qs_prepare_count st) \<and> \<not> db_error (qs_bind_count_id st) \<and>
     \<not> db_error (qs_bind_count_start st) \<and> db_error (qs_prepare st) \<and> log_from db rid start \<noteq> [] \<longrightarrow>
       db_respond_query_result_destroy (snd (db_respond_query st rid start sz db)) = None)"
proof (intro conjI impI)
  assume "fst (db_respond_query st rid start sz db)"
  then show "db_respond_query_result_destroy (snd (db_respond_query st rid start sz db)) = Some ()"
    unfolding query_page [OF assms \<open>fst _\<close>]
    by (simp add: page_def db_respond_query_result_destroy_def db_respond_query_result_init_def)
next
  assume f: "\<not> db_error (qs_open st) \<and> \<not> db_error (qs_prepare_count st) \<and>
     \<not> db_error (qs_bind_count_id st) \<and>
     \<not> db_error (qs_bind_count_start st) \<and> db_error (qs_prepare st) \<and> log_from db rid start \<noteq> []"
  then have "\<not> int (length (select_rows rid start db)) < 1"
    by (cases "log_from db rid start") (auto simp: select_rows_log)
  with f assms(3)
  show "db_respond_query_result_destroy (snd (db_respond_query st rid start sz db)) = None"
    by (simp add: db_respond_query_def Let_def db_respond_query_result_destroy_def sqlite_codes)
qed

theorem query_result_destroy_witness:
  "db_respond_query_result_destroy (snd (db_respond_query (query_all_ok\<lparr>qs_prepare := 1\<rparr>) ''r'' 1 5
     [\<lparr>row_id = ''r'', row_num = 1, row_respond = ''a'', row_ts = ''t''\<rparr>])) = None"
  using query_result_destroy
    [of "[\<lparr>row_id = ''r'', row_num = 1, row_respond = ''a'', row_ts = ''t''\<rparr>]" 5
      "query_all_ok\<lparr>qs_prepare := 1\<rparr>" "''r''" 1]
  by (simp add: db_ok_def log_of_def log_from_def query_all_ok_def db_error_def sqlite_codes)



end
