(* ===== verification/Proxy_Types.thy ===== *)
theory Proxy_Types
  imports Gonggo_Prelude
begin

text \<open>
  \<open>gear/proxy.h\<close> and the context objects of a proxy.  A proxy shares three segments with gonggo,
  named after it: the channel segment (requests out), the subscribe segment (answers in) and the
  alive segment.  The field \<open>held\<close> of a segment says that a gonggo thread holds its mutex; the
  condition variables are not data and show up as the places where the operations wait.
\<close>

datatype ProxyActivationState =
    ACTIVATION_INIT | ACTIVATION_IDLE | ACTIVATION_REQUEST | ACTIVATION_PROXY_DYING
  | ACTIVATION_FAILED | ACTIVATION_SUCCESS | ACTIVATION_DONE | ACTIVATION_TERMINATION

record ProxyActivationShm =
  as_proxy_name :: pname
  as_pid :: int
  as_state :: ProxyActivationState

datatype ProxyChannelState =
    CHANNEL_INIT | CHANNEL_IDLE | CHANNEL_REQUEST | CHANNEL_ACKNOWLEDGED | CHANNEL_FAILS
  | CHANNEL_DONE | CHANNEL_STOP_REQUEST | CHANNEL_REST | CHANNEL_REST_RESPOND | CHANNEL_TERMINATION

record ProxyChannelShm =
  cs_state :: ProxyChannelState
  cs_rid :: uuid
  cs_payload_buff_length :: nat
  cs_aid :: uuid
  cs_answer_buff_length :: nat
  cs_held :: bool

record ProxyChannelContext =
  cc_proxy_name :: pname
  cc_stop :: bool
  cc_shm :: ProxyChannelShm

datatype ProxySubscribeState =
    SUBSCRIBE_INIT | SUBSCRIBE_IDLE | SUBSCRIBE_ANSWER | SUBSCRIBE_FAILED | SUBSCRIBE_DONE
  | SUBSCRIBE_TERMINATION

record ProxySubscribeShm =
  ss_state :: ProxySubscribeState
  ss_aid :: uuid
  ss_payload_buff_length :: nat
  ss_remove_request :: bool

record ProxySubscribeContext =
  sc_proxy_name :: pname
  sc_stop :: bool
  sc_shm :: ProxySubscribeShm

record ProxyAliveMutexShm =
  al_alive :: bool

record ProxyAliveContext =
  ac_proxy_name :: pname
  ac_pid :: int
  ac_dead :: bool
  ac_shm :: ProxyAliveMutexShm

section \<open>The names of the segments\<close>

definition proxy_channel_path :: "pname \<Rightarrow> string" where
  "proxy_channel_path proxy_name = ''/'' @ proxy_name @ ''_channel''"

definition proxy_subscribe_path :: "pname \<Rightarrow> string" where
  "proxy_subscribe_path proxy_name = ''/'' @ proxy_name @ ''_subscribe''"

definition proxy_alive_path :: "pname \<Rightarrow> string" where
  "proxy_alive_path proxy_name = ''/'' @ proxy_name @ ''_alive''"

definition payload_path :: "uuid \<Rightarrow> string" where
  "payload_path request_uuid = ''/'' @ request_uuid"

lemmas path_defs = proxy_channel_path_def proxy_subscribe_path_def proxy_alive_path_def
  payload_path_def

lemma segment_paths_inj [simp]:
  "proxy_channel_path p = proxy_channel_path q \<longleftrightarrow> p = q"
  "proxy_subscribe_path p = proxy_subscribe_path q \<longleftrightarrow> p = q"
  "proxy_alive_path p = proxy_alive_path q \<longleftrightarrow> p = q"
  "payload_path r = payload_path r' \<longleftrightarrow> r = r'"
  by (simp_all add: path_defs)

lemma last_path_char:
  "last (proxy_channel_path p) = CHR ''l''" "last (proxy_subscribe_path p) = CHR ''e''"
  "last (proxy_alive_path p) = CHR ''e''"
  by (simp_all add: path_defs)

lemma segment_paths_disjoint [simp]:
  "proxy_channel_path p \<noteq> proxy_subscribe_path q" "proxy_channel_path p \<noteq> proxy_alive_path q"
  "proxy_subscribe_path p \<noteq> proxy_alive_path q"
proof -
  show "proxy_channel_path p \<noteq> proxy_subscribe_path q" "proxy_channel_path p \<noteq> proxy_alive_path q"
    by (auto dest!: arg_cong [of _ _ last] simp: last_path_char)
  have "rev (proxy_subscribe_path p) ! 1 \<noteq> rev (proxy_alive_path q) ! 1"
    by (simp add: path_defs)
  then show "proxy_subscribe_path p \<noteq> proxy_alive_path q" by metis
qed

section \<open>Creating contexts\<close>

definition proxy_channel_context_create :: "pname \<Rightarrow> ProxyChannelShm \<Rightarrow> ProxyChannelContext" where
  "proxy_channel_context_create proxy_name shm =
     \<lparr>cc_proxy_name = proxy_name, cc_stop = False, cc_shm = shm\<rparr>"

definition proxy_subscribe_context_create ::
    "pname \<Rightarrow> ProxySubscribeShm \<Rightarrow> ProxySubscribeContext" where
  "proxy_subscribe_context_create proxy_name shm =
     \<lparr>sc_proxy_name = proxy_name, sc_stop = False, sc_shm = shm\<rparr>"

definition proxy_alive_context_create ::
    "pname \<Rightarrow> int \<Rightarrow> ProxyAliveMutexShm \<Rightarrow> ProxyAliveContext" where
  "proxy_alive_context_create proxy_name pid shm =
     \<lparr>ac_proxy_name = proxy_name, ac_pid = pid, ac_dead = False, ac_shm = shm\<rparr>"

text \<open>Destroying a context unmaps its segment and unlinks the segment's name; the observable effect
  is the list of unlinked names.\<close>

definition proxy_channel_context_destroy :: "ProxyChannelContext \<Rightarrow> string list" where
  "proxy_channel_context_destroy ctx = [proxy_channel_path (cc_proxy_name ctx)]"

definition proxy_subscribe_context_destroy :: "ProxySubscribeContext \<Rightarrow> string list" where
  "proxy_subscribe_context_destroy ctx = [proxy_subscribe_path (sc_proxy_name ctx)]"

definition proxy_alive_context_destroy :: "ProxyAliveContext \<Rightarrow> string list" where
  "proxy_alive_context_destroy ctx = [proxy_alive_path (ac_proxy_name ctx)]"

text \<open>A channel segment at rest.\<close>

definition idle_channel_shm :: ProxyChannelShm where
  "idle_channel_shm = \<lparr>cs_state = CHANNEL_IDLE, cs_rid = [], cs_payload_buff_length = 0, cs_aid = [],
     cs_answer_buff_length = 0, cs_held = False\<rparr>"

end
