(* ===== verification/Thread_Tables.thy ===== *)
theory Thread_Tables
  imports Proxy_Types
begin

text \<open>
  The three tables of running proxy threads, \<open>gear/proxysubscribethreadtable.c\<close>,
  \<open>gear/proxychannelthreadtable.c\<close> and \<open>gear/proxyalivethreadtable.c\<close>, from a proxy name to the
  thread and its context, and \<open>gear/strarr.c\<close>.  Removing an entry, by \<open>remove\<close> or by a \<open>set\<close>
  on an occupied name, destroys its context: the operations return the names of the unlinked
  segments beside the table.
\<close>

record 'c thread_entry =
  te_thread :: nat
  te_ctx :: 'c

type_synonym subscribe_table = "(pname, ProxySubscribeContext thread_entry) table"
type_synonym channel_table = "(pname, ProxyChannelContext thread_entry) table"
type_synonym alive_table = "(pname, ProxyAliveContext thread_entry) table"

section \<open>strarr.c\<close>

definition str_arr_create_keys ::
    "(string list \<Rightarrow> string list) \<Rightarrow> (string, 'v) table option \<Rightarrow> string list" where
  "str_arr_create_keys ord t = (case t of None \<Rightarrow> [] | Some tab \<Rightarrow> ord (ht_keys tab))"

definition str_arr_create_values ::
    "(string list \<Rightarrow> string list) \<Rightarrow> (string, string) table option \<Rightarrow> string list" where
  "str_arr_create_values ord t =
     (case t of None \<Rightarrow> [] | Some tab \<Rightarrow> List.map_filter (ht_lookup tab) (ord (ht_keys tab)))"

section \<open>Subscribe threads\<close>

definition proxy_subscribe_thread_table_create :: "subscribe_table option \<Rightarrow> subscribe_table option"
  where "proxy_subscribe_thread_table_create p = (case p of None \<Rightarrow> Some [] | Some t \<Rightarrow> Some t)"

definition proxy_subscribe_thread_table_destroy :: "subscribe_table option \<Rightarrow> subscribe_table option"
  where "proxy_subscribe_thread_table_destroy p = (case p of None \<Rightarrow> None | Some _ \<Rightarrow> None)"

definition proxy_subscribe_thread_table_get ::
    "pname \<Rightarrow> subscribe_table \<Rightarrow> ProxySubscribeContext thread_entry option" where
  "proxy_subscribe_thread_table_get proxy_name t = ht_lookup t proxy_name"

definition proxy_subscribe_thread_table_remove ::
    "pname \<Rightarrow> subscribe_table \<Rightarrow> subscribe_table \<times> string list" where
  "proxy_subscribe_thread_table_remove proxy_name t =
     (ht_remove proxy_name t,
      case ht_lookup t proxy_name of
        None \<Rightarrow> [] | Some p \<Rightarrow> proxy_subscribe_context_destroy (te_ctx p))"

definition proxy_subscribe_thread_table_set ::
    "pname \<Rightarrow> nat \<Rightarrow> ProxySubscribeContext \<Rightarrow> subscribe_table \<Rightarrow> subscribe_table \<times> string list" where
  "proxy_subscribe_thread_table_set proxy_name thread ctx t =
     (let p = \<lparr>te_thread = thread, te_ctx = ctx\<rparr>;
          (t1, gone) = proxy_subscribe_thread_table_remove proxy_name t
      in (ht_insert proxy_name p t1, gone))"

section \<open>Channel threads\<close>

definition proxy_channel_thread_table_create :: "channel_table option \<Rightarrow> channel_table option" where
  "proxy_channel_thread_table_create p = (case p of None \<Rightarrow> Some [] | Some t \<Rightarrow> Some t)"

definition proxy_channel_thread_table_destroy :: "channel_table option \<Rightarrow> channel_table option" where
  "proxy_channel_thread_table_destroy p = (case p of None \<Rightarrow> None | Some _ \<Rightarrow> None)"

definition proxy_channel_thread_table_get ::
    "pname \<Rightarrow> channel_table \<Rightarrow> ProxyChannelContext thread_entry option" where
  "proxy_channel_thread_table_get proxy_name t = ht_lookup t proxy_name"

definition proxy_channel_thread_table_remove ::
    "pname \<Rightarrow> channel_table \<Rightarrow> channel_table \<times> string list" where
  "proxy_channel_thread_table_remove proxy_name t =
     (ht_remove proxy_name t,
      case ht_lookup t proxy_name of
        None \<Rightarrow> [] | Some p \<Rightarrow> proxy_channel_context_destroy (te_ctx p))"

definition proxy_channel_thread_table_set ::
    "pname \<Rightarrow> nat \<Rightarrow> ProxyChannelContext \<Rightarrow> channel_table \<Rightarrow> channel_table \<times> string list" where
  "proxy_channel_thread_table_set proxy_name thread ctx t =
     (let p = \<lparr>te_thread = thread, te_ctx = ctx\<rparr>;
          (t1, gone) = proxy_channel_thread_table_remove proxy_name t
      in (ht_insert proxy_name p t1, gone))"

section \<open>Alive threads\<close>

definition proxy_alive_thread_table_create :: "alive_table option \<Rightarrow> alive_table option" where
  "proxy_alive_thread_table_create p = (case p of None \<Rightarrow> Some [] | Some t \<Rightarrow> Some t)"

definition proxy_alive_thread_table_destroy :: "alive_table option \<Rightarrow> alive_table option" where
  "proxy_alive_thread_table_destroy p = (case p of None \<Rightarrow> None | Some _ \<Rightarrow> None)"

definition proxy_alive_thread_table_get ::
    "pname \<Rightarrow> alive_table \<Rightarrow> ProxyAliveContext thread_entry option" where
  "proxy_alive_thread_table_get proxy_name t = ht_lookup t proxy_name"

definition proxy_alive_thread_table_remove ::
    "pname \<Rightarrow> alive_table \<Rightarrow> alive_table \<times> string list" where
  "proxy_alive_thread_table_remove proxy_name t =
     (ht_remove proxy_name t,
      case ht_lookup t proxy_name of
        None \<Rightarrow> [] | Some p \<Rightarrow> proxy_alive_context_destroy (te_ctx p))"

definition proxy_alive_thread_table_set ::
    "pname \<Rightarrow> nat \<Rightarrow> ProxyAliveContext \<Rightarrow> alive_table \<Rightarrow> alive_table \<times> string list" where
  "proxy_alive_thread_table_set proxy_name thread ctx t =
     (let p = \<lparr>te_thread = thread, te_ctx = ctx\<rparr>;
          (t1, gone) = proxy_alive_thread_table_remove proxy_name t
      in (ht_insert proxy_name p t1, gone))"

definition proxy_alive_thread_table_char_keys_create ::
    "(pname list \<Rightarrow> pname list) \<Rightarrow> alive_table \<Rightarrow> pname list" where
  "proxy_alive_thread_table_char_keys_create ord t = str_arr_create_keys ord (Some t)"

section \<open>All three are stores of thread entries by proxy name\<close>

lemmas subscribe_table_defs = proxy_subscribe_thread_table_get_def
  proxy_subscribe_thread_table_set_def proxy_subscribe_thread_table_remove_def
lemmas channel_table_defs = proxy_channel_thread_table_get_def
  proxy_channel_thread_table_set_def proxy_channel_thread_table_remove_def
lemmas alive_table_defs = proxy_alive_thread_table_get_def
  proxy_alive_thread_table_set_def proxy_alive_thread_table_remove_def

interpretation subscribes: keyed_store "\<lambda>t p. proxy_subscribe_thread_table_get p t"
  "\<lambda>p e t. fst (proxy_subscribe_thread_table_set p (te_thread e) (te_ctx e) t)"
  "\<lambda>p t. fst (proxy_subscribe_thread_table_remove p t)" ht_ok
  by unfold_locales (simp_all add: subscribe_table_defs)

interpretation channels: keyed_store "\<lambda>t p. proxy_channel_thread_table_get p t"
  "\<lambda>p e t. fst (proxy_channel_thread_table_set p (te_thread e) (te_ctx e) t)"
  "\<lambda>p t. fst (proxy_channel_thread_table_remove p t)" ht_ok
  by unfold_locales (simp_all add: channel_table_defs)

interpretation alives: keyed_store "\<lambda>t p. proxy_alive_thread_table_get p t"
  "\<lambda>p e t. fst (proxy_alive_thread_table_set p (te_thread e) (te_ctx e) t)"
  "\<lambda>p t. fst (proxy_alive_thread_table_remove p t)" ht_ok
  by unfold_locales (simp_all add: alive_table_defs)

lemma set_str_arr_keys:
  "iter_order ord \<Longrightarrow>
     set (proxy_alive_thread_table_char_keys_create ord t) = {p. ht_lookup t p \<noteq> None}"
  by (auto simp: proxy_alive_thread_table_char_keys_create_def str_arr_create_keys_def
      iter_order_set ht_keys_lookup)

end
