(* ===== verification/Dispatcher_State.thy ===== *)
theory Dispatcher_State
  imports Json_Lib Request_Table Connection_Table Service_Table Proxyname_Table Name_Arrays Database
    Thread_Tables
begin

text \<open>
  The state the threads of gonggo share, one field per static object of \<open>gear/\<close>, and what a
  handler takes from outside (\<open>world\<close>): the JSON library, the clock, the order in which GLib visits
  a table, the generated ids and the statuses of SQLite.  \<open>g_sent\<close> is the log of
  \<open>mg_websocket_write\<close>, \<open>g_wakeups\<close> the log of the signals on a channel context's \<open>wakeup\<close>,
  \<open>g_handed\<close> the log of the requests put into a proxy's channel, \<open>g_segments\<close> the namespace of
  POSIX shared memory.
\<close>

datatype segment = ControlSegment | PayloadSegment string

record gonggo =
  g_requests :: request_table
  g_connections :: connection_table
  g_services :: service_table
  g_proxynames :: proxyname_table
  g_subscribes :: subscribe_table
  g_channels :: channel_table
  g_alives :: alive_table
  g_terminating :: name_list
  g_terminate :: name_list
  g_queue :: "pname list"
  g_db :: db_table
  g_path :: "string option"
  g_sent :: "(conn \<times> string) list"
  g_wakeups :: "pname list"
  g_handed :: "(pname \<times> uuid \<times> string) list"
  g_segments :: "(string, segment) table"

record world =
  w_json :: cjson
  w_now :: time_t
  w_names :: "string list \<Rightarrow> string list"
  w_conns :: "conn list \<Rightarrow> conn list"
  w_uuid :: "nat \<Rightarrow> uuid"
  w_insert :: "uuid \<Rightarrow> insert_status"
  w_query :: query_status
  w_ts :: string
  w_shm_open :: "string \<Rightarrow> bool"  \<comment> \<open>whether opening, or creating, the segment succeeds\<close>
  w_mmap :: "string \<Rightarrow> bool"

definition world_ok :: "world \<Rightarrow> bool" where
  "world_ok w \<longleftrightarrow> iter_order (w_names w) \<and> iter_order (w_conns w) \<and>
     (\<forall>r. is_step_max (w_insert w r) \<noteq> SQLITE_DONE)"

definition initial_gonggo :: "string \<Rightarrow> gonggo" where
  "initial_gonggo gonggo_name =
     \<lparr>g_requests = [], g_connections = [], g_services = [], g_proxynames = [], g_subscribes = [],
      g_channels = [], g_alives = [], g_terminating = [], g_terminate = [], g_queue = [], g_db = [],
      g_path = Some (''/'' @ gonggo_name), g_sent = [], g_wakeups = [],
      g_handed = [], g_segments = []\<rparr>"

definition mg_websocket_write :: "conn \<Rightarrow> string \<Rightarrow> gonggo \<Rightarrow> gonggo" where
  "mg_websocket_write c s st = st\<lparr>g_sent := g_sent st @ [(c, s)]\<rparr>"

definition channel_wakeup :: "pname \<Rightarrow> gonggo \<Rightarrow> gonggo" where
  "channel_wakeup p st = st\<lparr>g_wakeups := g_wakeups st @ [p]\<rparr>"

definition g_db_insert :: "world \<Rightarrow> uuid \<Rightarrow> string \<Rightarrow> gonggo \<Rightarrow> gonggo" where
  "g_db_insert w rid s st =
     st\<lparr>g_db := snd (db_respond_insert (w_insert w rid) (w_ts w) rid s (g_db st))\<rparr>"

lemma mg_websocket_write_fields [simp]:
  "g_requests (mg_websocket_write c s st) = g_requests st"
  "g_connections (mg_websocket_write c s st) = g_connections st"
  "g_services (mg_websocket_write c s st) = g_services st"
  "g_proxynames (mg_websocket_write c s st) = g_proxynames st"
  "g_subscribes (mg_websocket_write c s st) = g_subscribes st"
  "g_channels (mg_websocket_write c s st) = g_channels st"
  "g_alives (mg_websocket_write c s st) = g_alives st"
  "g_terminating (mg_websocket_write c s st) = g_terminating st"
  "g_terminate (mg_websocket_write c s st) = g_terminate st"
  "g_queue (mg_websocket_write c s st) = g_queue st"
  "g_db (mg_websocket_write c s st) = g_db st"
  "g_path (mg_websocket_write c s st) = g_path st"
  "g_handed (mg_websocket_write c s st) = g_handed st"
  "g_segments (mg_websocket_write c s st) = g_segments st"
  "g_wakeups (mg_websocket_write c s st) = g_wakeups st"
  "g_sent (mg_websocket_write c s st) = g_sent st @ [(c, s)]"
  by (simp_all add: mg_websocket_write_def)

lemma channel_wakeup_fields [simp]:
  "g_requests (channel_wakeup p st) = g_requests st"
  "g_connections (channel_wakeup p st) = g_connections st"
  "g_services (channel_wakeup p st) = g_services st"
  "g_proxynames (channel_wakeup p st) = g_proxynames st"
  "g_subscribes (channel_wakeup p st) = g_subscribes st"
  "g_channels (channel_wakeup p st) = g_channels st"
  "g_alives (channel_wakeup p st) = g_alives st"
  "g_terminating (channel_wakeup p st) = g_terminating st"
  "g_terminate (channel_wakeup p st) = g_terminate st"
  "g_queue (channel_wakeup p st) = g_queue st"
  "g_db (channel_wakeup p st) = g_db st"
  "g_path (channel_wakeup p st) = g_path st"
  "g_handed (channel_wakeup p st) = g_handed st"
  "g_segments (channel_wakeup p st) = g_segments st"
  "g_sent (channel_wakeup p st) = g_sent st"
  "g_wakeups (channel_wakeup p st) = g_wakeups st @ [p]"
  by (simp_all add: channel_wakeup_def)

lemma g_db_insert_fields [simp]:
  "g_requests (g_db_insert w r s st) = g_requests st"
  "g_connections (g_db_insert w r s st) = g_connections st"
  "g_services (g_db_insert w r s st) = g_services st"
  "g_proxynames (g_db_insert w r s st) = g_proxynames st"
  "g_subscribes (g_db_insert w r s st) = g_subscribes st"
  "g_channels (g_db_insert w r s st) = g_channels st"
  "g_alives (g_db_insert w r s st) = g_alives st"
  "g_terminating (g_db_insert w r s st) = g_terminating st"
  "g_terminate (g_db_insert w r s st) = g_terminate st"
  "g_queue (g_db_insert w r s st) = g_queue st"
  "g_path (g_db_insert w r s st) = g_path st"
  "g_handed (g_db_insert w r s st) = g_handed st"
  "g_segments (g_db_insert w r s st) = g_segments st"
  "g_sent (g_db_insert w r s st) = g_sent st"
  "g_wakeups (g_db_insert w r s st) = g_wakeups st"
  "g_db (g_db_insert w r s st) =
     snd (db_respond_insert (w_insert w r) (w_ts w) r s (g_db st))"
  by (simp_all add: g_db_insert_def)

text \<open>A concrete world for the witnesses: GLib visits in table order, every call succeeds.\<close>

definition sample_world :: "(string \<Rightarrow> json option) \<Rightarrow> (json \<Rightarrow> string) \<Rightarrow> world" where
  "sample_world parse prnt =
     \<lparr>w_json = sample_cjson parse prnt, w_now = 1000, w_names = id, w_conns = id,
      w_uuid = (\<lambda>n. replicate (Suc n) CHR ''u''), w_insert = (\<lambda>_. insert_all_ok),
      w_query = query_all_ok, w_ts = ''2024-01-01 00:00:00'', w_shm_open = (\<lambda>_. True),
      w_mmap = (\<lambda>_. True)\<rparr>"

lemma sample_world_fields [simp]:
  "w_json (sample_world parse prnt) = sample_cjson parse prnt"
  "w_now (sample_world parse prnt) = 1000" "w_names (sample_world parse prnt) = id"
  "w_conns (sample_world parse prnt) = id"
  "w_uuid (sample_world parse prnt) = (\<lambda>n. replicate (Suc n) CHR ''u'')"
  "w_insert (sample_world parse prnt) = (\<lambda>_. insert_all_ok)"
  "w_query (sample_world parse prnt) = query_all_ok"
  "w_ts (sample_world parse prnt) = ''2024-01-01 00:00:00''"
  "w_shm_open (sample_world parse prnt) p" "w_mmap (sample_world parse prnt) p"
  by (simp_all add: sample_world_def)

lemma sample_world_ok [simp]: "world_ok (sample_world parse prnt)"
  by (simp add: world_ok_def insert_all_ok_def sqlite_codes)

end
