(* ===== verification/Client_Reply.thy ===== *)
theory Client_Reply
  imports Dispatcher_State
begin

text \<open>
  \<open>gear/clientreply.c\<close> and \<open>gear/servicestatus.h\<close>: the messages gonggo writes to its clients.  Each
  is a JSON tree (the \<open>_tree\<close> definitions), printed and written to the connection; answers and
  expiry notices are also stored in the database.
\<close>

datatype ServiceStatus =
    REQUEST_PARSE_STATUS_ACKNOWLEDGED | REQUEST_PARSE_STATUS_HEADERS_MISSING
  | REQUEST_PARSE_STATUS_RID_MISSING | REQUEST_PARSE_STATUS_RID_OVERLENGTH
  | REQUEST_PARSE_STATUS_SERVICE_MISSING | REQUEST_PARSE_STATUS_SERVICE_RESERVED
  | REQUEST_PARSE_STATUS_PAYLOAD_MISSING | REQUEST_PARSE_STATUS_PAYLOAD_INVALID
  | REQUEST_PARSE_STATUS_GONGGO_SERVICE_INVALID | REQUEST_PARSE_STATUS_TIMEOUT_MISSING
  | REQUEST_PARSE_STATUS_TIMEOUT_INVALID | REQUEST_STATUS_ANSWERED
  | REQUEST_STATUS_PROXY_ALIVE_NOTIFICATION | REQUEST_STATUS_EXPIRED
  | PROXY_STATUS_START | PROXY_STATUS_TERMINATED

fun service_status_code :: "ServiceStatus \<Rightarrow> int" where
  "service_status_code REQUEST_PARSE_STATUS_ACKNOWLEDGED = 1"
| "service_status_code REQUEST_PARSE_STATUS_HEADERS_MISSING = 2"
| "service_status_code REQUEST_PARSE_STATUS_RID_MISSING = 3"
| "service_status_code REQUEST_PARSE_STATUS_RID_OVERLENGTH = 4"
| "service_status_code REQUEST_PARSE_STATUS_SERVICE_MISSING = 5"
| "service_status_code REQUEST_PARSE_STATUS_SERVICE_RESERVED = 6"
| "service_status_code REQUEST_PARSE_STATUS_PAYLOAD_MISSING = 7"
| "service_status_code REQUEST_PARSE_STATUS_PAYLOAD_INVALID = 8"
| "service_status_code REQUEST_PARSE_STATUS_GONGGO_SERVICE_INVALID = 9"
| "service_status_code REQUEST_PARSE_STATUS_TIMEOUT_MISSING = 10"
| "service_status_code REQUEST_PARSE_STATUS_TIMEOUT_INVALID = 11"
| "service_status_code REQUEST_STATUS_ANSWERED = 20"
| "service_status_code REQUEST_STATUS_PROXY_ALIVE_NOTIFICATION = 21"
| "service_status_code REQUEST_STATUS_EXPIRED = 22"
| "service_status_code PROXY_STATUS_START = 30"
| "service_status_code PROXY_STATUS_TERMINATED = 31"

definition status_number :: "ServiceStatus \<Rightarrow> json" where
  "status_number status = JNumber (of_int (service_status_code status))"

text \<open>\<open>ProxyServiceStatus\<close>, \<open>TestStatus\<close> and \<open>ResponseDumpStatus\<close>.\<close>

definition PROXYSERVICESTATUS_ALIVE_START :: int where "PROXYSERVICESTATUS_ALIVE_START = 1"
definition PROXYSERVICESTATUS_ALIVE_TERMINATION :: int
  where "PROXYSERVICESTATUS_ALIVE_TERMINATION = 2"
definition PROXYSERVICESTATUS_MULTIRESPOND_CLEAR_SUCCESS :: int
  where "PROXYSERVICESTATUS_MULTIRESPOND_CLEAR_SUCCESS = 3"
definition GONGGO_TEST_SUCCESS :: int where "GONGGO_TEST_SUCCESS = 1"
definition GONGGO_RESPONSE_DUMP_SUCCESS :: int where "GONGGO_RESPONSE_DUMP_SUCCESS = 1"
definition GONGGO_RESPONSE_DUMP_DB_ERROR :: int where "GONGGO_RESPONSE_DUMP_DB_ERROR = 2"

section \<open>The status of a request\<close>

definition parsing_status_tree :: "uuid option \<Rightarrow> ServiceStatus \<Rightarrow> json" where
  "parsing_status_tree rid status =
     JObject [(''headers'', JObject
       [(''rid'', JString (case rid of Some r \<Rightarrow> r | None \<Rightarrow> [])),
        (''requestStatus'', status_number status)])]"

definition client_parsing_status_reply ::
    "world \<Rightarrow> conn \<Rightarrow> uuid option \<Rightarrow> ServiceStatus \<Rightarrow> gonggo \<Rightarrow> gonggo" where
  "client_parsing_status_reply w conn rid status st =
     mg_websocket_write conn
       (cJSON_PrintUnformatted (w_json w) (parsing_status_tree rid status)) st"

section \<open>An answer\<close>

text \<open>The loop over the children of the proxy's headers: each is looked up again by its name, and an
  absent member is not added.\<close>

fun merge_headers :: "cjson \<Rightarrow> json \<Rightarrow> (string \<times> json) list \<Rightarrow> (string \<times> json) list" where
  "merge_headers J proxy_headers [] = []"
| "merge_headers J proxy_headers ((key, _) # child) =
     (case cJSON_GetObjectItem J proxy_headers key of
        None \<Rightarrow> merge_headers J proxy_headers child
      | Some value \<Rightarrow> (key, value) # merge_headers J proxy_headers child)"

definition service_reply_tree :: "cjson \<Rightarrow> uuid \<Rightarrow> json \<Rightarrow> json option \<Rightarrow> json" where
  "service_reply_tree J rid proxy_headers proxy_payload =
     JObject ([(''headers'', JObject
        ([(''rid'', JString rid), (''requestStatus'', status_number REQUEST_STATUS_ANSWERED)] @
         merge_headers J proxy_headers (object_members proxy_headers)))] @
      (case proxy_payload of None \<Rightarrow> [] | Some p \<Rightarrow> [(''payload'', p)]))"

definition client_service_reply ::
    "world \<Rightarrow> conn option \<Rightarrow> uuid \<Rightarrow> json \<Rightarrow> json option \<Rightarrow> bool \<Rightarrow> gonggo \<Rightarrow> gonggo" where
  "client_service_reply w conn rid proxy_headers proxy_payload db_save st =
     (let s = cJSON_PrintUnformatted (w_json w)
                (service_reply_tree (w_json w) rid proxy_headers proxy_payload);
          st1 = (if db_save \<and> length rid > 0 then g_db_insert w rid s st else st)
      in case conn of None \<Rightarrow> st1 | Some c \<Rightarrow> mg_websocket_write c s st1)"

section \<open>An expiry notice\<close>

definition expired_reply_tree :: "uuid \<Rightarrow> json" where
  "expired_reply_tree rid =
     JObject [(''headers'', JObject
       [(''rid'', JString rid), (''requestStatus'', status_number REQUEST_STATUS_EXPIRED)])]"

definition client_service_expired_reply ::
    "world \<Rightarrow> conn option \<Rightarrow> uuid \<Rightarrow> bool \<Rightarrow> gonggo \<Rightarrow> gonggo" where
  "client_service_expired_reply w conn rid db_save st =
     (let s = cJSON_PrintUnformatted (w_json w) (expired_reply_tree rid);
          st1 = (if db_save \<and> length rid > 0 then g_db_insert w rid s st else st)
      in case conn of None \<Rightarrow> st1 | Some c \<Rightarrow> mg_websocket_write c s st1)"

section \<open>A proxy came or went\<close>

definition alive_notification_tree :: "pname \<Rightarrow> uuid list \<Rightarrow> bool \<Rightarrow> json" where
  "alive_notification_tree proxy_name request_uuid_arr started =
     JObject
       [(''headers'', JObject
          [(''requestStatus'', status_number REQUEST_STATUS_PROXY_ALIVE_NOTIFICATION),
           (''serviceStatus'', JNumber (of_int (if started then PROXYSERVICESTATUS_ALIVE_START
                                                else PROXYSERVICESTATUS_ALIVE_TERMINATION)))]),
        (''payload'', JObject
          [(''proxy'', JString proxy_name), (''rid'', JArray (map JString request_uuid_arr))])]"

definition client_proxy_alive_notification_do ::
    "world \<Rightarrow> conn \<Rightarrow> pname \<Rightarrow> uuid list \<Rightarrow> bool \<Rightarrow> gonggo \<Rightarrow> gonggo" where
  "client_proxy_alive_notification_do w conn proxy_name request_uuid_arr started st =
     mg_websocket_write conn
       (cJSON_PrintUnformatted (w_json w)
          (alive_notification_tree proxy_name request_uuid_arr started)) st"

text \<open>The first loop groups the pending requests of the proxy by connection, in a private table.\<close>

fun notification_groups ::
    "time_t \<Rightarrow> request_table \<Rightarrow> uuid list \<Rightarrow> connection_table \<Rightarrow> connection_table" where
  "notification_groups now reqs [] client_conn_table = client_conn_table"
| "notification_groups now reqs (request_uuid # rest) client_conn_table =
     (case fst (client_request_table_get_conn now request_uuid False False reqs) of
        None \<Rightarrow> notification_groups now reqs rest client_conn_table
      | Some conn \<Rightarrow>
          notification_groups now reqs rest
            (client_connection_table_set conn request_uuid client_conn_table))"

fun notification_loop ::
    "world \<Rightarrow> pname \<Rightarrow> bool \<Rightarrow> connection_table \<Rightarrow> conn list \<Rightarrow> gonggo \<Rightarrow> gonggo" where
  "notification_loop w proxy_name started t [] st = st"
| "notification_loop w proxy_name started t (conn # iter) st =
     notification_loop w proxy_name started t iter
       (case ht_lookup t conn of
          None \<Rightarrow> st
        | Some arr \<Rightarrow> client_proxy_alive_notification_do w conn proxy_name arr started st)"

definition client_proxy_alive_notification :: "world \<Rightarrow> pname \<Rightarrow> bool \<Rightarrow> gonggo \<Rightarrow> gonggo" where
  "client_proxy_alive_notification w proxy_name started st =
     (let request_uuid_arr = client_proxyname_table_request_dup proxy_name False (g_proxynames st);
          arr = (case request_uuid_arr of None \<Rightarrow> [] | Some a \<Rightarrow> a);
          groups = notification_groups (w_now w) (g_requests st) arr []
      in notification_loop w proxy_name started groups (w_conns w (ht_keys groups)) st)"

section \<open>The tables are untouched by a reply\<close>

definition same_tables :: "gonggo \<Rightarrow> gonggo \<Rightarrow> bool" where
  "same_tables s t \<longleftrightarrow> g_requests s = g_requests t \<and> g_connections s = g_connections t \<and>
     g_services s = g_services t \<and> g_proxynames s = g_proxynames t \<and>
     g_subscribes s = g_subscribes t \<and> g_channels s = g_channels t \<and> g_alives s = g_alives t \<and>
     g_terminating s = g_terminating t \<and> g_terminate s = g_terminate t \<and> g_queue s = g_queue t \<and>
     g_path s = g_path t \<and> g_wakeups s = g_wakeups t \<and>
     g_handed s = g_handed t \<and> g_segments s = g_segments t"

lemma same_tables_refl [simp]: "same_tables s s"
  by (simp add: same_tables_def)

lemma same_tables_trans: "same_tables s t \<Longrightarrow> same_tables t u \<Longrightarrow> same_tables s u"
  by (simp add: same_tables_def)

lemma same_tables_write [simp]: "same_tables (mg_websocket_write c s st) st"
  by (simp add: same_tables_def)

lemma same_tables_replies [simp]:
  "same_tables (client_parsing_status_reply w c r status st) st"
  "same_tables (client_service_reply w co rid h p save st) st"
  "same_tables (client_service_expired_reply w co rid save st) st"
  "same_tables (client_proxy_alive_notification_do w c pn arr started st) st"
  by (auto simp: client_parsing_status_reply_def client_service_reply_def
      client_service_expired_reply_def client_proxy_alive_notification_do_def Let_def same_tables_def
      split: option.splits)

lemma same_tables_loop: "same_tables (notification_loop w p started t ks st) st"
proof (induction ks arbitrary: st)
  case (Cons c ks)
  have "same_tables (case ht_lookup t c of None \<Rightarrow> st
      | Some arr \<Rightarrow> client_proxy_alive_notification_do w c p arr started st) st"
    by (simp split: option.split)
  with Cons show ?case by (auto intro: same_tables_trans)
qed simp

lemma same_tables_notification [simp]:
  "same_tables (client_proxy_alive_notification w p started st) st"
  by (simp add: client_proxy_alive_notification_def Let_def same_tables_loop)

text \<open>The same, field by field, for the simplifier.\<close>

lemma parsing_status_reply_fields [simp]:
  "g_requests (client_parsing_status_reply w c r status st) = g_requests st"
  "g_connections (client_parsing_status_reply w c r status st) = g_connections st"
  "g_services (client_parsing_status_reply w c r status st) = g_services st"
  "g_proxynames (client_parsing_status_reply w c r status st) = g_proxynames st"
  "g_subscribes (client_parsing_status_reply w c r status st) = g_subscribes st"
  "g_channels (client_parsing_status_reply w c r status st) = g_channels st"
  "g_alives (client_parsing_status_reply w c r status st) = g_alives st"
  "g_terminating (client_parsing_status_reply w c r status st) = g_terminating st"
  "g_terminate (client_parsing_status_reply w c r status st) = g_terminate st"
  "g_queue (client_parsing_status_reply w c r status st) = g_queue st"
  "g_path (client_parsing_status_reply w c r status st) = g_path st"
  "g_wakeups (client_parsing_status_reply w c r status st) = g_wakeups st"
  "g_handed (client_parsing_status_reply w c r status st) = g_handed st"
  "g_segments (client_parsing_status_reply w c r status st) = g_segments st"
  using same_tables_replies(1) [of w c r status st] by (simp_all add: same_tables_def)

lemma service_reply_fields [simp]:
  "g_requests (client_service_reply w co rid h pl save st) = g_requests st"
  "g_connections (client_service_reply w co rid h pl save st) = g_connections st"
  "g_services (client_service_reply w co rid h pl save st) = g_services st"
  "g_proxynames (client_service_reply w co rid h pl save st) = g_proxynames st"
  "g_subscribes (client_service_reply w co rid h pl save st) = g_subscribes st"
  "g_channels (client_service_reply w co rid h pl save st) = g_channels st"
  "g_alives (client_service_reply w co rid h pl save st) = g_alives st"
  "g_terminating (client_service_reply w co rid h pl save st) = g_terminating st"
  "g_terminate (client_service_reply w co rid h pl save st) = g_terminate st"
  "g_queue (client_service_reply w co rid h pl save st) = g_queue st"
  "g_path (client_service_reply w co rid h pl save st) = g_path st"
  "g_wakeups (client_service_reply w co rid h pl save st) = g_wakeups st"
  "g_handed (client_service_reply w co rid h pl save st) = g_handed st"
  "g_segments (client_service_reply w co rid h pl save st) = g_segments st"
  using same_tables_replies(2) [of w co rid h pl save st] by (simp_all add: same_tables_def)

lemma expired_reply_fields [simp]:
  "g_requests (client_service_expired_reply w co rid save st) = g_requests st"
  "g_connections (client_service_expired_reply w co rid save st) = g_connections st"
  "g_services (client_service_expired_reply w co rid save st) = g_services st"
  "g_proxynames (client_service_expired_reply w co rid save st) = g_proxynames st"
  "g_subscribes (client_service_expired_reply w co rid save st) = g_subscribes st"
  "g_channels (client_service_expired_reply w co rid save st) = g_channels st"
  "g_alives (client_service_expired_reply w co rid save st) = g_alives st"
  "g_terminating (client_service_expired_reply w co rid save st) = g_terminating st"
  "g_terminate (client_service_expired_reply w co rid save st) = g_terminate st"
  "g_queue (client_service_expired_reply w co rid save st) = g_queue st"
  "g_path (client_service_expired_reply w co rid save st) = g_path st"
  "g_wakeups (client_service_expired_reply w co rid save st) = g_wakeups st"
  "g_handed (client_service_expired_reply w co rid save st) = g_handed st"
  "g_segments (client_service_expired_reply w co rid save st) = g_segments st"
  using same_tables_replies(3) [of w co rid save st] by (simp_all add: same_tables_def)

lemma notification_reply_fields [simp]:
  "g_requests (client_proxy_alive_notification w p started st) = g_requests st"
  "g_connections (client_proxy_alive_notification w p started st) = g_connections st"
  "g_services (client_proxy_alive_notification w p started st) = g_services st"
  "g_proxynames (client_proxy_alive_notification w p started st) = g_proxynames st"
  "g_subscribes (client_proxy_alive_notification w p started st) = g_subscribes st"
  "g_channels (client_proxy_alive_notification w p started st) = g_channels st"
  "g_alives (client_proxy_alive_notification w p started st) = g_alives st"
  "g_terminating (client_proxy_alive_notification w p started st) = g_terminating st"
  "g_terminate (client_proxy_alive_notification w p started st) = g_terminate st"
  "g_queue (client_proxy_alive_notification w p started st) = g_queue st"
  "g_path (client_proxy_alive_notification w p started st) = g_path st"
  "g_wakeups (client_proxy_alive_notification w p started st) = g_wakeups st"
  "g_handed (client_proxy_alive_notification w p started st) = g_handed st"
  "g_segments (client_proxy_alive_notification w p started st) = g_segments st"
  using same_tables_notification [of w p started st] by (simp_all add: same_tables_def)

end
