(* ===== verification/Client_Service.thy ===== *)
theory Client_Service
  imports Client_Reply
begin

text \<open>
  \<open>gear/clientservice.c\<close>: a text message of a client (\<open>client_service_route\<close>, called from
  \<open>ws_data_handler\<close> of \<open>gear/wshandler.c\<close>) and the end of its connection
  (\<open>client_service_drop_conn\<close>, called from \<open>ws_close_handler\<close>).  The result \<open>None\<close> of a handler is
  undefined behaviour of the C code (freeing an array that was never filled).
\<close>

definition GONGGOSERVICE_REQUEST_DROP :: string where
  "GONGGOSERVICE_REQUEST_DROP = ''gonggorequestdrop''"

section \<open>The services of gonggo itself\<close>

definition gonggo_test :: "world \<Rightarrow> uuid \<Rightarrow> conn \<Rightarrow> gonggo \<Rightarrow> gonggo" where
  "gonggo_test w rid conn st =
     (let headers = JObject [(''serviceStatus'', JNumber (of_int GONGGO_TEST_SUCCESS))];
          sa = proxy_alive_thread_table_char_keys_create (w_names w) (g_alives st);
          payload = JObject
            [(''services'', JArray [JString ''test'', JString ''responseDump'']),
             (''proxies'', JArray (map JString sa))]
      in client_service_reply w (Some conn) rid headers (Some payload) True st)"

text \<open>The loop over \<open>r.respond\<close> up to the \<open>NULL\<close>; \<open>cJSON_AddItemToArray\<close> ignores a \<open>NULL\<close> item.
  Reading an uninitialised cell or beyond the array is undefined.\<close>

fun dump_items :: "cjson \<Rightarrow> cell list \<Rightarrow> json list option" where
  "dump_items J (CNull # _) = Some []"
| "dump_items J (CStr s # run) =
     (case dump_items J run of
        None \<Rightarrow> None
      | Some js \<Rightarrow> Some (case cJSON_Parse J s of None \<Rightarrow> js | Some j \<Rightarrow> j # js))"
| "dump_items J (Uninit # _) = None"
| "dump_items J [] = None"

definition gonggo_response_dump ::
    "world \<Rightarrow> uuid \<Rightarrow> conn \<Rightarrow> uuid \<Rightarrow> int \<Rightarrow> int \<Rightarrow> gonggo \<Rightarrow> gonggo option" where
  "gonggo_response_dump w rid conn dump_rid start sz st =
     (let (found, r) = db_respond_query (w_query w) dump_rid start sz (g_db st);
          built =
            (if found
             then (case (case qr_respond r of None \<Rightarrow> Some [] | Some cells \<Rightarrow> dump_items (w_json w) cells) of
                     None \<Rightarrow> None
                   | Some items \<Rightarrow>
                       Some (JObject [(''responses'', JArray items),
                                      (''stop'', JNumber (of_int (qr_stop r))),
                                      (''more'', JNumber (of_int (qr_more r)))],
                             GONGGO_RESPONSE_DUMP_SUCCESS))
             else Some (JObject [], GONGGO_RESPONSE_DUMP_DB_ERROR))
      in case built of
           None \<Rightarrow> None
         | Some (payload, status) \<Rightarrow>
             (case db_respond_query_result_destroy r of
                None \<Rightarrow> None
              | Some () \<Rightarrow>
                  Some (client_service_reply w (Some conn) rid
                          (JObject [(''serviceStatus'', JNumber (of_int status))])
                          (Some payload) False st)))"

section \<open>A message\<close>

text \<open>Saving an accepted request and waking up the channel thread of its proxy, the part of
  \<open>client_service_route\<close> between the acknowledgement and the clean-up.\<close>

definition route_save ::
    "world \<Rightarrow> conn \<Rightarrow> uuid \<Rightarrow> pname \<Rightarrow> string \<Rightarrow> json option \<Rightarrow> time_t \<Rightarrow> gonggo \<Rightarrow> gonggo" where
  "route_save w conn rid proxy_name service_name payload timeout st =
     (let st1 = st\<lparr>g_requests := client_request_table_set (w_now w) rid conn timeout (g_requests st)\<rparr>;
          st2 = st1\<lparr>g_connections := client_connection_table_set conn rid (g_connections st1)\<rparr>;
          st3 = st2\<lparr>g_services :=
                  client_service_table_set (w_json w) rid service_name payload (g_services st2)\<rparr>;
          st4 = st3\<lparr>g_proxynames := client_proxyname_table_set proxy_name rid (g_proxynames st3)\<rparr>
      in case proxy_channel_thread_table_get proxy_name (g_channels st4) of
           None \<Rightarrow> st4
         | Some _ \<Rightarrow> channel_wakeup proxy_name st4)"

definition client_service_route ::
    "world \<Rightarrow> string \<Rightarrow> string \<Rightarrow> conn \<Rightarrow> gonggo \<Rightarrow> gonggo option" where
  "client_service_route w uri data conn st =
     (let J = w_json w; reply = client_parsing_status_reply w conn in
      if g_path st \<noteq> Some uri then Some st
      else case cJSON_Parse J data of
        None \<Rightarrow> Some st
      | Some msg \<Rightarrow>
        (case cJSON_GetObjectItem J msg ''headers'' of
           None \<Rightarrow> Some (reply None REQUEST_PARSE_STATUS_HEADERS_MISSING st)
         | Some headers \<Rightarrow>
           (case get_string J (cJSON_GetObjectItem J headers ''rid'') of
              None \<Rightarrow> Some (reply None REQUEST_PARSE_STATUS_RID_MISSING st)
            | Some rid \<Rightarrow>
              if length rid < 1 then Some (reply None REQUEST_PARSE_STATUS_RID_MISSING st)
              else if length rid > UUIDBUFLEN - 1
              then Some (reply (Some rid) REQUEST_PARSE_STATUS_RID_OVERLENGTH st)
              else
                let proxy_name = get_string J (cJSON_GetObjectItem J headers ''proxy'') in
                (case get_string J (cJSON_GetObjectItem J headers ''service'') of
                   None \<Rightarrow> Some (reply (Some rid) REQUEST_PARSE_STATUS_SERVICE_MISSING st)
                 | Some service_name \<Rightarrow>
                   if length service_name < 1
                   then Some (reply (Some rid) REQUEST_PARSE_STATUS_SERVICE_MISSING st)
                   else if service_name = GONGGOSERVICE_REQUEST_DROP
                   then Some (reply (Some rid) REQUEST_PARSE_STATUS_SERVICE_RESERVED st)
                   else
                     let payload = cJSON_GetObjectItem J msg ''payload'' in
                     (case proxy_name of
                        None \<Rightarrow>
                          if service_name = ''test''
                          then Some (gonggo_test w rid conn
                                 (reply (Some rid) REQUEST_PARSE_STATUS_ACKNOWLEDGED st))
                          else if service_name = ''responseDump''
                          then (case payload of
                                  None \<Rightarrow> Some (reply (Some rid) REQUEST_PARSE_STATUS_PAYLOAD_MISSING st)
                                | Some p \<Rightarrow>
                                  let dump_rid = get_string J (cJSON_GetObjectItem J p ''rid'');
                                      start = (case cJSON_GetObjectItem J p ''start'' of
                                                 None \<Rightarrow> 0 | Some item \<Rightarrow> valueint J item);
                                      sz = (case cJSON_GetObjectItem J p ''size'' of
                                              None \<Rightarrow> 0 | Some item \<Rightarrow> valueint J item)
                                  in (case dump_rid of
                                        None \<Rightarrow> Some (reply (Some rid) REQUEST_PARSE_STATUS_PAYLOAD_INVALID st)
                                      | Some d \<Rightarrow>
                                        if length d < 1 \<or> start < 1 \<or> sz < 1
                                        then Some (reply (Some rid) REQUEST_PARSE_STATUS_PAYLOAD_INVALID st)
                                        else gonggo_response_dump w rid conn d start sz
                                               (reply (Some rid) REQUEST_PARSE_STATUS_ACKNOWLEDGED st)))
                          else Some (reply (Some rid) REQUEST_PARSE_STATUS_GONGGO_SERVICE_INVALID st)
                      | Some proxy \<Rightarrow>
                        (case cJSON_GetObjectItem J headers ''timeout'' of
                           None \<Rightarrow> Some (reply (Some rid) REQUEST_PARSE_STATUS_TIMEOUT_MISSING st)
                         | Some item \<Rightarrow>
                           let timeout = time_of_double (valuedouble J item) in
                           if timeout <s 1
                           then Some (reply (Some rid) REQUEST_PARSE_STATUS_TIMEOUT_INVALID st)
                           else Some (route_save w conn rid proxy service_name payload timeout
                                  (reply (Some rid) REQUEST_PARSE_STATUS_ACKNOWLEDGED st))))))))"

section \<open>The end of a connection\<close>

text \<open>The first loop of \<open>client_service_drop_conn\<close>: remember the proxy of each request in a private
  table and forget the request.\<close>

fun drop_conn_forget ::
    "world \<Rightarrow> uuid list \<Rightarrow> proxyname_table \<Rightarrow> gonggo \<Rightarrow> proxyname_table \<times> gonggo" where
  "drop_conn_forget w [] table st = (table, st)"
| "drop_conn_forget w (request_uuid # rest) table st =
     (let table' =
            (case client_proxyname_table_proxy_name_dup (w_names w) request_uuid (g_proxynames st) of
               None \<Rightarrow> table
             | Some proxy_name \<Rightarrow> client_proxyname_table_set proxy_name request_uuid table);
          st' = st\<lparr>g_requests := client_request_table_remove request_uuid (g_requests st),
                   g_services := client_service_table_remove request_uuid (g_services st),
                   g_proxynames := client_proxyname_table_drop_all (w_names w) request_uuid
                                     (g_proxynames st)\<rparr>
      in drop_conn_forget w rest table' st')"

text \<open>Queueing one drop request per forgotten request, under a generated id; \<open>n\<close> counts the ids.\<close>

fun drop_conn_queue :: "world \<Rightarrow> pname \<Rightarrow> uuid list \<Rightarrow> nat \<Rightarrow> gonggo \<Rightarrow> nat \<times> gonggo" where
  "drop_conn_queue w proxy_name [] n st = (n, st)"
| "drop_conn_queue w proxy_name (request_uuid # rest) n st =
     (let rid = w_uuid w n;
          payload = JObject [(''rid'', JString request_uuid)];
          st' = st\<lparr>g_services := client_service_table_set (w_json w) rid GONGGOSERVICE_REQUEST_DROP
                                   (Some payload) (g_services st),
                   g_proxynames := client_proxyname_table_set proxy_name rid (g_proxynames st)\<rparr>
      in drop_conn_queue w proxy_name rest (Suc n) st')"

text \<open>The second loop: only the proxies that have a channel thread are told.\<close>

fun drop_conn_notify ::
    "world \<Rightarrow> proxyname_table \<Rightarrow> pname list \<Rightarrow> nat \<Rightarrow> gonggo \<Rightarrow> gonggo" where
  "drop_conn_notify w table [] n st = st"
| "drop_conn_notify w table (proxy_name # iter) n st =
     (case (proxy_channel_thread_table_get proxy_name (g_channels st), ht_lookup table proxy_name) of
        (Some _, Some value) \<Rightarrow>
          (let (n', st') = drop_conn_queue w proxy_name (request_uuids value) n st
           in drop_conn_notify w table iter n' (channel_wakeup proxy_name st'))
      | _ \<Rightarrow> drop_conn_notify w table iter n st)"

definition client_service_drop_conn :: "world \<Rightarrow> conn \<Rightarrow> gonggo \<Rightarrow> gonggo" where
  "client_service_drop_conn w conn st =
     (case client_connection_table_request_dup conn (g_connections st) of
        None \<Rightarrow> st
      | Some request_uuid_arr \<Rightarrow>
          (let (table, st1) = drop_conn_forget w request_uuid_arr [] st;
               st2 = drop_conn_notify w table (w_names w (ht_keys table)) 0 st1
           in st2\<lparr>g_connections := client_connection_table_remove conn (g_connections st2)\<rparr>))"

section \<open>The websocket handlers\<close>

definition MG_WEBSOCKET_OPCODE_TEXT :: nat where "MG_WEBSOCKET_OPCODE_TEXT = 1"

text \<open>\<open>opcode & 0xf\<close> selects the frame type.\<close>

definition ws_data_handler ::
    "world \<Rightarrow> string \<Rightarrow> nat \<Rightarrow> string \<Rightarrow> conn \<Rightarrow> gonggo \<Rightarrow> gonggo option" where
  "ws_data_handler w uri opcode data conn st =
     (if opcode mod 16 = MG_WEBSOCKET_OPCODE_TEXT then client_service_route w uri data conn st
      else Some st)"

definition ws_close_handler :: "world \<Rightarrow> conn \<Rightarrow> gonggo \<Rightarrow> gonggo" where
  "ws_close_handler w conn st = client_service_drop_conn w conn st"

end
