(* ===== verification/Client_Timeout.thy ===== *)
theory Client_Timeout
  imports Client_Service
begin

text \<open>
  \<open>gear/clienttimeout.c\<close>: the thread that, every \<open>clienttimeoutperiod\<close> seconds, answers and forgets
  the requests whose timeout has passed.
\<close>

text \<open>One request of the sweep.  \<open>conn\<close> is read again from the table, so it may be \<open>NULL\<close>; dropping
  from the connection table then looks up the key \<open>NULL\<close>, which is no connection.\<close>

definition expire_request :: "world \<Rightarrow> uuid \<Rightarrow> gonggo \<Rightarrow> gonggo" where
  "expire_request w request_uuid st =
     (let conn = fst (client_request_table_get_conn (w_now w) request_uuid False False (g_requests st));
          st1 = client_service_expired_reply w conn request_uuid True st
      in st1\<lparr>g_requests := client_request_table_remove request_uuid (g_requests st1),
             g_connections := connection_drop_ptr conn request_uuid (g_connections st1),
             g_services := client_service_table_remove request_uuid (g_services st1),
             g_proxynames := client_proxyname_table_drop_all (w_names w) request_uuid
                               (g_proxynames st1)\<rparr>)"

definition client_timeout_sweep :: "world \<Rightarrow> gonggo \<Rightarrow> gonggo" where
  "client_timeout_sweep w st =
     fold (expire_request w) (client_request_table_expired (w_names w) (w_now w) (g_requests st)) st"

text \<open>The thread: a sweep, then a timed wait, until \<open>client_timeout_end\<close> is seen.  The list holds,
  for each pass, the world of its sweep and the flag as the wait that follows leaves it; where the
  list ends the thread is waiting.\<close>

fun client_timeout :: "bool \<Rightarrow> (world \<times> bool) list \<Rightarrow> gonggo \<Rightarrow> bool \<times> gonggo" where
  "client_timeout True ws st = (True, st)"
| "client_timeout False [] st = (False, st)"
| "client_timeout False ((w, end_flag) # ws) st =
     client_timeout end_flag ws (client_timeout_sweep w st)"

end
