(* ===== verification/Proxy_Subscribe.thy ===== *)
theory Proxy_Subscribe
  imports Client_Service
begin

text \<open>
  \<open>gear/proxysubscribe.c\<close>: the thread that takes the answers of a proxy and passes them to the
  clients.  The proxy leaves an answer in a shared segment named after \<open>aid\<close>; \<open>segs\<close> gives the
  text of a segment, \<open>None\<close> where \<open>shm_open\<close> fails.  An answer whose \<open>rid\<close> array holds something
  other than a string makes the code hash a null pointer: the result \<open>None\<close>.
\<close>

definition cJSON_GetStringValue :: "cjson \<Rightarrow> json \<Rightarrow> string option" where
  "cJSON_GetStringValue J item = (if cJSON_IsString item then valuestring J item else None)"

text \<open>\<open>(int)cJSON_GetNumberValue(item)\<close>; not a number gives NaN, which converts like an
  out-of-range value.\<close>

fun number_value_int :: "json \<Rightarrow> int" where
  "number_value_int (JNumber r) = int_of_double r"
| "number_value_int _ = - (2 ^ 31)"

definition proxy_subscribe_purge_rid :: "world \<Rightarrow> uuid \<Rightarrow> gonggo \<Rightarrow> gonggo" where
  "proxy_subscribe_purge_rid w rid st =
     (let (conn, reqs) = client_request_table_get_conn (w_now w) rid False True (g_requests st)
      in st\<lparr>g_requests := reqs,
            g_connections := connection_drop_ptr conn rid (g_connections st),
            g_proxynames := client_proxyname_table_drop_all (w_names w) rid (g_proxynames st),
            g_services := client_service_table_remove rid (g_services st)\<rparr>)"

definition proxy_subscribe_reply ::
    "world \<Rightarrow> pname \<Rightarrow> uuid \<Rightarrow> json \<Rightarrow> json option \<Rightarrow> bool \<Rightarrow> gonggo \<Rightarrow> gonggo" where
  "proxy_subscribe_reply w proxy_name rid headers payload remove_request st =
     (let (conn, reqs) = client_request_table_get_conn (w_now w) rid True remove_request (g_requests st);
          st1 = st\<lparr>g_requests := reqs\<rparr>;
          st2 = (if remove_request
                 then st1\<lparr>g_connections := connection_drop_ptr conn rid (g_connections st1),
                          g_proxynames := snd (client_proxyname_table_drop proxy_name rid (g_proxynames st1)),
                          g_services := client_service_table_remove rid (g_services st1)\<rparr>
                 else st1)
      in client_service_reply w conn rid headers payload True st2)"

text \<open>The loop over an array of ids.\<close>

fun reply_array ::
    "world \<Rightarrow> pname \<Rightarrow> json list \<Rightarrow> json \<Rightarrow> json option \<Rightarrow> bool \<Rightarrow> gonggo \<Rightarrow> gonggo option" where
  "reply_array w proxy_name [] headers payload remove_request st = Some st"
| "reply_array w proxy_name (item # items) headers payload remove_request st =
     (case cJSON_GetStringValue (w_json w) item of
        None \<Rightarrow> None
      | Some rid \<Rightarrow>
          reply_array w proxy_name items headers payload remove_request
            (proxy_subscribe_reply w proxy_name rid headers payload remove_request st))"

definition proxy_subscribe_exchange ::
    "world \<Rightarrow> (string \<Rightarrow> string option) \<Rightarrow> pname \<Rightarrow> ProxySubscribeShm \<Rightarrow> gonggo \<Rightarrow>
     (ProxySubscribeState \<times> gonggo) option" where
  "proxy_subscribe_exchange w segs proxy_name shm st =
     (let J = w_json w in
      if ss_payload_buff_length shm < 1 then Some (SUBSCRIBE_FAILED, st)
      else case segs (payload_path (ss_aid shm)) of
        None \<Rightarrow> Some (SUBSCRIBE_FAILED, st)
      | Some payload_str \<Rightarrow>
        (let answer = cJSON_Parse J payload_str in
         case get_item J answer ''rid'' of
           None \<Rightarrow> Some (SUBSCRIBE_FAILED, st)
         | Some rid_item \<Rightarrow>
           if \<not> cJSON_IsArray rid_item \<and> \<not> cJSON_IsString rid_item
           then Some (SUBSCRIBE_FAILED, st)
           else case get_item J answer ''headers'' of
             None \<Rightarrow> Some (SUBSCRIBE_FAILED, st)
           | Some headers \<Rightarrow>
             let payload = get_item J answer ''payload'';
                 service_status_item =
                   (case payload of None \<Rightarrow> None
                    | Some _ \<Rightarrow> cJSON_GetObjectItem J headers ''serviceStatus'');
                 cleared = (case service_status_item of None \<Rightarrow> False
                            | Some item \<Rightarrow>
                                number_value_int item = PROXYSERVICESTATUS_MULTIRESPOND_CLEAR_SUCCESS);
                 st1 =
                   (if cleared
                    then (case (case get_item J payload ''rid'' of
                                  None \<Rightarrow> None | Some item \<Rightarrow> cJSON_GetStringValue J item) of
                            None \<Rightarrow> st
                          | Some unsubscribe_rid \<Rightarrow> proxy_subscribe_purge_rid w unsubscribe_rid st)
                    else st);
                 payload' = (if cleared then None else payload);
                 answered =
                   (if cJSON_IsArray rid_item
                    then reply_array w proxy_name (array_items rid_item) headers payload'
                           (ss_remove_request shm) st1
                    else reply_array w proxy_name [rid_item] headers payload'
                           (ss_remove_request shm) st1)
             in map_option (\<lambda>st2. (SUBSCRIBE_DONE, st2)) answered))"

section \<open>The thread\<close>

text \<open>What one wait on \<open>dispatcher_wakeup\<close> brings: whether the proxy died holding the mutex, the
  segment and \<open>ctx->stop\<close> as they are afterwards, and the world of the exchange that may follow.\<close>

record subscribe_event =
  se_owner_dead :: bool
  se_stop :: bool
  se_shm :: ProxySubscribeShm
  se_world :: world
  se_segs :: "string \<Rightarrow> string option"

datatype 's thread_outcome =
    Waiting 's       \<comment> \<open>blocked in a wait, the mutex released\<close>
  | Stopped 's       \<comment> \<open>left the loop and unlocked\<close>
  | Undefined        \<comment> \<open>undefined behaviour\<close>

fun proxy_subscribe_loop ::
    "ProxySubscribeContext \<Rightarrow> subscribe_event list \<Rightarrow> gonggo \<Rightarrow>
     (ProxySubscribeContext \<times> gonggo) thread_outcome" where
  "proxy_subscribe_loop ctx events st =
     (if sc_stop ctx \<or> ss_state (sc_shm ctx) = SUBSCRIBE_TERMINATION then Stopped (ctx, st)
      else case events of
        [] \<Rightarrow> Waiting (ctx, st)
      | e # es \<Rightarrow>
          let ctx1 = ctx\<lparr>sc_stop := se_stop e, sc_shm := se_shm e\<rparr> in
          if se_owner_dead e then Stopped (ctx1, st)
          else if \<not> sc_stop ctx1 \<and> ss_state (sc_shm ctx1) = SUBSCRIBE_ANSWER
          then (case proxy_subscribe_exchange (se_world e) (se_segs e) (sc_proxy_name ctx1)
                       (sc_shm ctx1) st of
                  None \<Rightarrow> Undefined
                | Some (state, st') \<Rightarrow>
                    proxy_subscribe_loop
                      (ctx1\<lparr>sc_shm := (sc_shm ctx1)\<lparr>ss_state := state\<rparr>\<rparr>) es st')
          else proxy_subscribe_loop ctx1 es st)"

declare proxy_subscribe_loop.simps [simp del]

definition proxy_subscribe ::
    "bool \<Rightarrow> ProxySubscribeContext \<Rightarrow> subscribe_event list \<Rightarrow> gonggo \<Rightarrow>
     (ProxySubscribeContext \<times> gonggo) thread_outcome" where
  "proxy_subscribe proxy_died ctx events st =
     (if proxy_died then Stopped (ctx, st) else proxy_subscribe_loop ctx events st)"

definition proxy_subscribe_stop :: "ProxySubscribeContext \<Rightarrow> ProxySubscribeContext" where
  "proxy_subscribe_stop ctx =
     ctx\<lparr>sc_stop := True, sc_shm := (sc_shm ctx)\<lparr>ss_state := SUBSCRIBE_TERMINATION\<rparr>\<rparr>"

section \<open>Reasoning about an exchange\<close>

text \<open>An exchange is a purge, possibly, and then replies: what both keep, the exchange keeps.\<close>

lemma reply_array_invariant:
  assumes "reply_array w p items h pl rm st = Some st'" "P st"
    and "\<And>r s. P s \<Longrightarrow> P (proxy_subscribe_reply w p r h pl rm s)"
  shows "P st'"
  using assms(1,2) by (induction items arbitrary: st) (auto split: option.splits intro: assms(3))

lemma exchange_invariant:
  assumes "proxy_subscribe_exchange w segs p shm st = Some (state, st')" "P st"
    and "\<And>r s. P s \<Longrightarrow> P (proxy_subscribe_purge_rid w r s)"
    and "\<And>r h pl rm s. P s \<Longrightarrow> P (proxy_subscribe_reply w p r h pl rm s)"
  shows "P st'"
  using assms
  by (auto simp: proxy_subscribe_exchange_def Let_def simp del: reply_array.simps
      split: if_splits option.splits elim!: reply_array_invariant)

lemma exchange_state:
  "proxy_subscribe_exchange w segs p shm st = Some (state, st') \<Longrightarrow>
     state = SUBSCRIBE_DONE \<or> state = SUBSCRIBE_FAILED \<and> st' = st"
  by (auto simp: proxy_subscribe_exchange_def Let_def split: if_splits option.splits)

end
