(* ===== verification/Table_Invariant.thy ===== *)
theory Table_Invariant
  imports Client_Timeout Proxy_Subscribe
begin

text \<open>
  The link between the four client tables, and its preservation by the handlers of clients and of
  answers: a pending request is in the array of its connection, has the text for its proxy, and is
  queued at some proxy.  The converse does not hold: an id that a second client reuses, or that was
  sent to two proxies, leaves entries behind.
\<close>

definition linked ::
    "request_table \<Rightarrow> connection_table \<Rightarrow> service_table \<Rightarrow> proxyname_table \<Rightarrow> bool" where
  "linked reqs conns svcs pns \<longleftrightarrow>
     ht_ok reqs \<and> connection_ok conns \<and> ht_ok svcs \<and> proxyname_ok pns \<and>
     (\<forall>r ctx. ht_lookup reqs r = Some ctx \<longrightarrow>
        r \<in> set (conn_rids conns (rq_conn ctx)) \<and> ht_lookup svcs r \<noteq> None \<and> (\<exists>p. r \<in> pn_rids pns p))"

definition tables_linked :: "gonggo \<Rightarrow> bool" where
  "tables_linked st \<longleftrightarrow>
     linked (g_requests st) (g_connections st) (g_services st) (g_proxynames st)"

lemma linkedD:
  assumes "linked reqs conns svcs pns"
  shows "ht_ok reqs" "connection_ok conns" "ht_ok svcs" "proxyname_ok pns"
  using assms by (auto simp: linked_def)

text \<open>Adding a request, growing the service and proxy tables, and forgetting one id.\<close>

lemma linked_add:
  assumes "linked reqs conns svcs pns"
  shows "linked (client_request_table_set now r c tmo reqs) (client_connection_table_set c r conns)
    (client_service_table_set J r svc p svcs) (client_proxyname_table_set px r pns)"
  using assms by (fastforce simp: linked_def)

lemma linked_grow:
  assumes "linked reqs conns svcs pns"
  shows "linked reqs conns (client_service_table_set J r svc p svcs)
    (client_proxyname_table_set px r pns)"
  using assms by (fastforce simp: linked_def)

lemma linked_proxynames:
  assumes "linked reqs conns svcs pns" "proxyname_ok pns'" "\<And>p. pn_rids pns p \<subseteq> pn_rids pns' p"
  shows "linked reqs conns svcs pns'"
  using assms unfolding linked_def by blast

lemma linked_forget:
  assumes "linked reqs conns svcs pns" "connection_ok conns'" "proxyname_ok pns'"
    and "\<And>c r'. r' \<noteq> r \<Longrightarrow> r' \<in> set (conn_rids conns c) \<Longrightarrow> r' \<in> set (conn_rids conns' c)"
    and "\<And>p r'. r' \<noteq> r \<Longrightarrow> r' \<in> pn_rids pns p \<Longrightarrow> r' \<in> pn_rids pns' p"
  shows "linked (client_request_table_remove r reqs) conns' (client_service_table_remove r svcs) pns'"
  using assms unfolding linked_def by (fastforce split: if_splits)

lemma linked_touch:
  assumes "linked reqs conns svcs pns"
  shows "linked (snd (client_request_table_get_conn now r True False reqs)) conns svcs pns"
  using assms by (auto simp: linked_def split: if_splits)

lemma conn_rids_drop_ptr_other:
  "r' \<noteq> r \<Longrightarrow> r' \<in> set (conn_rids conns c) \<Longrightarrow>
     r' \<in> set (conn_rids (connection_drop_ptr co r conns) c)"
  by (auto simp: array_drop_eq)

lemma same_tables_linked: "same_tables s t \<Longrightarrow> tables_linked s = tables_linked t"
  by (simp add: same_tables_def tables_linked_def)

section \<open>The sweep\<close>

lemma expire_request_fields:
  "g_requests (expire_request w r st) = client_request_table_remove r (g_requests st)"
  "g_services (expire_request w r st) = client_service_table_remove r (g_services st)"
  "g_proxynames (expire_request w r st) =
     client_proxyname_table_drop_all (w_names w) r (g_proxynames st)"
  "g_connections (expire_request w r st) =
     connection_drop_ptr (map_option rq_conn (ht_lookup (g_requests st) r)) r (g_connections st)"
  by (simp_all add: expire_request_def Let_def)

lemma linked_expire:
  assumes "tables_linked st"
  shows "tables_linked (expire_request w r st)"
  using assms linkedD [OF assms [unfolded tables_linked_def]]
  unfolding tables_linked_def expire_request_fields
  by (auto intro!: linked_forget conn_rids_drop_ptr_other)

lemma linked_sweep:
  assumes "tables_linked st"
  shows "tables_linked (client_timeout_sweep w st)"
proof -
  have "tables_linked (fold (expire_request w) rs st)" for rs
    using assms by (induction rs arbitrary: st) (auto intro: linked_expire)
  then show ?thesis by (simp add: client_timeout_sweep_def)
qed

section \<open>Answers\<close>

lemma linked_purge_rid:
  assumes "tables_linked st"
  shows "tables_linked (proxy_subscribe_purge_rid w r st)"
  using assms linkedD [OF assms [unfolded tables_linked_def]]
  unfolding tables_linked_def proxy_subscribe_purge_rid_def
  by (auto simp: split_beta Let_def intro!: linked_forget conn_rids_drop_ptr_other)

lemma linked_subscribe_reply:
  assumes "tables_linked st"
  shows "tables_linked (proxy_subscribe_reply w p r h pl rm st)"
proof (cases rm)
  case True
  note ok = linkedD [OF assms [unfolded tables_linked_def]]
  have "linked (client_request_table_remove r (g_requests st))
     (connection_drop_ptr (map_option rq_conn (ht_lookup (g_requests st) r)) r (g_connections st))
     (client_service_table_remove r (g_services st))
     (snd (client_proxyname_table_drop p r (g_proxynames st)))"
    by (rule linked_forget [OF assms [unfolded tables_linked_def]])
      (use ok in \<open>auto intro!: conn_rids_drop_ptr_other\<close>)
  then show ?thesis
    using True by (simp add: proxy_subscribe_reply_def split_beta Let_def tables_linked_def
        same_tables_linked [OF same_tables_replies(2)])
next
  case False
  with assms show ?thesis
    by (simp add: proxy_subscribe_reply_def split_beta Let_def tables_linked_def linked_touch
        same_tables_linked [OF same_tables_replies(2)])
qed

lemma linked_exchange:
  "proxy_subscribe_exchange w segs p shm st = Some (state, st') \<Longrightarrow> tables_linked st \<Longrightarrow>
     tables_linked st'"
  by (rule exchange_invariant [where P = tables_linked])
    (auto intro: linked_purge_rid linked_subscribe_reply)

section \<open>Messages\<close>

lemma linked_route_save:
  assumes "tables_linked st"
  shows "tables_linked (route_save w c r p svc pl tmo st)"
  using linked_add [OF assms [unfolded tables_linked_def]]
  by (auto simp: route_save_def Let_def tables_linked_def split: option.splits)

lemma same_tables_test: "same_tables (gonggo_test w r c st) st"
  by (simp add: gonggo_test_def Let_def)

lemma same_tables_dump:
  "gonggo_response_dump w r c d start sz st = Some st' \<Longrightarrow> same_tables st' st"
  by (auto simp: gonggo_response_dump_def Let_def split: prod.splits if_splits option.splits unit.splits)

lemma linked_test: "tables_linked (gonggo_test w r c st) = tables_linked st"
  by (rule same_tables_linked [OF same_tables_test])

lemma linked_reply_status:
  "tables_linked (client_parsing_status_reply w c r status st) = tables_linked st"
  by (rule same_tables_linked) simp

lemma linked_route:
  "client_service_route w uri data c st = Some st' \<Longrightarrow> tables_linked st \<Longrightarrow> tables_linked st'"
  by (auto simp: client_service_route_def Let_def linked_reply_status linked_test
      split: if_splits option.splits intro!: linked_route_save
      dest: same_tables_dump [THEN same_tables_linked])

section \<open>The end of a connection\<close>

text \<open>What the first loop of \<open>client_service_drop_conn\<close> does to the tables.\<close>

lemma forget_lookup:
  assumes "drop_conn_forget w arr tab st = (tab', st')"
  shows "ht_lookup (g_requests st') r = (if r \<in> set arr then None else ht_lookup (g_requests st) r)"
    and "ht_lookup (g_services st') r = (if r \<in> set arr then None else ht_lookup (g_services st) r)"
  using assms by (induction arr arbitrary: tab st) (auto simp: Let_def)

lemma forget_frame:
  assumes "drop_conn_forget w arr tab st = (tab', st')"
  shows "g_connections st' = g_connections st" "g_channels st' = g_channels st"
    "g_subscribes st' = g_subscribes st" "g_alives st' = g_alives st" "g_db st' = g_db st"
    "g_terminating st' = g_terminating st" "g_terminate st' = g_terminate st"
    "g_queue st' = g_queue st" "g_sent st' = g_sent st" "g_path st' = g_path st"
    "g_handed st' = g_handed st" "g_wakeups st' = g_wakeups st" "g_segments st' = g_segments st"
  using assms by (induction arr arbitrary: tab st) (auto simp: Let_def)

lemma linked_forget_loop:
  "drop_conn_forget w arr tab st = (tab', st') \<Longrightarrow> tables_linked st \<Longrightarrow> tables_linked st'"
proof (induction arr arbitrary: tab st)
  case (Cons r rs)
  let ?st = "st\<lparr>g_requests := client_request_table_remove r (g_requests st),
      g_services := client_service_table_remove r (g_services st),
      g_proxynames := client_proxyname_table_drop_all (w_names w) r (g_proxynames st)\<rparr>"
  have "tables_linked ?st"
    using Cons.prems(2) linkedD [OF Cons.prems(2) [unfolded tables_linked_def]]
    by (auto simp: tables_linked_def intro: linked_forget)
  with Cons show ?case by (auto simp: Let_def)
qed simp

lemma forget_table_ok:
  "drop_conn_forget w arr tab st = (tab', st') \<Longrightarrow> proxyname_ok tab \<Longrightarrow> proxyname_ok tab'"
  by (induction arr arbitrary: tab st) (auto simp: Let_def split: option.splits)

text \<open>The private table holds only forgotten ids, each under a proxy that had it.\<close>

lemma forget_table_rids:
  assumes "drop_conn_forget w arr tab st = (tab', st')" "proxyname_ok tab"
    "proxyname_ok (g_proxynames st)" "r \<in> pn_rids tab' p"
  shows "r \<in> pn_rids tab p \<or> r \<in> set arr \<and> r \<in> pn_rids (g_proxynames st) p"
  using assms
proof (induction arr arbitrary: tab st)
  case (Cons a arr)
  note sub = pn_rids_drop_all_subset [OF Cons.prems(3), of "w_names w" a p]
  show ?case
  proof (cases "client_proxyname_table_proxy_name_dup (w_names w) a (g_proxynames st)")
    case None
    with Cons sub show ?thesis by (fastforce simp: Let_def)
  next
    case (Some q)
    with proxy_name_dup_Some [OF Cons.prems(3)] have "a \<in> pn_rids (g_proxynames st) q" by simp
    with Cons sub Some show ?thesis by (fastforce simp: Let_def split: if_splits)
  qed
qed simp

text \<open>Queueing drop requests only adds to the service and proxy tables.\<close>

lemma queue_frame:
  assumes "drop_conn_queue w p rs n st = (n', st')"
  shows "g_requests st' = g_requests st" "g_connections st' = g_connections st"
    "g_channels st' = g_channels st" "g_subscribes st' = g_subscribes st"
    "g_alives st' = g_alives st" "g_db st' = g_db st" "g_terminating st' = g_terminating st"
    "g_terminate st' = g_terminate st" "g_queue st' = g_queue st" "g_sent st' = g_sent st"
    "g_path st' = g_path st" "g_handed st' = g_handed st" "g_wakeups st' = g_wakeups st"
    "g_segments st' = g_segments st" "n' = n + length rs"
  using assms by (induction rs arbitrary: n st) (fastforce simp: Let_def)+

lemma linked_queue:
  "drop_conn_queue w p rs n st = (n', st') \<Longrightarrow> tables_linked st \<Longrightarrow> tables_linked st'"
proof (induction rs arbitrary: n st)
  case (Cons r rs)
  let ?st = "st\<lparr>g_services := client_service_table_set (w_json w) (w_uuid w n)
        GONGGOSERVICE_REQUEST_DROP (Some (JObject [(''rid'', JString r)])) (g_services st),
      g_proxynames := client_proxyname_table_set p (w_uuid w n) (g_proxynames st)\<rparr>"
  have "tables_linked ?st" using Cons.prems(2) by (simp add: tables_linked_def linked_grow)
  with Cons show ?case by (simp add: Let_def)
qed simp

lemma notify_frame:
  "g_requests (drop_conn_notify w tab ks n st) = g_requests st"
  "g_connections (drop_conn_notify w tab ks n st) = g_connections st"
  "g_channels (drop_conn_notify w tab ks n st) = g_channels st"
  "g_subscribes (drop_conn_notify w tab ks n st) = g_subscribes st"
  "g_alives (drop_conn_notify w tab ks n st) = g_alives st"
  "g_db (drop_conn_notify w tab ks n st) = g_db st"
  "g_terminating (drop_conn_notify w tab ks n st) = g_terminating st"
  "g_terminate (drop_conn_notify w tab ks n st) = g_terminate st"
  "g_queue (drop_conn_notify w tab ks n st) = g_queue st"
  "g_sent (drop_conn_notify w tab ks n st) = g_sent st"
  "g_path (drop_conn_notify w tab ks n st) = g_path st"
  "g_handed (drop_conn_notify w tab ks n st) = g_handed st"
  "g_segments (drop_conn_notify w tab ks n st) = g_segments st"
  by (induction ks arbitrary: n st)
    (auto split: option.splits prod.splits simp: queue_frame)

lemma linked_notify: "tables_linked st \<Longrightarrow> tables_linked (drop_conn_notify w tab ks n st)"
proof (induction ks arbitrary: n st)
  case (Cons p ks)
  have "tables_linked (channel_wakeup p s) = tables_linked s" for s
    by (simp add: tables_linked_def)
  with Cons show ?case by (auto split: option.splits prod.splits dest: linked_queue)
qed simp

lemma drop_conn_requests:
  assumes "client_connection_table_request_dup c (g_connections st) = Some arr"
  shows "ht_lookup (g_requests (client_service_drop_conn w c st)) r =
      (if r \<in> set arr then None else ht_lookup (g_requests st) r)"
  using assms
  by (auto simp: client_service_drop_conn_def notify_frame forget_lookup split: prod.splits)

lemma drop_conn_connections:
  "g_connections (client_service_drop_conn w c st) =
     client_connection_table_remove c (g_connections st)"
  by (auto simp: client_service_drop_conn_def notify_frame forget_frame request_dup_eq
      client_connection_table_remove_def split: prod.splits option.splits)

lemma linked_no_conn:
  assumes "linked reqs conns svcs pns" "\<And>r ctx. ht_lookup reqs r = Some ctx \<Longrightarrow> rq_conn ctx \<noteq> c"
  shows "linked reqs (client_connection_table_remove c conns) svcs pns"
  using assms by (auto simp: linked_def)

lemma drop_conn_no_request:
  assumes "tables_linked st" "ht_lookup (g_requests (client_service_drop_conn w c st)) r = Some ctx"
  shows "rq_conn ctx \<noteq> c"
proof (cases "client_connection_table_request_dup c (g_connections st)")
  case None
  then have "conn_rids (g_connections st) c = []" by (simp add: request_dup_eq conn_rids_def)
  moreover have "ht_lookup (g_requests st) r = Some ctx"
    using None assms(2) by (simp add: client_service_drop_conn_def)
  ultimately show ?thesis using assms(1) by (fastforce simp: tables_linked_def linked_def)
next
  case (Some arr)
  then have "conn_rids (g_connections st) c = arr" by (simp add: request_dup_eq conn_rids_def)
  moreover have "ht_lookup (g_requests st) r = Some ctx" "r \<notin> set arr"
    using assms(2) drop_conn_requests [OF Some, of w r] by (auto split: if_splits)
  ultimately show ?thesis using assms(1) by (fastforce simp: tables_linked_def linked_def)
qed

lemma linked_drop_conn:
  assumes "tables_linked st"
  shows "tables_linked (client_service_drop_conn w c st)"
proof (cases "client_connection_table_request_dup c (g_connections st)")
  case None
  with assms show ?thesis by (simp add: client_service_drop_conn_def)
next
  case (Some arr)
  obtain tab st1 where f: "drop_conn_forget w arr [] st = (tab, st1)" by fastforce
  let ?st2 = "drop_conn_notify w tab (w_names w (ht_keys tab)) 0 st1"
  have e: "client_service_drop_conn w c st =
      ?st2\<lparr>g_connections := client_connection_table_remove c (g_connections ?st2)\<rparr>"
    using Some f by (simp add: client_service_drop_conn_def Let_def)
  have "tables_linked ?st2" by (rule linked_notify [OF linked_forget_loop [OF f assms]])
  then show ?thesis
    using drop_conn_no_request [OF assms, of w c] unfolding e
    by (auto simp: tables_linked_def intro!: linked_no_conn)
qed

end
