(* ===== verification/Proxy_Channel.thy ===== *)
theory Proxy_Channel
  imports Client_Service
begin

text \<open>
  \<open>gear/proxychannel.c\<close>: the thread that hands the requests of a proxy over to it, and the exchange
  of a REST call.

  A place where the thread blocks on the mutex or on a condition variable of the shared segment
  takes the next \<open>chan_event\<close> of its list: whether the call returned \<open>EOWNERDEAD\<close>, the segment as
  the proxy left it, and what the other threads of gonggo did to the shared state meanwhile.
  Where the list ends the thread is still blocked, the outcome \<open>Blocked\<close>.  Between two such places
  the thread holds the mutex of the segment (\<open>cs_held\<close>) and runs without interruption by the proxy.
\<close>

record chan_event =
  ce_owner_dead :: bool
  ce_shm :: ProxyChannelShm
  ce_env :: "gonggo \<Rightarrow> gonggo"

text \<open>The segment as the thread sees it when a lock or a wait has returned: the proxy's values, the
  mutex held.\<close>

definition wake_shm :: "chan_event \<Rightarrow> ProxyChannelContext \<Rightarrow> ProxyChannelContext" where
  "wake_shm e ctx = ctx\<lparr>cc_shm := (ce_shm e)\<lparr>cs_held := True\<rparr>\<rparr>"

definition shm_unlock :: "ProxyChannelContext \<Rightarrow> ProxyChannelContext" where
  "shm_unlock ctx = ctx\<lparr>cc_shm := (cc_shm ctx)\<lparr>cs_held := False\<rparr>\<rparr>"

definition set_state :: "ProxyChannelState \<Rightarrow> ProxyChannelContext \<Rightarrow> ProxyChannelContext" where
  "set_state s ctx = ctx\<lparr>cc_shm := (cc_shm ctx)\<lparr>cs_state := s\<rparr>\<rparr>"

abbreviation chan_state :: "ProxyChannelContext \<Rightarrow> ProxyChannelState" where
  "chan_state ctx \<equiv> cs_state (cc_shm ctx)"

abbreviation chan_held :: "ProxyChannelContext \<Rightarrow> bool" where
  "chan_held ctx \<equiv> cs_held (cc_shm ctx)"

datatype 'a blocking = Blocked | Done 'a

section \<open>The channel segment of a proxy\<close>

definition proxy_channel_shm_get ::
    "world \<Rightarrow> pname \<Rightarrow> ProxyChannelShm \<Rightarrow> gonggo \<Rightarrow> ProxyChannelShm option" where
  "proxy_channel_shm_get w proxy_name mapped st =
     (let p = proxy_channel_path proxy_name in
      if ht_lookup (g_segments st) p = None \<or> \<not> w_shm_open w p then None
      else if \<not> w_mmap w p then None
      else Some mapped)"

section \<open>Waiting for the idle state\<close>

definition proxy_channel_idle_wait ::
    "ProxyChannelContext \<Rightarrow> chan_event list \<Rightarrow> gonggo \<Rightarrow>
     (bool \<times> ProxyChannelContext \<times> chan_event list \<times> gonggo) blocking" where
  "proxy_channel_idle_wait ctx events st =
     (case events of
        [] \<Rightarrow> Blocked
      | e # es \<Rightarrow>
          (let ctx1 = wake_shm e ctx; st1 = ce_env e st in
           if ce_owner_dead e then Done (False, ctx1, es, st1)
           else if chan_state ctx1 = CHANNEL_TERMINATION then Done (False, ctx1, es, st1)
           else if chan_state ctx1 \<noteq> CHANNEL_IDLE
           then (case es of
                   [] \<Rightarrow> Blocked
                 | e' # es' \<Rightarrow>
                     (let ctx2 = wake_shm e' ctx1; st2 = ce_env e' st1 in
                      if ce_owner_dead e' then Done (False, ctx2, es', st2)
                      else if chan_state ctx2 = CHANNEL_TERMINATION then Done (False, ctx2, es', st2)
                      else Done (True, ctx2, es', st2)))
           else Done (True, ctx1, es, st1)))"

section \<open>The segment of a request\<close>

text \<open>\<open>shm_open(O_CREAT | O_RDWR)\<close> takes an existing segment of that name as it is; \<open>ftruncate\<close> and
  \<open>strcpy\<close> then give it the length and the contents of the request.\<close>

definition proxy_channel_create_request ::
    "world \<Rightarrow> string \<Rightarrow> string \<Rightarrow> gonggo \<Rightarrow> nat \<times> gonggo" where
  "proxy_channel_create_request w path service_name_payload st =
     (if \<not> w_shm_open w path then (0, st)
      else let buff_len = length service_name_payload + 1 in
        if \<not> w_mmap w path
        then (0, st\<lparr>g_segments := ht_remove path (g_segments st)\<rparr>)
        else (buff_len,
              st\<lparr>g_segments := ht_insert path (PayloadSegment service_name_payload) (g_segments st)\<rparr>))"

definition shm_unlink :: "string \<Rightarrow> gonggo \<Rightarrow> gonggo" where
  "shm_unlink path st = st\<lparr>g_segments := ht_remove path (g_segments st)\<rparr>"

section \<open>Handing over the pending requests\<close>

text \<open>Posting one request: the segment is filled in, the proxy is signalled.\<close>

definition post_request ::
    "uuid \<Rightarrow> string \<Rightarrow> nat \<Rightarrow> ProxyChannelContext \<Rightarrow> gonggo \<Rightarrow> ProxyChannelContext \<times> gonggo" where
  "post_request request_uuid text len ctx st =
     (ctx\<lparr>cc_shm := (cc_shm ctx)\<lparr>cs_payload_buff_length := len, cs_rid := request_uuid,
                                 cs_state := CHANNEL_REQUEST\<rparr>\<rparr>,
      st\<lparr>g_handed := g_handed st @ [(cc_proxy_name ctx, request_uuid, text)]\<rparr>)"

text \<open>What follows the wait for the proxy's verdict, up to the unlock and the unlink.\<close>

definition after_request ::
    "uuid \<Rightarrow> chan_event \<Rightarrow> ProxyChannelContext \<Rightarrow> gonggo \<Rightarrow> bool \<times> ProxyChannelContext \<times> gonggo" where
  "after_request request_uuid e ctx st =
     (let ctx1 = wake_shm e ctx; st1 = ce_env e st;
          (alive, ctx2, st2) =
            (if ce_owner_dead e then (False, ctx1, st1)
             else if chan_state ctx1 = CHANNEL_TERMINATION then (False, ctx1, st1)
             else if chan_state ctx1 = CHANNEL_ACKNOWLEDGED \<or> chan_state ctx1 = CHANNEL_FAILS
             then (True, set_state CHANNEL_DONE ctx1,
                   st1\<lparr>g_proxynames := client_proxyname_table_request_sent (cc_proxy_name ctx1)
                                         request_uuid (g_proxynames st1)\<rparr>)
             else (True, ctx1, st1))
      in (alive, shm_unlock ctx2, shm_unlink (payload_path request_uuid) st2))"

fun exchange_loop ::
    "world \<Rightarrow> ProxyChannelContext \<Rightarrow> uuid list \<Rightarrow> chan_event list \<Rightarrow> gonggo \<Rightarrow>
     (bool \<times> ProxyChannelContext \<times> chan_event list \<times> gonggo) blocking" where
  "exchange_loop w ctx [] events st = Done (True, ctx, events, st)"
| "exchange_loop w ctx (request_uuid # rest) events st =
     (case client_service_table_dup request_uuid (g_services st) of
        None \<Rightarrow> exchange_loop w ctx rest events st
      | Some service_name_payload \<Rightarrow>
          (case proxy_channel_idle_wait ctx events st of
             Blocked \<Rightarrow> Blocked
           | Done (idle, ctx1, events1, st1) \<Rightarrow>
               if \<not> idle then Done (False, ctx1, events1, st1)
               else
                 (let (len, st2) = proxy_channel_create_request w (payload_path request_uuid)
                                     service_name_payload st1
                  in if len < 1
                     then exchange_loop w
                            (shm_unlock (ctx1\<lparr>cc_shm := (cc_shm ctx1)\<lparr>cs_payload_buff_length := len\<rparr>\<rparr>))
                            rest events1 st2
                     else (let (ctx2, st3) = post_request request_uuid service_name_payload len ctx1 st2
                           in case events1 of
                                [] \<Rightarrow> Blocked
                              | e # events2 \<Rightarrow>
                                  (let (alive, ctx3, st4) = after_request request_uuid e ctx2 st3
                                   in if alive then exchange_loop w ctx3 rest events2 st4
                                      else Done (False, ctx3, events2, st4))))))"

definition proxy_channel_exchange ::
    "world \<Rightarrow> ProxyChannelContext \<Rightarrow> chan_event list \<Rightarrow> gonggo \<Rightarrow>
     (bool \<times> ProxyChannelContext \<times> chan_event list \<times> gonggo) blocking" where
  "proxy_channel_exchange w ctx events st =
     (case client_proxyname_table_request_dup (cc_proxy_name ctx) True (g_proxynames st) of
        None \<Rightarrow> Done (True, ctx, events, st)
      | Some request_uuid_arr \<Rightarrow> exchange_loop w ctx request_uuid_arr events st)"

section \<open>The thread\<close>

text \<open>One pass of the loop of \<open>proxy_channel\<close> up to its wait on \<open>ctx->wakeup\<close>; the flag says whether
  the thread goes on to wait.\<close>

definition proxy_channel_pass ::
    "world \<Rightarrow> ProxyChannelContext \<Rightarrow> chan_event list \<Rightarrow> gonggo \<Rightarrow>
     (bool \<times> ProxyChannelContext \<times> gonggo) blocking" where
  "proxy_channel_pass w ctx events st =
     (if proxy_terminate_array_exists (cc_proxy_name ctx) (g_terminate st)
      then (case proxy_channel_idle_wait ctx events st of
              Blocked \<Rightarrow> Blocked
            | Done (idle, ctx1, _, st1) \<Rightarrow>
                Done (False,
                      if idle then shm_unlock (set_state CHANNEL_STOP_REQUEST ctx1) else ctx1,
                      st1\<lparr>g_terminate := proxy_terminate_array_drop (cc_proxy_name ctx1)
                                           (g_terminate st1)\<rparr>))
      else (case proxy_channel_exchange w ctx events st of
              Blocked \<Rightarrow> Blocked
            | Done (alive, ctx1, _, st1) \<Rightarrow> Done (alive, ctx1, st1)))"

text \<open>The thread runs a pass, waits for a wakeup, and looks at \<open>ctx->stop\<close>.  The list has one entry
  per pass: its world, its events, and what the wait that follows the pass brings.\<close>

record channel_round =
  cr_world :: world
  cr_events :: "chan_event list"
  cr_stop :: bool
  cr_env :: "gonggo \<Rightarrow> gonggo"

datatype 's channel_outcome =
    ChannelStopped 's    \<comment> \<open>the thread has left its loop\<close>
  | ChannelBlocked 's    \<comment> \<open>inside a pass; the state at its start\<close>
  | ChannelWaiting 's    \<comment> \<open>on \<open>ctx->wakeup\<close>\<close>

fun proxy_channel ::
    "ProxyChannelContext \<Rightarrow> channel_round list \<Rightarrow> gonggo \<Rightarrow>
     (ProxyChannelContext \<times> gonggo) channel_outcome" where
  "proxy_channel ctx [] st =
     (if cc_stop ctx then ChannelStopped (ctx, st) else ChannelWaiting (ctx, st))"
| "proxy_channel ctx (r # rs) st =
     (if cc_stop ctx then ChannelStopped (ctx, st)
      else case proxy_channel_pass (cr_world r) ctx (cr_events r) st of
        Blocked \<Rightarrow> ChannelBlocked (ctx, st)
      | Done (go_on, ctx1, st1) \<Rightarrow>
          if \<not> go_on then ChannelStopped (ctx1, st1)
          else proxy_channel (ctx1\<lparr>cc_stop := cr_stop r\<rparr>) rs (cr_env r st1))"

text \<open>\<open>proxy_channel_stop\<close> takes and releases the mutex of the segment: it ends only where no other
  thread keeps that mutex.\<close>

definition proxy_channel_stop :: "ProxyChannelContext \<Rightarrow> ProxyChannelContext blocking" where
  "proxy_channel_stop ctx =
     (if chan_held ctx then Blocked
      else Done ((set_state CHANNEL_TERMINATION ctx)\<lparr>cc_stop := True\<rparr>))"

section \<open>A REST exchange\<close>

record RestRespond =
  rr_code :: int
  rr_err :: "string option"
  rr_json :: "string option"

text \<open>\<open>(int)cJSON_GetNumberValue(item)\<close> of an optional item, and the string of an item (\<open>strdup\<close> of a
  null pointer is undefined).\<close>

definition rest_code :: "json option \<Rightarrow> int" where
  "rest_code item = (case item of Some (JNumber r) \<Rightarrow> int_of_double r | _ \<Rightarrow> - (2 ^ 31))"

definition rest_answer :: "cjson \<Rightarrow> json option \<Rightarrow> RestRespond option" where
  "rest_answer J answer =
     (let code = rest_code (get_item J answer ''code'');
          json = map_option (cJSON_PrintUnformatted J) (get_item J answer ''json'')
      in case get_item J answer ''err'' of
           None \<Rightarrow> Some \<lparr>rr_code = code, rr_err = None, rr_json = json\<rparr>
         | Some e \<Rightarrow>
             (case (if cJSON_IsString e then valuestring J e else None) of
                None \<Rightarrow> None
              | Some s \<Rightarrow> Some \<lparr>rr_code = code, rr_err = Some s, rr_json = json\<rparr>))"

definition rest_error :: "string \<Rightarrow> RestRespond" where
  "rest_error s = \<lparr>rr_code = 500, rr_err = Some s, rr_json = None\<rparr>"

definition rest_initial :: RestRespond where
  "rest_initial = \<lparr>rr_code = 0, rr_err = None, rr_json = None\<rparr>"

text \<open>The exchange after the idle wait succeeded, up to the unlock.  The inner \<open>None\<close> is undefined
  behaviour.\<close>

definition rest_exchange ::
    "world \<Rightarrow> (string \<Rightarrow> string option) \<Rightarrow> ProxyChannelContext \<Rightarrow> string \<Rightarrow> json option \<Rightarrow>
     chan_event list \<Rightarrow> gonggo \<Rightarrow> ((RestRespond \<times> ProxyChannelContext \<times> gonggo) option) blocking" where
  "rest_exchange w segs ctx endpoint payload events st =
     (let rid = w_uuid w 0;
          text = client_service_table_service_payload_create (w_json w) endpoint payload;
          (len, st1) = proxy_channel_create_request w (payload_path rid) text st
      in if len < 1
         then Done (Some (rest_error ''proxy is out of order'',
                shm_unlock (ctx\<lparr>cc_shm := (cc_shm ctx)\<lparr>cs_payload_buff_length := len\<rparr>\<rparr>), st1))
         else
           (let ctx1 = ctx\<lparr>cc_shm := (cc_shm ctx)\<lparr>cs_payload_buff_length := len, cs_rid := rid,
                                                   cs_state := CHANNEL_REST\<rparr>\<rparr>
            in case events of
                 [] \<Rightarrow> Blocked
               | e # _ \<Rightarrow>
                   (let ctx2 = wake_shm e ctx1; st2 = ce_env e st1;
                        finish = (\<lambda>r c. Done (Some (r, shm_unlock c, shm_unlink (payload_path rid) st2)))
                    in if ce_owner_dead e then finish (rest_error ''proxy is out of order'') ctx2
                       else if chan_state ctx2 = CHANNEL_REST_RESPOND
                       then (case segs (payload_path (cs_aid (cc_shm ctx2))) of
                               None \<Rightarrow> finish (rest_error ''proxy is out of order'')
                                        (set_state CHANNEL_DONE ctx2)
                             | Some answer_str \<Rightarrow>
                                 (case rest_answer (w_json w) (cJSON_Parse (w_json w) answer_str) of
                                    None \<Rightarrow> Done None
                                  | Some r \<Rightarrow> finish r (set_state CHANNEL_DONE ctx2)))
                       else finish rest_initial ctx2)))"

definition proxy_channel_rest ::
    "world \<Rightarrow> (string \<Rightarrow> string option) \<Rightarrow> ProxyChannelContext \<Rightarrow> string \<Rightarrow> json option \<Rightarrow>
     chan_event list \<Rightarrow> gonggo \<Rightarrow> ((RestRespond \<times> ProxyChannelContext \<times> gonggo) option) blocking" where
  "proxy_channel_rest w segs ctx endpoint payload events st =
     (case proxy_channel_idle_wait ctx events st of
        Blocked \<Rightarrow> Blocked
      | Done (idle, ctx1, events1, st1) \<Rightarrow>
          if \<not> idle then Done (Some (rest_error ''proxy is out of service'', ctx1, st1))
          else rest_exchange w segs ctx1 endpoint payload events1 st1)"

text \<open>The context a REST call works on is the one in the channel table.\<close>

definition update_channel :: "pname \<Rightarrow> ProxyChannelContext \<Rightarrow> gonggo \<Rightarrow> gonggo" where
  "update_channel proxy ctx st =
     (case proxy_channel_thread_table_get proxy (g_channels st) of
        None \<Rightarrow> st
      | Some e \<Rightarrow> st\<lparr>g_channels := ht_insert proxy (e\<lparr>te_ctx := ctx\<rparr>) (g_channels st)\<rparr>)"

end
