(* ===== verification/Proxy_Threads.thy ===== *)
theory Proxy_Threads
  imports Proxy_Channel Proxy_Subscribe
begin

text \<open>
  Killing the threads of a proxy (\<open>gear/proxy.c\<close>), the thread that watches whether a proxy is alive
  (\<open>gear/proxyalive.c\<close>), and the thread that buries the dead ones (\<open>gear/proxyterminator.c\<close>).

  \<open>pthread_join\<close> returns once the joined thread has left its loop; the model of a kill goes on from
  there.  The process signals that \<open>proxy_alive_stop\<close> sends are returned as a list of process ids.
\<close>

section \<open>Stopping the alive thread\<close>

definition proxy_alive_stop :: "ProxyAliveContext \<Rightarrow> int list" where
  "proxy_alive_stop ctx = (if \<not> ac_dead ctx then [ac_pid ctx] else [])"

section \<open>proxy\_thread\_kill\<close>

definition unlink_all :: "string list \<Rightarrow> gonggo \<Rightarrow> gonggo" where
  "unlink_all paths st = fold shm_unlink paths st"

text \<open>The first half: ask the three threads to stop.\<close>

definition kill_stop :: "pname \<Rightarrow> gonggo \<Rightarrow> (gonggo \<times> int list) blocking" where
  "kill_stop proxy_name st =
     (let st1 =
        (case proxy_subscribe_thread_table_get proxy_name (g_subscribes st) of
           None \<Rightarrow> st
         | Some p \<Rightarrow> st\<lparr>g_subscribes :=
               ht_insert proxy_name (p\<lparr>te_ctx := proxy_subscribe_stop (te_ctx p)\<rparr>) (g_subscribes st)\<rparr>);
          sigterms =
        (case proxy_alive_thread_table_get proxy_name (g_alives st1) of
           None \<Rightarrow> [] | Some p \<Rightarrow> proxy_alive_stop (te_ctx p))
      in case proxy_channel_thread_table_get proxy_name (g_channels st1) of
           None \<Rightarrow> Done (st1, sigterms)
         | Some p \<Rightarrow>
             (case proxy_channel_stop (te_ctx p) of
                Blocked \<Rightarrow> Blocked
              | Done ctx \<Rightarrow>
                  Done (st1\<lparr>g_channels := ht_insert proxy_name (p\<lparr>te_ctx := ctx\<rparr>) (g_channels st1)\<rparr>,
                        sigterms)))"

text \<open>The second half: after each join, remove the entry and destroy its context.\<close>

definition kill_remove :: "pname \<Rightarrow> gonggo \<Rightarrow> gonggo" where
  "kill_remove proxy_name st =
     (let (subs, gone1) = proxy_subscribe_thread_table_remove proxy_name (g_subscribes st);
          (chans, gone2) = proxy_channel_thread_table_remove proxy_name (g_channels st);
          (alives, gone3) = proxy_alive_thread_table_remove proxy_name (g_alives st)
      in unlink_all (gone1 @ gone2 @ gone3)
           (st\<lparr>g_subscribes := subs, g_channels := chans, g_alives := alives\<rparr>))"

definition proxy_thread_kill :: "pname \<Rightarrow> gonggo \<Rightarrow> (gonggo \<times> int list) blocking" where
  "proxy_thread_kill proxy_name st =
     (case kill_stop proxy_name st of
        Blocked \<Rightarrow> Blocked
      | Done (st1, sigterms) \<Rightarrow> Done (kill_remove proxy_name st1, sigterms))"

fun kill_all_loop :: "pname list \<Rightarrow> gonggo \<Rightarrow> (gonggo \<times> int list) blocking" where
  "kill_all_loop [] st = Done (st, [])"
| "kill_all_loop (proxy_name # sa) st =
     (let st1 = st\<lparr>g_terminating := proxy_thread_terminating_set proxy_name (g_terminating st)\<rparr>
      in case proxy_thread_kill proxy_name st1 of
           Blocked \<Rightarrow> Blocked
         | Done (st2, sig) \<Rightarrow>
             (case kill_all_loop sa
                 (st2\<lparr>g_terminating := proxy_thread_terminating_drop proxy_name (g_terminating st2)\<rparr>) of
                Blocked \<Rightarrow> Blocked
              | Done (st3, sigs) \<Rightarrow> Done (st3, sig @ sigs)))"

definition proxy_thread_kill_all ::
    "(pname list \<Rightarrow> pname list) \<Rightarrow> gonggo \<Rightarrow> (gonggo \<times> int list) blocking" where
  "proxy_thread_kill_all ord st =
     kill_all_loop (proxy_alive_thread_table_char_keys_create ord (g_alives st)) st"

section \<open>The alive thread\<close>

definition EOWNERDEAD :: int where "EOWNERDEAD = 130"

definition proxy_terminator_awake :: "pname \<Rightarrow> gonggo \<Rightarrow> gonggo" where
  "proxy_terminator_awake proxy_name st = st\<lparr>g_queue := g_queue st @ [proxy_name]\<rparr>"

text \<open>What one \<open>pthread_mutex_lock\<close> on the alive segment brings: its status, the flag \<open>alive\<close>, and the
  world of the notification that may follow.\<close>

record alive_event =
  ae_status :: int
  ae_alive :: bool
  ae_world :: world
  ae_env :: "gonggo \<Rightarrow> gonggo"

definition proxy_alive_round ::
    "alive_event \<Rightarrow> ProxyAliveContext \<Rightarrow> gonggo \<Rightarrow> ProxyAliveContext \<times> gonggo" where
  "proxy_alive_round e ctx st =
     (let st0 = ae_env e st;
          dead = (ae_status e = EOWNERDEAD \<or> ae_status e = 0 \<and> \<not> ae_alive e);
          ctx1 = ctx\<lparr>ac_dead := dead, ac_shm := \<lparr>al_alive = ae_alive e\<rparr>\<rparr>
      in if dead
         then (let st1 = st0\<lparr>g_terminating :=
                       proxy_thread_terminating_set (ac_proxy_name ctx1) (g_terminating st0)\<rparr>;
                   st2 = proxy_terminator_awake (ac_proxy_name ctx1) st1
               in (ctx1, client_proxy_alive_notification (ae_world e) (ac_proxy_name ctx1) False st2))
         else (ctx1, st0))"

fun proxy_alive ::
    "ProxyAliveContext \<Rightarrow> alive_event list \<Rightarrow> gonggo \<Rightarrow> (ProxyAliveContext \<times> gonggo) thread_outcome"
  where
  "proxy_alive ctx [] st = (if ac_dead ctx then Stopped (ctx, st) else Waiting (ctx, st))"
| "proxy_alive ctx (e # es) st =
     (if ac_dead ctx then Stopped (ctx, st)
      else (let (ctx1, st1) = proxy_alive_round e ctx st in proxy_alive ctx1 es st1))"

section \<open>The terminator\<close>

text \<open>One name off the queue.\<close>

definition terminate_proxy :: "pname \<Rightarrow> gonggo \<Rightarrow> (gonggo \<times> int list) blocking" where
  "terminate_proxy proxy_name st =
     (let st1 = st\<lparr>g_proxynames :=
                client_proxyname_table_request_unsent proxy_name (g_proxynames st)\<rparr>
      in case proxy_thread_kill proxy_name st1 of
           Blocked \<Rightarrow> Blocked
         | Done (st2, sig) \<Rightarrow>
             Done (st2\<lparr>g_terminating :=
                      proxy_thread_terminating_drop proxy_name (g_terminating st2)\<rparr>, sig))"

text \<open>The inner loop of \<open>proxy_terminator\<close>: pop until the queue is empty.  The queue is only filled
  under the mutex this loop holds, so it shrinks with every pop.\<close>

fun terminator_drain :: "pname list \<Rightarrow> gonggo \<Rightarrow> (gonggo \<times> int list) blocking" where
  "terminator_drain [] st = Done (st, [])"
| "terminator_drain (proxy_name # queue) st =
     (case terminate_proxy proxy_name (st\<lparr>g_queue := queue\<rparr>) of
        Blocked \<Rightarrow> Blocked
      | Done (st1, sig) \<Rightarrow>
          (case terminator_drain queue st1 of
             Blocked \<Rightarrow> Blocked
           | Done (st2, sigs) \<Rightarrow> Done (st2, sig @ sigs)))"

definition proxy_terminator_round :: "gonggo \<Rightarrow> (gonggo \<times> int list) blocking" where
  "proxy_terminator_round st = terminator_drain (g_queue st) st"

section \<open>What a kill changes\<close>

lemma unlink_all_fields [simp]:
  "g_requests (unlink_all ps st) = g_requests st" "g_connections (unlink_all ps st) = g_connections st"
  "g_services (unlink_all ps st) = g_services st" "g_proxynames (unlink_all ps st) = g_proxynames st"
  "g_subscribes (unlink_all ps st) = g_subscribes st" "g_channels (unlink_all ps st) = g_channels st"
  "g_alives (unlink_all ps st) = g_alives st" "g_terminating (unlink_all ps st) = g_terminating st"
  "g_terminate (unlink_all ps st) = g_terminate st" "g_queue (unlink_all ps st) = g_queue st"
  "g_db (unlink_all ps st) = g_db st" "g_path (unlink_all ps st) = g_path st"
  "g_sent (unlink_all ps st) = g_sent st" "g_wakeups (unlink_all ps st) = g_wakeups st"
  "g_handed (unlink_all ps st) = g_handed st"
  unfolding unlink_all_def
  by (induction ps arbitrary: st) (simp_all add: shm_unlink_def)

lemma unlink_all_segments [simp]:
  "ht_lookup (g_segments (unlink_all ps st)) x =
     (if x \<in> set ps then None else ht_lookup (g_segments st) x)"
  unfolding unlink_all_def
  by (induction ps arbitrary: st) (auto simp: shm_unlink_def)

definition same_but_threads :: "gonggo \<Rightarrow> gonggo \<Rightarrow> bool" where
  "same_but_threads s t \<longleftrightarrow> g_requests s = g_requests t \<and> g_connections s = g_connections t \<and>
     g_services s = g_services t \<and> g_proxynames s = g_proxynames t \<and> g_terminating s = g_terminating t \<and>
     g_terminate s = g_terminate t \<and> g_queue s = g_queue t \<and> g_db s = g_db t \<and> g_path s = g_path t \<and>
     g_sent s = g_sent t \<and> g_wakeups s = g_wakeups t \<and> g_handed s = g_handed t"

lemma kill_frame:
  "proxy_thread_kill p st = Done (st', sig) \<Longrightarrow> same_but_threads st' st"
  by (auto simp: proxy_thread_kill_def kill_stop_def kill_remove_def same_but_threads_def Let_def
      split: blocking.splits prod.splits option.splits)

lemma kill_tables:
  assumes "proxy_thread_kill p st = Done (st', sig)"
  shows "ht_lookup (g_subscribes st') q = (if q = p then None else ht_lookup (g_subscribes st) q)"
    and "ht_lookup (g_channels st') q = (if q = p then None else ht_lookup (g_channels st) q)"
    and "ht_lookup (g_alives st') q = (if q = p then None else ht_lookup (g_alives st) q)"
  using assms
  by (auto simp: proxy_thread_kill_def kill_stop_def kill_remove_def Let_def subscribe_table_defs
      channel_table_defs alive_table_defs split: blocking.splits prod.splits option.splits)

lemma kill_ht_ok:
  assumes "proxy_thread_kill p st = Done (st', sig)"
  shows "ht_ok (g_subscribes st) \<Longrightarrow> ht_ok (g_subscribes st')"
    and "ht_ok (g_channels st) \<Longrightarrow> ht_ok (g_channels st')"
    and "ht_ok (g_alives st) \<Longrightarrow> ht_ok (g_alives st')"
  using assms
  by (auto simp: proxy_thread_kill_def kill_stop_def kill_remove_def Let_def subscribe_table_defs
      channel_table_defs alive_table_defs split: blocking.splits prod.splits option.splits)

lemma kill_sigterms:
  assumes "proxy_thread_kill p st = Done (st', sig)"
  shows "sig = (case ht_lookup (g_alives st) p of
                  None \<Rightarrow> [] | Some e \<Rightarrow> if ac_dead (te_ctx e) then [] else [ac_pid (te_ctx e)])"
  using assms
  by (auto simp: proxy_thread_kill_def kill_stop_def Let_def alive_table_defs proxy_alive_stop_def
      split: blocking.splits prod.splits option.splits)

text \<open>A kill blocks only where a thread that lives on keeps the mutex of the channel segment.\<close>

lemma kill_blocked:
  "proxy_thread_kill p st = Blocked \<longleftrightarrow>
     (\<exists>e. ht_lookup (g_channels st) p = Some e \<and> chan_held (te_ctx e))"
  by (auto simp: proxy_thread_kill_def kill_stop_def Let_def proxy_channel_stop_def
      channel_table_defs split: blocking.splits prod.splits option.splits if_splits)

end
