(* ===== verification/Proxy_Activator.thy ===== *)
theory Proxy_Activator
  imports Proxy_Threads
begin

text \<open>
  \<open>gear/proxyactivator.c\<close>: the thread that admits proxies.  A proxy writes its name and process id
  into the activation segment and asks (\<open>ACTIVATION_REQUEST\<close>); the activator kills what is left of a
  previous instance, starts the three threads of the proxy, answers
  (\<open>ACTIVATION_SUCCESS\<close>/\<open>FAILED\<close>/\<open>PROXY_DYING\<close>) and waits for the proxy to confirm with
  \<open>ACTIVATION_DONE\<close>.
\<close>

datatype ProxyActivationRespondState =
    ACTIVATIONSTATE_DISPATCHER_FAILED | ACTIVATIONSTATE_DISPATCHER_SUCCESS
  | ACTIVATIONSTATE_PROXY_TIMEOUT | ACTIVATIONSTATE_PROXY_DEAD | ACTIVATIONSTATE_TERMINATED

text \<open>What the proxy and the system contribute to one activation.\<close>

record activation_env =
  av_world :: world
  av_channel_shm :: ProxyChannelShm       \<comment> \<open>the segments, if they can be mapped\<close>
  av_subscribe_shm :: ProxySubscribeShm
  av_alive_shm :: ProxyAliveMutexShm
  av_subscribe_thread :: "nat option"     \<comment> \<open>\<open>pthread_create\<close>: the thread, or failure\<close>
  av_channel_thread :: "nat option"
  av_alive_thread :: "nat option"
  av_relock_dead :: bool                  \<comment> \<open>the second lock returned \<open>EOWNERDEAD\<close>\<close>
  av_state_locked :: ProxyActivationState \<comment> \<open>the segment's state after it\<close>
  av_wait_dead :: bool                    \<comment> \<open>the timed wait returned \<open>EOWNERDEAD\<close>\<close>
  av_state_waited :: ProxyActivationState \<comment> \<open>the segment's state after it\<close>

section \<open>The segments of a proxy\<close>

definition proxy_subscribe_shm_get ::
    "world \<Rightarrow> pname \<Rightarrow> ProxySubscribeShm \<Rightarrow> gonggo \<Rightarrow> ProxySubscribeShm option" where
  "proxy_subscribe_shm_get w proxy_name mapped st =
     (let p = proxy_subscribe_path proxy_name in
      if ht_lookup (g_segments st) p = None \<or> \<not> w_shm_open w p then None
      else if \<not> w_mmap w p then None
      else Some mapped)"

definition proxy_alive_shm_get ::
    "world \<Rightarrow> pname \<Rightarrow> ProxyAliveMutexShm \<Rightarrow> gonggo \<Rightarrow> ProxyAliveMutexShm option" where
  "proxy_alive_shm_get w proxy_name mapped st =
     (let p = proxy_alive_path proxy_name in
      if ht_lookup (g_segments st) p = None \<or> \<not> w_shm_open w p then None
      else if \<not> w_mmap w p then None
      else Some mapped)"

section \<open>Starting the threads\<close>

text \<open>The three contexts and threads as \<open>proxy_activation\<close> leaves them: a context is allocated before
  its thread is created, so there may be a context whose thread does not exist.\<close>

record started =
  sd_subscribe :: "(ProxySubscribeContext \<times> nat option) option"
  sd_channel :: "(ProxyChannelContext \<times> nat option) option"
  sd_alive :: "(ProxyAliveContext \<times> nat option) option"

definition start_threads ::
    "activation_env \<Rightarrow> ProxyActivationShm \<Rightarrow> ProxySubscribeShm \<Rightarrow> ProxyChannelShm \<Rightarrow>
     ProxyAliveMutexShm \<Rightarrow> bool \<times> started" where
  "start_threads env shm subscribe_shm channel_shm alive_shm =
     (let name = as_proxy_name shm;
          sub = (proxy_subscribe_context_create name subscribe_shm, av_subscribe_thread env);
          chan = (proxy_channel_context_create name channel_shm, av_channel_thread env);
          alive = (proxy_alive_context_create name (as_pid shm) alive_shm, av_alive_thread env)
      in if av_subscribe_thread env = None
         then (False, \<lparr>sd_subscribe = Some sub, sd_channel = None, sd_alive = None\<rparr>)
         else if av_channel_thread env = None
         then (False, \<lparr>sd_subscribe = Some sub, sd_channel = Some chan, sd_alive = None\<rparr>)
         else if av_alive_thread env = None
         then (False, \<lparr>sd_subscribe = Some sub, sd_channel = Some chan, sd_alive = Some alive\<rparr>)
         else (True, \<lparr>sd_subscribe = Some sub, sd_channel = Some chan, sd_alive = Some alive\<rparr>))"

section \<open>Waiting for the proxy\<close>

text \<open>From the signal to the proxy up to the verdict, with the state after the last look at the
  segment.\<close>

definition await_proxy ::
    "activation_env \<Rightarrow> ProxyActivationRespondState \<Rightarrow>
     ProxyActivationRespondState \<times> ProxyActivationState" where
  "await_proxy env state =
     (if av_relock_dead env then (ACTIVATIONSTATE_PROXY_DEAD, av_state_locked env)
      else if av_state_locked env \<noteq> ACTIVATION_DONE
      then (if av_state_waited env = ACTIVATION_TERMINATION
            then (ACTIVATIONSTATE_TERMINATED, av_state_waited env)
            else if av_wait_dead env then (ACTIVATIONSTATE_PROXY_DEAD, av_state_waited env)
            else if av_state_waited env \<noteq> ACTIVATION_DONE
                    \<and> state = ACTIVATIONSTATE_DISPATCHER_SUCCESS
            then (ACTIVATIONSTATE_PROXY_TIMEOUT, av_state_waited env)
            else (state, av_state_waited env))
      else (state, av_state_locked env))"

section \<open>Undoing an activation\<close>

text \<open>The threads are told to stop and joined, the contexts destroyed.  Joining a thread that was
  never created is undefined behaviour (the identifier is uninitialised).\<close>

datatype 'a activation_outcome = ActBlocked | ActUndefined | ActDone 'a

definition undo_activation :: "started \<Rightarrow> gonggo \<Rightarrow> (gonggo \<times> int list) activation_outcome" where
  "undo_activation sd st =
     (let chan_stop = (case sd_channel sd of
                         None \<Rightarrow> Done None
                       | Some (c, t) \<Rightarrow> (case proxy_channel_stop c of
                                          Blocked \<Rightarrow> Blocked | Done c' \<Rightarrow> Done (Some (c', t))));
          sigterms = (case sd_alive sd of None \<Rightarrow> [] | Some (c, _) \<Rightarrow> proxy_alive_stop c);
          joined = (case sd_subscribe sd of None \<Rightarrow> True | Some (_, t) \<Rightarrow> t \<noteq> None) \<and>
                   (case sd_channel sd of None \<Rightarrow> True | Some (_, t) \<Rightarrow> t \<noteq> None) \<and>
                   (case sd_alive sd of None \<Rightarrow> True | Some (_, t) \<Rightarrow> t \<noteq> None);
          gone = (case sd_subscribe sd of None \<Rightarrow> []
                  | Some (c, _) \<Rightarrow> proxy_subscribe_context_destroy (proxy_subscribe_stop c)) @
                 (case sd_channel sd of None \<Rightarrow> [] | Some (c, _) \<Rightarrow> proxy_channel_context_destroy c) @
                 (case sd_alive sd of None \<Rightarrow> [] | Some (c, _) \<Rightarrow> proxy_alive_context_destroy c)
      in if chan_stop = Blocked then ActBlocked
         else if \<not> joined then ActUndefined
         else ActDone (unlink_all gone st, sigterms))"

section \<open>proxy\_activation\<close>

record activation_result =
  ar_respond :: ProxyActivationRespondState
  ar_shm_state :: ProxyActivationState    \<comment> \<open>the segment's state at the end\<close>
  ar_started :: started
  ar_sigterms :: "int list"

definition no_threads :: started where
  "no_threads = \<lparr>sd_subscribe = None, sd_channel = None, sd_alive = None\<rparr>"

text \<open>The part after the threads were started or refused.\<close>

definition conclude_activation ::
    "activation_env \<Rightarrow> pname \<Rightarrow> ProxyActivationRespondState \<Rightarrow> started \<Rightarrow> int list \<Rightarrow> gonggo \<Rightarrow>
     (activation_result \<times> gonggo) activation_outcome" where
  "conclude_activation env name state0 sd sig st =
     (let (state, shm_state) = await_proxy env state0;
          st1 = (if state = ACTIVATIONSTATE_PROXY_TIMEOUT \<and> sd_channel sd \<noteq> None
                 then channel_wakeup name
                        (st\<lparr>g_terminate := proxy_terminate_array_set name (g_terminate st)\<rparr>)
                 else st)
      in if state \<noteq> ACTIVATIONSTATE_DISPATCHER_SUCCESS
         then (case undo_activation sd st1 of
                 ActBlocked \<Rightarrow> ActBlocked
               | ActUndefined \<Rightarrow> ActUndefined
               | ActDone (st2, sig') \<Rightarrow>
                   ActDone (\<lparr>ar_respond = state, ar_shm_state = shm_state, ar_started = no_threads,
                             ar_sigterms = sig @ sig'\<rparr>, st2))
         else ActDone (\<lparr>ar_respond = state, ar_shm_state = shm_state, ar_started = sd,
                        ar_sigterms = sig\<rparr>, st1))"

definition proxy_activation ::
    "activation_env \<Rightarrow> ProxyActivationShm \<Rightarrow> gonggo \<Rightarrow>
     (activation_result \<times> gonggo) activation_outcome" where
  "proxy_activation env shm st =
     (let w = av_world env; name = as_proxy_name shm in
      if proxy_thread_zombie name (g_terminating st)
      then conclude_activation env name ACTIVATIONSTATE_DISPATCHER_FAILED no_threads [] st
      else case proxy_thread_kill name st of
        Blocked \<Rightarrow> ActBlocked
      | Done (st1, sig) \<Rightarrow>
          (let channel_shm = proxy_channel_shm_get w name (av_channel_shm env) st1;
               subscribe_shm = (case channel_shm of None \<Rightarrow> None
                                | Some _ \<Rightarrow> proxy_subscribe_shm_get w name (av_subscribe_shm env) st1);
               alive_shm = (case subscribe_shm of None \<Rightarrow> None
                            | Some _ \<Rightarrow> proxy_alive_shm_get w name (av_alive_shm env) st1)
           in case (channel_shm, subscribe_shm, alive_shm) of
                (Some c, Some s, Some a) \<Rightarrow>
                  (let (created, sd) = start_threads env shm s c a
                   in conclude_activation env name
                        (if created then ACTIVATIONSTATE_DISPATCHER_SUCCESS
                         else ACTIVATIONSTATE_DISPATCHER_FAILED) sd sig st1)
              | _ \<Rightarrow> ActDone (\<lparr>ar_respond = ACTIVATIONSTATE_DISPATCHER_FAILED,
                              ar_shm_state = as_state shm, ar_started = no_threads,
                              ar_sigterms = sig\<rparr>, st1)))"

section \<open>The thread\<close>

definition proxy_activator_shm_idle :: "ProxyActivationShm \<Rightarrow> ProxyActivationShm" where
  "proxy_activator_shm_idle shm = shm\<lparr>as_proxy_name := [], as_state := ACTIVATION_IDLE\<rparr>"

text \<open>Registering an admitted proxy: the three tables, the wakeup that drains the pending requests,
  the notification of the clients.\<close>

definition register_proxy :: "world \<Rightarrow> pname \<Rightarrow> started \<Rightarrow> gonggo \<Rightarrow> gonggo" where
  "register_proxy w name sd st =
     (case (sd_subscribe sd, sd_channel sd, sd_alive sd) of
        (Some (sub, Some ts), Some (chan, Some tc), Some (alive, Some ta)) \<Rightarrow>
          (let (subs, gone1) = proxy_subscribe_thread_table_set name ts sub (g_subscribes st);
               (chans, gone2) = proxy_channel_thread_table_set name tc chan (g_channels st);
               (alives, gone3) = proxy_alive_thread_table_set name ta alive (g_alives st);
               st1 = unlink_all (gone1 @ gone2 @ gone3)
                       (st\<lparr>g_subscribes := subs, g_channels := chans, g_alives := alives\<rparr>)
           in client_proxy_alive_notification w name True (channel_wakeup name st1))
      | _ \<Rightarrow> st)"

text \<open>One turn of the loop, from the wait on \<open>dispatcher_wakeup\<close>: whether it goes on, and the segment
  and the state afterwards.\<close>

definition proxy_activator_round ::
    "activation_env \<Rightarrow> bool \<Rightarrow> bool \<Rightarrow> ProxyActivationShm \<Rightarrow> gonggo \<Rightarrow>
     (bool \<times> gonggo) activation_outcome" where
  "proxy_activator_round env end_flag proxy_dead shm st =
     (if as_state shm = ACTIVATION_TERMINATION then ActDone (False, st)
      else if \<not> end_flag \<and> \<not> proxy_dead \<and> length (as_proxy_name shm) > 0
              \<and> as_state shm = ACTIVATION_REQUEST
      then (case proxy_activation env shm st of
              ActBlocked \<Rightarrow> ActBlocked
            | ActUndefined \<Rightarrow> ActUndefined
            | ActDone (r, st1) \<Rightarrow>
                if ar_respond r = ACTIVATIONSTATE_TERMINATED then ActDone (False, st1)
                else if ar_respond r = ACTIVATIONSTATE_DISPATCHER_SUCCESS
                then ActDone (True, register_proxy (av_world env) (as_proxy_name shm) (ar_started r) st1)
                else ActDone (True, st1))
      else ActDone (True, st))"

end
