(* ===== verification/Dispatcher_Steps.thy ===== *)
theory Dispatcher_Steps
  imports Table_Invariant Proxy_Activator
begin

text \<open>
  The whole dispatcher as a step relation on its shared state: one rule per handler or per stretch of
  a thread between two places where it blocks.  The handlers of clients and answers take several
  table locks one after the other; a step is a whole handler, so the relation has the interleavings
  of handlers, not those of their single table operations.
\<close>

inductive gonggo_step :: "gonggo \<Rightarrow> gonggo \<Rightarrow> bool" where
  message: "world_ok w \<Longrightarrow> ws_data_handler w uri opcode data c st = Some st' \<Longrightarrow> gonggo_step st st'"
| close: "world_ok w \<Longrightarrow> gonggo_step st (ws_close_handler w c st)"
| sweep: "world_ok w \<Longrightarrow> gonggo_step st (client_timeout_sweep w st)"
| answer: "world_ok w \<Longrightarrow> proxy_subscribe_exchange w segs p shm st = Some (state, st') \<Longrightarrow>
     gonggo_step st st'"
| channel_post: "world_ok w \<Longrightarrow> proxy_channel_create_request w (payload_path r) text st = (len, st1) \<Longrightarrow>
     post_request r text len ctx st1 = (ctx', st') \<Longrightarrow> gonggo_step st st'"
| channel_verdict: "ce_env e = id \<Longrightarrow> after_request r e ctx st = (alive, ctx', st') \<Longrightarrow>
     gonggo_step st st'"
| rest_post: "proxy_channel_create_request w (payload_path r) text st = (len, st') \<Longrightarrow> gonggo_step st st'"
| rest_end: "gonggo_step st (update_channel p ctx (shm_unlink path st))"
| channel_terminate: "gonggo_step st
     (st\<lparr>g_terminate := proxy_terminate_array_drop p (g_terminate st)\<rparr>)"
| alive: "world_ok (ae_world e) \<Longrightarrow> ae_env e = id \<Longrightarrow> proxy_alive_round e ctx st = (ctx', st') \<Longrightarrow>
     gonggo_step st st'"
| terminator: "g_queue st = p # queue \<Longrightarrow>
     terminate_proxy p (st\<lparr>g_queue := queue\<rparr>) = Done (st', sig) \<Longrightarrow> gonggo_step st st'"
| activator: "world_ok (av_world env) \<Longrightarrow>
     proxy_activator_round env end_flag proxy_dead shm st = ActDone (go_on, st') \<Longrightarrow> gonggo_step st st'"
| purge: "gonggo_step st (st\<lparr>g_db := snd (db_respond_purge ps fmt tz now overdue (g_db st))\<rparr>)"

text \<open>The threads of a proxy: the three tables have the same names.\<close>

definition threads_linked :: "gonggo \<Rightarrow> bool" where
  "threads_linked st \<longleftrightarrow> ht_ok (g_subscribes st) \<and> ht_ok (g_channels st) \<and> ht_ok (g_alives st) \<and>
     (\<forall>p. (ht_lookup (g_subscribes st) p = None \<longleftrightarrow> ht_lookup (g_channels st) p = None) \<and>
          (ht_lookup (g_channels st) p = None \<longleftrightarrow> ht_lookup (g_alives st) p = None))"

definition names_ok :: "gonggo \<Rightarrow> bool" where
  "names_ok st \<longleftrightarrow> distinct (g_terminating st) \<and> distinct (g_terminate st)"

definition gonggo_inv :: "gonggo \<Rightarrow> bool" where
  "gonggo_inv st \<longleftrightarrow> tables_linked st \<and> db_ok (g_db st) \<and> threads_linked st \<and> names_ok st"

lemma gonggo_inv_initial: "gonggo_inv (initial_gonggo name)"
  by (simp add: gonggo_inv_def initial_gonggo_def tables_linked_def linked_def db_ok_def log_of_def
      threads_linked_def names_ok_def)

section \<open>The database\<close>

lemma db_ok_g_insert: "world_ok w \<Longrightarrow> db_ok (g_db st) \<Longrightarrow> db_ok (g_db (g_db_insert w r s st))"
  by (simp add: world_ok_def db_ok_insert)

lemma db_ok_replies:
  assumes "world_ok w" "db_ok (g_db st)"
  shows "db_ok (g_db (client_service_reply w co r h pl save st))"
    and "db_ok (g_db (client_service_expired_reply w co r save st))"
  using assms
  by (auto simp: client_service_reply_def client_service_expired_reply_def Let_def db_ok_g_insert
      simp del: g_db_insert_fields split: option.splits)

lemma db_loop: "g_db (notification_loop w p started t ks st) = g_db st"
  by (induction ks arbitrary: st)
    (auto simp: client_proxy_alive_notification_do_def split: option.splits)

lemma db_notification [simp]: "g_db (client_proxy_alive_notification w p started st) = g_db st"
  by (simp add: client_proxy_alive_notification_def Let_def db_loop)

lemma db_status [simp]: "g_db (client_parsing_status_reply w c r status st) = g_db st"
  by (simp add: client_parsing_status_reply_def)

lemma db_ok_dump:
  "gonggo_response_dump w r c d start sz st = Some st' \<Longrightarrow> g_db st' = g_db st"
  by (auto simp: gonggo_response_dump_def client_service_reply_def Let_def
      split: prod.splits if_splits option.splits unit.splits)

lemma db_route_save: "g_db (route_save w c r p svc pl tmo st) = g_db st"
  by (auto simp: route_save_def Let_def split: option.splits)

lemma db_ok_route:
  "world_ok w \<Longrightarrow> db_ok (g_db st) \<Longrightarrow> client_service_route w uri data c st = Some st' \<Longrightarrow>
     db_ok (g_db st')"
  by (auto simp: client_service_route_def gonggo_test_def Let_def db_route_save
      intro!: db_ok_replies split: if_splits option.splits dest: db_ok_dump)

lemma db_drop_conn: "g_db (client_service_drop_conn w c st) = g_db st"
  by (auto simp: client_service_drop_conn_def Let_def notify_frame forget_frame
      split: prod.splits option.splits)

lemma db_ok_expire: "world_ok w \<Longrightarrow> db_ok (g_db st) \<Longrightarrow> db_ok (g_db (expire_request w r st))"
  by (simp add: expire_request_def Let_def db_ok_replies)

lemma db_ok_sweep:
  assumes "world_ok w" "db_ok (g_db st)"
  shows "db_ok (g_db (client_timeout_sweep w st))"
proof -
  have "db_ok (g_db (fold (expire_request w) rs st))" for rs
    using assms by (induction rs arbitrary: st) (auto intro: db_ok_expire)
  then show ?thesis by (simp add: client_timeout_sweep_def)
qed

lemma db_ok_exchange:
  assumes "world_ok w" "proxy_subscribe_exchange w segs p shm st = Some (state, st')" "db_ok (g_db st)"
  shows "db_ok (g_db st')"
proof (rule exchange_invariant [OF assms(2), where P = "\<lambda>s. db_ok (g_db s)"])
  show "db_ok (g_db st)" by (rule assms)
  show "db_ok (g_db (proxy_subscribe_purge_rid w r s))" if "db_ok (g_db s)" for r s
    using that by (simp add: proxy_subscribe_purge_rid_def Let_def split_beta)
  show "db_ok (g_db (proxy_subscribe_reply w p r h pl rm s))" if "db_ok (g_db s)" for r h pl rm s
    using that assms(1) by (simp add: proxy_subscribe_reply_def Let_def split_beta db_ok_replies)
qed

section \<open>Handlers of clients and answers leave the threads alone\<close>

definition threads_of where
  "threads_of st = (g_subscribes st, g_channels st, g_alives st, g_terminating st, g_terminate st)"

lemma threads_of_ok:
  "threads_of s = threads_of t \<Longrightarrow> threads_linked s = threads_linked t \<and> names_ok s = names_ok t"
  by (simp add: threads_of_def threads_linked_def names_ok_def)

lemma threads_of_same: "same_tables s t \<Longrightarrow> threads_of s = threads_of t"
  by (simp add: same_tables_def threads_of_def)

lemma threads_of_replies [simp]:
  "threads_of (client_parsing_status_reply w c ro status st) = threads_of st"
  "threads_of (client_service_reply w co r h pl save st) = threads_of st"
  "threads_of (client_service_expired_reply w co r save st) = threads_of st"
  "threads_of (gonggo_test w r c st) = threads_of st"
  by (rule threads_of_same; simp add: same_tables_test)+

lemma threads_of_route_save [simp]: "threads_of (route_save w c r p svc pl tmo st) = threads_of st"
  by (auto simp: route_save_def Let_def threads_of_def split: option.splits)

lemma threads_of_route:
  "client_service_route w uri data c st = Some st' \<Longrightarrow> threads_of st' = threads_of st"
  by (auto simp: client_service_route_def Let_def split: if_splits option.splits
      dest!: same_tables_dump [THEN threads_of_same])

lemma threads_of_drop_conn: "threads_of (client_service_drop_conn w c st) = threads_of st"
  by (auto simp: client_service_drop_conn_def Let_def notify_frame forget_frame threads_of_def
      split: prod.splits option.splits)

lemma threads_of_sweep: "threads_of (client_timeout_sweep w st) = threads_of st"
proof -
  have "threads_of (expire_request w r s) = threads_of s" for r s
    by (simp add: expire_request_def Let_def threads_of_def)
  then have "threads_of (fold (expire_request w) rs st) = threads_of st" for rs
    by (induction rs arbitrary: st) auto
  then show ?thesis by (simp add: client_timeout_sweep_def)
qed

lemma threads_of_exchange:
  assumes "proxy_subscribe_exchange w segs p shm st = Some (state, st')"
  shows "threads_of st' = threads_of st"
  by (rule exchange_invariant [OF assms, where P = "\<lambda>s. threads_of s = threads_of st"])
    (auto simp: proxy_subscribe_purge_rid_def proxy_subscribe_reply_def Let_def split_beta
      threads_of_def)

section \<open>Handlers of proxies leave the client tables linked\<close>

lemma linked_same_but_threads:
  "same_but_threads s t \<Longrightarrow> tables_linked s = tables_linked t \<and> g_db s = g_db t \<and> names_ok s = names_ok t"
  by (simp add: same_but_threads_def tables_linked_def names_ok_def)

lemma inv_kill:
  assumes "proxy_thread_kill p st = Done (st', sig)" "gonggo_inv st"
  shows "gonggo_inv st'"
  using assms linked_same_but_threads [OF kill_frame [OF assms(1)]]
  by (auto simp: gonggo_inv_def threads_linked_def kill_tables [OF assms(1)]
      intro: kill_ht_ok [OF assms(1)])

lemma inv_proxynames:
  assumes "gonggo_inv st" "proxyname_ok t" "\<And>p. pn_rids (g_proxynames st) p \<subseteq> pn_rids t p"
  shows "gonggo_inv (st\<lparr>g_proxynames := t\<rparr>)"
  using assms linked_proxynames [of _ _ _ "g_proxynames st" t]
  by (simp add: gonggo_inv_def tables_linked_def threads_linked_def names_ok_def)

lemma inv_proxyname_ok: "gonggo_inv st \<Longrightarrow> proxyname_ok (g_proxynames st)"
  using linkedD(4) by (auto simp: gonggo_inv_def tables_linked_def)

lemma inv_unsent:
  "gonggo_inv st \<Longrightarrow>
     gonggo_inv (st\<lparr>g_proxynames := client_proxyname_table_request_unsent p (g_proxynames st)\<rparr>)"
  by (rule inv_proxynames) (simp_all add: inv_proxyname_ok)

lemma inv_sent:
  "gonggo_inv st \<Longrightarrow>
     gonggo_inv (st\<lparr>g_proxynames := client_proxyname_table_request_sent p r (g_proxynames st)\<rparr>)"
  by (rule inv_proxynames) (simp_all add: inv_proxyname_ok)

lemma inv_unlink: "gonggo_inv (shm_unlink path st) = gonggo_inv st"
  by (simp add: shm_unlink_def gonggo_inv_def tables_linked_def threads_linked_def names_ok_def)

lemma inv_names:
  "gonggo_inv st \<Longrightarrow> distinct a \<Longrightarrow> gonggo_inv (st\<lparr>g_terminating := a\<rparr>)"
  "gonggo_inv st \<Longrightarrow> distinct a \<Longrightarrow> gonggo_inv (st\<lparr>g_terminate := a\<rparr>)"
  "gonggo_inv (st\<lparr>g_queue := q\<rparr>) = gonggo_inv st"
  by (simp_all add: gonggo_inv_def tables_linked_def threads_linked_def names_ok_def)

lemma inv_terminate_proxy:
  assumes "terminate_proxy p st = Done (st', sig)" "gonggo_inv st"
  shows "gonggo_inv st'"
proof -
  from assms(1) obtain st2 where
    k: "proxy_thread_kill p
        (st\<lparr>g_proxynames := client_proxyname_table_request_unsent p (g_proxynames st)\<rparr>) = Done (st2, sig)"
    and st': "st' = st2\<lparr>g_terminating := proxy_thread_terminating_drop p (g_terminating st2)\<rparr>"
    by (auto simp: terminate_proxy_def Let_def split: blocking.splits)
  have "gonggo_inv st2" by (rule inv_kill [OF k inv_unsent [OF assms(2)]])
  then show ?thesis
    unfolding st' by (intro inv_names) (auto simp: gonggo_inv_def names_ok_def zombies.ok_drop)
qed

lemma inv_notification:
  "gonggo_inv st \<Longrightarrow> gonggo_inv (client_proxy_alive_notification w p started st)"
  using same_tables_linked [OF same_tables_notification, of w p started st]
  by (simp add: gonggo_inv_def threads_linked_def names_ok_def)

lemma inv_alive_round:
  assumes "proxy_alive_round e ctx st = (ctx', st')" "ae_env e = id" "gonggo_inv st"
  shows "gonggo_inv st'"
proof -
  have "gonggo_inv (proxy_terminator_awake p
      (st\<lparr>g_terminating := proxy_thread_terminating_set p (g_terminating st)\<rparr>))" for p
    using assms(3) by (simp add: proxy_terminator_awake_def inv_names)
      (intro inv_names; auto simp: gonggo_inv_def names_ok_def zombies.ok_add)
  with assms show ?thesis
    by (auto simp: proxy_alive_round_def Let_def split: if_splits intro!: inv_notification)
qed

lemma inv_unlink_all: "gonggo_inv (unlink_all ps st) = gonggo_inv st"
  by (simp add: gonggo_inv_def tables_linked_def threads_linked_def names_ok_def)

lemma inv_wakeup: "gonggo_inv (channel_wakeup p st) = gonggo_inv st"
  by (simp add: gonggo_inv_def tables_linked_def threads_linked_def names_ok_def)

lemma inv_undo: "undo_activation sd st = ActDone (st', sig) \<Longrightarrow> gonggo_inv st \<Longrightarrow> gonggo_inv st'"
  by (auto simp: undo_activation_def Let_def inv_unlink_all split: if_splits)

lemma inv_conclude:
  assumes "conclude_activation env name s0 sd sig st = ActDone (r, st')" "gonggo_inv st"
  shows "gonggo_inv st'"
proof -
  have "gonggo_inv (channel_wakeup name
      (st\<lparr>g_terminate := proxy_terminate_array_set name (g_terminate st)\<rparr>))"
    unfolding inv_wakeup
    by (rule inv_names(2) [OF assms(2)])
      (use assms(2) in \<open>simp add: gonggo_inv_def names_ok_def terminates.ok_add\<close>)
  with assms show ?thesis
    by (auto simp: conclude_activation_def Let_def split: prod.splits if_splits
        activation_outcome.splits dest: inv_undo)
qed

lemma inv_activation:
  "proxy_activation env shm st = ActDone (r, st') \<Longrightarrow> gonggo_inv st \<Longrightarrow> gonggo_inv st'"
  by (auto simp: proxy_activation_def Let_def split: if_splits blocking.splits option.splits
      prod.splits intro: inv_conclude inv_kill)

lemma inv_register:
  assumes "gonggo_inv st"
  shows "gonggo_inv (register_proxy w name sd st)"
proof (cases "\<exists>sub ts chan tc al ta. sd_subscribe sd = Some (sub, Some ts) \<and>
    sd_channel sd = Some (chan, Some tc) \<and> sd_alive sd = Some (al, Some ta)")
  case True
  with assms show ?thesis
    by (auto simp: register_proxy_def Let_def split_beta subscribe_table_defs channel_table_defs
        alive_table_defs intro!: inv_notification)
      (auto simp: inv_wakeup inv_unlink_all gonggo_inv_def tables_linked_def threads_linked_def
        names_ok_def)
next
  case False
  with assms show ?thesis by (auto simp: register_proxy_def split: option.splits prod.splits)
qed

lemma inv_activator:
  "proxy_activator_round env e d shm st = ActDone (g, st') \<Longrightarrow> gonggo_inv st \<Longrightarrow> gonggo_inv st'"
  by (auto simp: proxy_activator_round_def split: if_splits activation_outcome.splits
      dest!: inv_activation dest: inv_register)

lemma inv_after_request:
  assumes "after_request r e ctx st = (alive, ctx', st')" "ce_env e = id" "gonggo_inv st"
  shows "gonggo_inv st'"
  using assms
  by (auto simp: after_request_def Let_def inv_unlink inv_sent split: if_splits)

lemma inv_post:
  assumes "proxy_channel_create_request w path text st = (len, st1)"
    "post_request r text len ctx st1 = (ctx', st')" "gonggo_inv st"
  shows "gonggo_inv st'"
  using assms
  by (auto simp: proxy_channel_create_request_def post_request_def Let_def gonggo_inv_def
      tables_linked_def threads_linked_def names_ok_def split: if_splits)

lemma inv_create_request:
  "proxy_channel_create_request w path text st = (len, st') \<Longrightarrow> gonggo_inv st \<Longrightarrow> gonggo_inv st'"
  by (auto simp: proxy_channel_create_request_def Let_def gonggo_inv_def tables_linked_def threads_linked_def
      names_ok_def split: if_splits)

lemma inv_update_channel: "gonggo_inv st \<Longrightarrow> gonggo_inv (update_channel p ctx (shm_unlink path st))"
  by (auto simp: update_channel_def shm_unlink_def proxy_channel_thread_table_get_def gonggo_inv_def
      tables_linked_def threads_linked_def names_ok_def split: option.splits)
    (metis not_None_eq)

section \<open>Every step keeps the invariant\<close>

lemma gonggo_inv_step: "gonggo_step st st' \<Longrightarrow> gonggo_inv st \<Longrightarrow> gonggo_inv st'"
proof (induction rule: gonggo_step.induct)
  case (message w uri opcode data c st st')
  then show ?case
    using threads_of_ok [OF threads_of_route, of w uri data c st st']
    by (auto simp: ws_data_handler_def gonggo_inv_def split: if_splits
        intro: linked_route db_ok_route)
next
  case (close w st c)
  then show ?case
    using threads_of_ok [OF threads_of_drop_conn, of w c st]
    by (simp add: ws_close_handler_def gonggo_inv_def linked_drop_conn db_drop_conn)
next
  case (sweep w st)
  then show ?case
    using threads_of_ok [OF threads_of_sweep, of w st]
    by (simp add: gonggo_inv_def linked_sweep db_ok_sweep)
next
  case (answer w segs p shm st state st')
  then show ?case
    using threads_of_ok [OF threads_of_exchange [OF answer(2)]]
    by (auto simp: gonggo_inv_def intro: linked_exchange db_ok_exchange)
next
  case (channel_terminate st p)
  then show ?case
    by (intro inv_names) (auto simp: gonggo_inv_def names_ok_def terminates.ok_drop)
next
  case (terminator st p queue st' sig)
  then show ?case using inv_terminate_proxy inv_names(3) by blast
next
  case (purge st ps fmt tz now overdue)
  then show ?case
    by (simp add: gonggo_inv_def tables_linked_def threads_linked_def names_ok_def db_ok_purge)
qed (blast intro: inv_post inv_after_request inv_alive_round inv_activator inv_create_request
    inv_update_channel)+

text \<open>The dispatcher is a system with an inductive invariant.\<close>

definition gonggo_init :: "gonggo \<Rightarrow> bool" where
  "gonggo_init st \<longleftrightarrow> (\<exists>name. st = initial_gonggo name)"

interpretation gonggo: invariant_system gonggo_init gonggo_step gonggo_inv
proof unfold_locales
  show "gonggo_inv s" if "gonggo_init s" for s
    using that gonggo_inv_initial by (auto simp: gonggo_init_def)
  show "gonggo_inv t" if "gonggo_inv s" "gonggo_step s t" for s t
    using that by (rule gonggo_inv_step [rotated])
qed

end
