(* ===== verification/Message_Verdict.thy ===== *)
theory Message_Verdict
  imports Table_Invariant
begin

text \<open>
  What \<open>client_service_route\<close> promises about a message, as a table: the checks in the order in which
  the code makes them, each with the status it answers, and the handler as "answer the first
  violation, otherwise acknowledge and act".
\<close>

section \<open>The fields of a message\<close>

definition msg_header :: "cjson \<Rightarrow> json \<Rightarrow> string \<Rightarrow> json option" where
  "msg_header J msg key = get_item J (cJSON_GetObjectItem J msg ''headers'') key"

definition msg_payload :: "cjson \<Rightarrow> json \<Rightarrow> json option" where
  "msg_payload J msg = cJSON_GetObjectItem J msg ''payload''"

definition msg_rid :: "cjson \<Rightarrow> json \<Rightarrow> uuid option" where
  "msg_rid J msg = get_string J (msg_header J msg ''rid'')"

definition msg_service :: "cjson \<Rightarrow> json \<Rightarrow> string option" where
  "msg_service J msg = get_string J (msg_header J msg ''service'')"

definition msg_proxy :: "cjson \<Rightarrow> json \<Rightarrow> pname option" where
  "msg_proxy J msg = get_string J (msg_header J msg ''proxy'')"

definition msg_timeout :: "cjson \<Rightarrow> json \<Rightarrow> time_t option" where
  "msg_timeout J msg = map_option (time_of_double \<circ> valuedouble J) (msg_header J msg ''timeout'')"

definition msg_dump_rid :: "cjson \<Rightarrow> json \<Rightarrow> uuid option" where
  "msg_dump_rid J msg = get_string J (get_item J (msg_payload J msg) ''rid'')"

definition msg_number :: "cjson \<Rightarrow> json \<Rightarrow> string \<Rightarrow> int" where
  "msg_number J msg key =
     (case get_item J (msg_payload J msg) key of None \<Rightarrow> 0 | Some item \<Rightarrow> valueint J item)"

lemmas msg_defs = msg_header_def msg_payload_def msg_rid_def msg_service_def msg_proxy_def
  msg_timeout_def msg_dump_rid_def msg_number_def

section \<open>The checks\<close>

abbreviation absent :: "string option \<Rightarrow> bool" where
  "absent s \<equiv> s = None \<or> s = Some []"

definition msg_checks :: "cjson \<Rightarrow> json \<Rightarrow> (bool \<times> uuid option \<times> ServiceStatus) list" where
  "msg_checks J msg =
     (let rid = msg_rid J msg; service = msg_service J msg; proxy = msg_proxy J msg;
          dump = (proxy = None \<and> service = Some ''responseDump'') in
      [(cJSON_GetObjectItem J msg ''headers'' = None, None, REQUEST_PARSE_STATUS_HEADERS_MISSING),
       (absent rid, None, REQUEST_PARSE_STATUS_RID_MISSING),
       (length (the rid) > 36, rid, REQUEST_PARSE_STATUS_RID_OVERLENGTH),
       (absent service, rid, REQUEST_PARSE_STATUS_SERVICE_MISSING),
       (service = Some ''gonggorequestdrop'', rid, REQUEST_PARSE_STATUS_SERVICE_RESERVED),
       (proxy = None \<and> service \<notin> {Some ''test'', Some ''responseDump''}, rid,
          REQUEST_PARSE_STATUS_GONGGO_SERVICE_INVALID),
       (dump \<and> msg_payload J msg = None, rid, REQUEST_PARSE_STATUS_PAYLOAD_MISSING),
       (dump \<and> (absent (msg_dump_rid J msg) \<or> msg_number J msg ''start'' < 1
                  \<or> msg_number J msg ''size'' < 1), rid, REQUEST_PARSE_STATUS_PAYLOAD_INVALID),
       (proxy \<noteq> None \<and> msg_timeout J msg = None, rid, REQUEST_PARSE_STATUS_TIMEOUT_MISSING),
       (proxy \<noteq> None \<and> the (msg_timeout J msg) <s 1, rid, REQUEST_PARSE_STATUS_TIMEOUT_INVALID)])"

fun first_violation :: "(bool \<times> 'r \<times> 's) list \<Rightarrow> ('r \<times> 's) option" where
  "first_violation [] = None"
| "first_violation ((violated, v) # checks) = (if violated then Some v else first_violation checks)"

lemma first_violation_None: "first_violation cs = None \<longleftrightarrow> (\<forall>(violated, _) \<in> set cs. \<not> violated)"
  by (induction cs rule: first_violation.induct) auto

text \<open>What an acceptable message makes gonggo do after the acknowledgement.\<close>

definition msg_action :: "world \<Rightarrow> json \<Rightarrow> conn \<Rightarrow> gonggo \<Rightarrow> gonggo option" where
  "msg_action w msg conn st =
     (let J = w_json w; rid = the (msg_rid J msg) in
      case msg_proxy J msg of
        Some proxy \<Rightarrow> Some (route_save w conn rid proxy (the (msg_service J msg)) (msg_payload J msg)
                        (the (msg_timeout J msg)) st)
      | None \<Rightarrow>
          if msg_service J msg = Some ''test'' then Some (gonggo_test w rid conn st)
          else gonggo_response_dump w rid conn (the (msg_dump_rid J msg)) (msg_number J msg ''start'')
                 (msg_number J msg ''size'') st)"

definition handle_message :: "world \<Rightarrow> json \<Rightarrow> conn \<Rightarrow> gonggo \<Rightarrow> gonggo option" where
  "handle_message w msg conn st =
     (case first_violation (msg_checks (w_json w) msg) of
        Some (rid, status) \<Rightarrow> Some (client_parsing_status_reply w conn rid status st)
      | None \<Rightarrow> msg_action w msg conn
          (client_parsing_status_reply w conn (msg_rid (w_json w) msg)
             REQUEST_PARSE_STATUS_ACKNOWLEDGED st))"

lemma handle_violated:
  "first_violation (msg_checks (w_json w) msg) = Some (ro, status) \<Longrightarrow>
     handle_message w msg conn st = Some (client_parsing_status_reply w conn ro status st)"
  by (simp add: handle_message_def)

lemma route_handles_no_headers:
  assumes "cJSON_GetObjectItem (w_json w) msg ''headers'' = None"
    and "g_path st = Some uri" "cJSON_Parse (w_json w) data = Some msg"
  shows "client_service_route w uri data conn st = handle_message w msg conn st"
proof -
  have "first_violation (msg_checks (w_json w) msg) = Some (None, REQUEST_PARSE_STATUS_HEADERS_MISSING)"
    using assms(1) by (simp add: msg_checks_def Let_def)
  with assms show ?thesis by (simp add: client_service_route_def handle_violated)
qed

lemma route_handles_rid:
  assumes "cJSON_GetObjectItem (w_json w) msg ''headers'' = Some headers"
    and "absent (msg_rid (w_json w) msg) \<or> length (the (msg_rid (w_json w) msg)) > 36"
    and "g_path st = Some uri" "cJSON_Parse (w_json w) data = Some msg"
  shows "client_service_route w uri data conn st = handle_message w msg conn st"
proof -
  have e: "get_string (w_json w) (cJSON_GetObjectItem (w_json w) headers ''rid'') =
      msg_rid (w_json w) msg"
    using assms(1) by (simp add: msg_rid_def msg_header_def get_item_def)
  show ?thesis
  proof (cases "absent (msg_rid (w_json w) msg)")
    case True
    then have "first_violation (msg_checks (w_json w) msg) = Some (None, REQUEST_PARSE_STATUS_RID_MISSING)"
      using assms(1) by (simp add: msg_checks_def Let_def)
    with True assms(1,3,4) e show ?thesis
      by (elim disjE) (simp_all add: client_service_route_def handle_violated)
  next
    case False
    with assms(2) obtain rid where r: "msg_rid (w_json w) msg = Some rid" "rid \<noteq> []" "length rid > 36"
      by auto
    then have "first_violation (msg_checks (w_json w) msg) =
        Some (Some rid, REQUEST_PARSE_STATUS_RID_OVERLENGTH)"
      using assms(1) by (simp add: msg_checks_def Let_def)
    moreover from r(2) have "\<not> length rid < 1" by (cases rid) auto
    ultimately show ?thesis
      using assms(1,3,4) e r by (simp add: client_service_route_def handle_violated Let_def UUIDBUFLEN_def)
  qed
qed

lemma route_handles_service:
  assumes "msg_rid (w_json w) msg = Some rid" "rid \<noteq> []" "length rid \<le> 36"
    and "cJSON_GetObjectItem (w_json w) msg ''headers'' = Some headers"
    and "absent (msg_service (w_json w) msg) \<or> msg_service (w_json w) msg = Some ''gonggorequestdrop''"
    and "g_path st = Some uri" "cJSON_Parse (w_json w) data = Some msg"
  shows "client_service_route w uri data conn st = handle_message w msg conn st"
proof -
  let ?s = "if absent (msg_service (w_json w) msg) then REQUEST_PARSE_STATUS_SERVICE_MISSING
    else REQUEST_PARSE_STATUS_SERVICE_RESERVED"
  have e: "get_string (w_json w) (cJSON_GetObjectItem (w_json w) headers ''rid'') = Some rid"
    "get_string (w_json w) (cJSON_GetObjectItem (w_json w) headers ''service'') =
      msg_service (w_json w) msg"
    using assms(1,4) by (simp_all add: msg_rid_def msg_service_def msg_header_def get_item_def)
  have l: "\<not> length rid < 1" using assms(2) by (cases rid) auto
  have v: "first_violation (msg_checks (w_json w) msg) = Some (Some rid, ?s)"
    using assms(1-4) assms(5)
    by (cases "absent (msg_service (w_json w) msg)") (simp_all add: msg_checks_def Let_def)
  show ?thesis
  proof (cases "absent (msg_service (w_json w) msg)")
    case True
    then have "first_violation (msg_checks (w_json w) msg) =
        Some (Some rid, REQUEST_PARSE_STATUS_SERVICE_MISSING)" using v by simp
    with True assms(3,4,6,7) e l show ?thesis
      by (elim disjE) (simp_all add: client_service_route_def handle_violated Let_def UUIDBUFLEN_def)
  next
    case False
    then have "first_violation (msg_checks (w_json w) msg) =
        Some (Some rid, REQUEST_PARSE_STATUS_SERVICE_RESERVED)"
      "msg_service (w_json w) msg = Some ''gonggorequestdrop''"
      using v assms(5) by auto
    with assms(3,4,6,7) e l show ?thesis
      by (simp add: client_service_route_def handle_violated Let_def UUIDBUFLEN_def
          GONGGOSERVICE_REQUEST_DROP_def)
  qed
qed

lemma route_handles_proxy:
  assumes "msg_rid (w_json w) msg = Some rid" "rid \<noteq> []" "length rid \<le> 36"
    and "cJSON_GetObjectItem (w_json w) msg ''headers'' = Some headers"
    and "msg_service (w_json w) msg = Some service" "service \<noteq> []" "service \<noteq> ''gonggorequestdrop''"
    and "msg_proxy (w_json w) msg = Some proxy"
    and "g_path st = Some uri" "cJSON_Parse (w_json w) data = Some msg"
  shows "client_service_route w uri data conn st = handle_message w msg conn st"
  using assms
  by (cases "cJSON_GetObjectItem (w_json w) headers ''timeout''")
    (auto simp: client_service_route_def handle_message_def msg_checks_def Let_def msg_rid_def
      msg_service_def msg_proxy_def msg_timeout_def msg_payload_def msg_header_def get_item_def
      msg_action_def UUIDBUFLEN_def GONGGOSERVICE_REQUEST_DROP_def)

lemma route_handles_gonggo:
  assumes "msg_rid (w_json w) msg = Some rid" "rid \<noteq> []" "length rid \<le> 36"
    and "cJSON_GetObjectItem (w_json w) msg ''headers'' = Some headers"
    and "msg_service (w_json w) msg = Some service" "service \<noteq> []" "service \<noteq> ''gonggorequestdrop''"
    and "msg_proxy (w_json w) msg = None" "service \<noteq> ''responseDump''"
    and "g_path st = Some uri" "cJSON_Parse (w_json w) data = Some msg"
  shows "client_service_route w uri data conn st = handle_message w msg conn st"
  using assms
  by (auto simp: client_service_route_def handle_message_def msg_checks_def Let_def msg_rid_def
      msg_service_def msg_proxy_def msg_header_def get_item_def
      msg_action_def UUIDBUFLEN_def GONGGOSERVICE_REQUEST_DROP_def)

lemma route_handles_dump:
  assumes "msg_rid (w_json w) msg = Some rid" "rid \<noteq> []" "length rid \<le> 36"
    and "cJSON_GetObjectItem (w_json w) msg ''headers'' = Some headers"
    and "msg_service (w_json w) msg = Some ''responseDump''" "msg_proxy (w_json w) msg = None"
    and "g_path st = Some uri" "cJSON_Parse (w_json w) data = Some msg"
  shows "client_service_route w uri data conn st = handle_message w msg conn st"
proof (cases "msg_payload (w_json w) msg")
  case None
  with assms show ?thesis
    by (simp add: client_service_route_def handle_message_def msg_checks_def Let_def msg_rid_def
      msg_service_def msg_proxy_def msg_header_def get_item_def msg_payload_def
      UUIDBUFLEN_def GONGGOSERVICE_REQUEST_DROP_def)
next
  case (Some p)
  with assms show ?thesis
    by (cases "get_string (w_json w) (cJSON_GetObjectItem (w_json w) p ''rid'')")
      (auto simp: client_service_route_def handle_message_def msg_checks_def Let_def msg_rid_def
      msg_service_def msg_proxy_def msg_header_def get_item_def msg_payload_def msg_dump_rid_def
      msg_number_def msg_action_def UUIDBUFLEN_def GONGGOSERVICE_REQUEST_DROP_def)
qed

lemma route_handles:
  assumes "g_path st = Some uri" "cJSON_Parse (w_json w) data = Some msg"
  shows "client_service_route w uri data conn st = handle_message w msg conn st"
proof (cases "cJSON_GetObjectItem (w_json w) msg ''headers'' = None \<or> absent (msg_rid (w_json w) msg) \<or>
    length (the (msg_rid (w_json w) msg)) > 36")
  case True
  then show ?thesis
    using route_handles_no_headers [OF _ assms] route_handles_rid [OF _ _ assms]
    by (cases "cJSON_GetObjectItem (w_json w) msg ''headers''") auto
next
  case False
  then obtain rid headers where r: "msg_rid (w_json w) msg = Some rid" "rid \<noteq> []" "length rid \<le> 36"
    "cJSON_GetObjectItem (w_json w) msg ''headers'' = Some headers" by auto
  show ?thesis
    using route_handles_service [OF r _ assms] route_handles_proxy [OF r _ _ _ _ assms]
      route_handles_gonggo [OF r _ _ _ _ _ assms] route_handles_dump [OF r _ _ assms]
    by (cases "msg_service (w_json w) msg"; cases "msg_proxy (w_json w) msg") auto
qed

section \<open>Properties\<close>

text \<open>C4: a message is judged by the checks of \<open>msg_checks\<close> in their order.  The first one violated
  gives one status message to the sender, with the request id where it is usable, and nothing else in
  gonggo changes; a message that violates none is acknowledged and acted upon.  Texts for another path
  and texts that are not JSON are ignored.\<close>

theorem message_answered_by_first_violation:
  "client_service_route w uri data conn st =
     (if g_path st \<noteq> Some uri then Some st
      else case cJSON_Parse (w_json w) data of
        None \<Rightarrow> Some st
      | Some msg \<Rightarrow>
          (case first_violation (msg_checks (w_json w) msg) of
             Some (rid, status) \<Rightarrow>
               Some (st\<lparr>g_sent := g_sent st @
                 [(conn, cJSON_PrintUnformatted (w_json w) (parsing_status_tree rid status))]\<rparr>)
           | None \<Rightarrow> msg_action w msg conn (st\<lparr>g_sent := g_sent st @
                 [(conn, cJSON_PrintUnformatted (w_json w)
                    (parsing_status_tree (msg_rid (w_json w) msg) REQUEST_PARSE_STATUS_ACKNOWLEDGED))]\<rparr>)))"
proof (cases "g_path st = Some uri")
  case True
  then show ?thesis
    using route_handles [OF True, of w data]
    by (cases "cJSON_Parse (w_json w) data")
      (simp_all add: client_service_route_def handle_message_def client_parsing_status_reply_def
        mg_websocket_write_def split: option.split)
qed (simp add: client_service_route_def)

text \<open>C5: a request for a proxy that violates no check is stored before the handler returns: under its
  id with the connection, the time and the timeout it asked for, in the array of its connection, with
  the text for the proxy, and as the last unsent entry of the proxy's queue unless the id was already
  there.  The channel thread of the proxy, if there is one, is signalled, and the only message sent is
  the acknowledgement.\<close>

theorem accepted_request_is_stored:
  assumes "tables_linked st" "g_path st = Some uri" "cJSON_Parse (w_json w) data = Some msg"
    and "first_violation (msg_checks (w_json w) msg) = None"
    and "msg_rid (w_json w) msg = Some rid" "msg_proxy (w_json w) msg = Some p"
    and "msg_service (w_json w) msg = Some svc" "msg_timeout (w_json w) msg = Some tmo"
  shows "\<exists>st'. client_service_route w uri data c st = Some st' \<and>
    ht_lookup (g_requests st') =
      (ht_lookup (g_requests st))(rid \<mapsto> \<lparr>rq_conn = c, rq_timestamp = w_now w, rq_timeoutsec = tmo\<rparr>) \<and>
    set (conn_rids (g_connections st') c) = insert rid (set (conn_rids (g_connections st) c)) \<and>
    ht_lookup (g_services st') = (ht_lookup (g_services st))
      (rid \<mapsto> client_service_table_service_payload_create (w_json w) svc (msg_payload (w_json w) msg)) \<and>
    pn_entries (g_proxynames st') = spec_set p rid (pn_entries (g_proxynames st)) \<and>
    g_wakeups st' = g_wakeups st @ (if ht_lookup (g_channels st) p = None then [] else [p]) \<and>
    g_sent st' = g_sent st @ [(c, cJSON_PrintUnformatted (w_json w)
      (parsing_status_tree (Some rid) REQUEST_PARSE_STATUS_ACKNOWLEDGED))]"
proof -
  note ok = linkedD [OF assms(1) [unfolded tables_linked_def]]
  have "client_service_route w uri data c st = Some (route_save w c rid p svc (msg_payload (w_json w) msg)
      tmo (client_parsing_status_reply w c (Some rid) REQUEST_PARSE_STATUS_ACKNOWLEDGED st))"
    using route_handles [OF assms(2,3)] assms(4-8) by (simp add: handle_message_def msg_action_def Let_def)
  then show ?thesis
    using ok
    by (auto simp: route_save_def Let_def pn_entries_set channel_table_defs fun_eq_iff
        client_parsing_status_reply_def mg_websocket_write_def split: option.splits)
qed

text \<open>A request to the service \<open>s\<close> of proxy \<open>p\<close> with a timeout of 30 seconds.\<close>

definition sample_request :: json where
  "sample_request = JObject [(''headers'', JObject
     [(''rid'', JString ''r1''), (''proxy'', JString ''p''), (''service'', JString ''s''),
      (''timeout'', JNumber 30)])]"

lemma sample_request_fields:
  "msg_rid (sample_cjson parse prnt) sample_request = Some ''r1''"
  "msg_proxy (sample_cjson parse prnt) sample_request = Some ''p''"
  "msg_service (sample_cjson parse prnt) sample_request = Some ''s''"
  "msg_timeout (sample_cjson parse prnt) sample_request = Some 30"
  "msg_payload (sample_cjson parse prnt) sample_request = None"
  "first_violation (msg_checks (sample_cjson parse prnt) sample_request) = None"
proof -
  show f: "msg_rid (sample_cjson parse prnt) sample_request = Some ''r1''"
    "msg_proxy (sample_cjson parse prnt) sample_request = Some ''p''"
    "msg_service (sample_cjson parse prnt) sample_request = Some ''s''"
    "msg_timeout (sample_cjson parse prnt) sample_request = Some 30"
    "msg_payload (sample_cjson parse prnt) sample_request = None"
    by (simp_all add: sample_request_def msg_defs get_item_def get_string_def find_member_def
        time_of_double_def c_trunc_def)
  show "first_violation (msg_checks (sample_cjson parse prnt) sample_request) = None"
    unfolding msg_checks_def f Let_def
    by (simp add: sample_request_def find_member_def word_sless_alt)
qed

theorem accepted_request_is_stored_witness:
  "\<exists>st'. client_service_route (sample_world (\<lambda>_. Some sample_request) (\<lambda>_. ''x'')) ''/g'' ''m'' 7
       (initial_gonggo ''g'') = Some st' \<and>
     ht_lookup (g_requests st') ''r1'' = Some \<lparr>rq_conn = 7, rq_timestamp = 1000, rq_timeoutsec = 30\<rparr>"
  using accepted_request_is_stored [of "initial_gonggo ''g''" "''/g''"
      "sample_world (\<lambda>_. Some sample_request) (\<lambda>_. ''x'')" "''m''" sample_request "''r1''" "''p''" "''s''" 30 7]
  by (auto simp: sample_request_fields initial_gonggo_def tables_linked_def linked_def)

end
