(* ===== verification/Connection_Close.thy ===== *)
theory Connection_Close
  imports Message_Verdict
begin

text \<open>
  What \<open>client_service_drop_conn\<close> achieves: the requests of the closed connection are forgotten, and
  each proxy that has a channel thread finds, in its queue, one drop request for each of them.
\<close>

section \<open>The private table of the first loop\<close>

lemma forget_table_mono:
  assumes "drop_conn_forget w arr tab st = (tab', st')" "proxyname_ok tab" "r \<in> pn_rids tab p"
  shows "r \<in> pn_rids tab' p"
  using assms
proof (induction arr arbitrary: tab st)
  case (Cons a arr)
  show ?case
    by (rule Cons.IH [OF Cons.prems(1) [simplified drop_conn_forget.simps Let_def]])
      (use Cons.prems in \<open>auto split: option.splits\<close>)
qed simp

lemma forget_table_complete:
  assumes "drop_conn_forget w arr tab st = (tab', st')" "proxyname_ok tab"
    "proxyname_ok (g_proxynames st)" "iter_order (w_names w)"
    "r \<in> set arr" "r \<in> pn_rids (g_proxynames st) p"
  shows "\<exists>q. r \<in> pn_rids tab' q \<and> r \<in> pn_rids (g_proxynames st) q"
  using assms(1,2,3,5,6)
proof (induction arr arbitrary: tab st)
  case (Cons a arr)
  let ?tab = "case client_proxyname_table_proxy_name_dup (w_names w) a (g_proxynames st) of
      None \<Rightarrow> tab | Some q \<Rightarrow> client_proxyname_table_set q a tab"
  let ?st = "st\<lparr>g_requests := client_request_table_remove a (g_requests st),
      g_services := client_service_table_remove a (g_services st),
      g_proxynames := client_proxyname_table_drop_all (w_names w) a (g_proxynames st)\<rparr>"
  have step: "drop_conn_forget w arr ?tab ?st = (tab', st')"
    using Cons.prems(1) by (simp add: Let_def)
  have tab: "proxyname_ok ?tab" using Cons.prems(2) by (simp split: option.split)
  show ?case
  proof (cases "r = a")
    case True
    then obtain q where
      q: "client_proxyname_table_proxy_name_dup (w_names w) a (g_proxynames st) = Some q"
      using proxy_name_dup_None [OF Cons.prems(3) assms(4), of a] Cons.prems(5) by fastforce
    have "r \<in> pn_rids ?tab q" using q True Cons.prems(2) by simp
    with forget_table_mono [OF step tab] proxy_name_dup_Some [OF Cons.prems(3) q] True
    show ?thesis by blast
  next
    case False
    have "\<exists>q. r \<in> pn_rids tab' q \<and> r \<in> pn_rids (g_proxynames ?st) q"
      by (rule Cons.IH [OF step tab]) (use False Cons.prems in auto)
    with False Cons.prems(3) show ?thesis by auto
  qed
qed simp

lemma forget_proxynames:
  assumes "drop_conn_forget w arr tab st = (tab', st')" "proxyname_ok (g_proxynames st)"
  shows "proxyname_ok (g_proxynames st') \<and>
    (\<forall>p. pn_rids (g_proxynames st') p \<subseteq> pn_rids (g_proxynames st) p)"
  using assms
proof (induction arr arbitrary: tab st)
  case (Cons a arr)
  have "proxyname_ok (client_proxyname_table_drop_all (w_names w) a (g_proxynames st))"
    using Cons.prems(2) by simp
  with Cons pn_rids_drop_all_subset [OF Cons.prems(2), of "w_names w" a] show ?case
    by (fastforce simp: Let_def)
qed simp

section \<open>The drop requests\<close>

text \<open>A drop request for \<open>r\<close> is queued at \<open>p\<close> under one of the first \<open>n\<close> generated ids.\<close>

definition drop_text :: "world \<Rightarrow> uuid \<Rightarrow> string" where
  "drop_text w r = client_service_table_service_payload_create (w_json w) ''gonggorequestdrop''
     (Some (JObject [(''rid'', JString r)]))"

definition drop_queued :: "world \<Rightarrow> nat \<Rightarrow> gonggo \<Rightarrow> pname \<Rightarrow> uuid \<Rightarrow> bool" where
  "drop_queued w n st p r \<longleftrightarrow>
     (\<exists>k < n. ht_lookup (g_services st) (w_uuid w k) = Some (drop_text w r) \<and>
        (w_uuid w k, False) \<in> set (pn_entries (g_proxynames st) p))"

definition fresh_from :: "world \<Rightarrow> nat \<Rightarrow> gonggo \<Rightarrow> bool" where
  "fresh_from w n st \<longleftrightarrow> proxyname_ok (g_proxynames st) \<and>
     (\<forall>k \<ge> n. \<forall>p. w_uuid w k \<notin> pn_rids (g_proxynames st) p)"

lemma queue_one:
  fixes p :: pname and r :: uuid
  assumes "inj (w_uuid w)" "fresh_from w n st"
  defines "st1 \<equiv> st\<lparr>g_services := client_service_table_set (w_json w) (w_uuid w n)
        GONGGOSERVICE_REQUEST_DROP (Some (JObject [(''rid'', JString r)])) (g_services st),
      g_proxynames := client_proxyname_table_set p (w_uuid w n) (g_proxynames st)\<rparr>"
  shows "fresh_from w (Suc n) st1" "drop_queued w (Suc n) st1 p r"
    "drop_queued w n st q s \<Longrightarrow> drop_queued w (Suc n) st1 q s"
proof -
  have ok: "proxyname_ok (g_proxynames st)" and new: "w_uuid w n \<notin> pn_rids (g_proxynames st) p"
    using assms(2) by (auto simp: fresh_from_def)
  have e: "pn_entries (g_proxynames st1) =
      (pn_entries (g_proxynames st))(p := pn_entries (g_proxynames st) p @ [(w_uuid w n, False)])"
    using new by (simp add: st1_def pn_entries_set [OF ok] spec_set_def pn_rids_def)
  show "fresh_from w (Suc n) st1"
    using assms(1,2) by (auto simp: fresh_from_def st1_def inj_eq)
  show "drop_queued w (Suc n) st1 p r"
    unfolding drop_queued_def e
    by (rule exI [of _ n]) (simp add: st1_def drop_text_def GONGGOSERVICE_REQUEST_DROP_def)
  assume "drop_queued w n st q s"
  then obtain k where "k < n" "ht_lookup (g_services st) (w_uuid w k) = Some (drop_text w s)"
    "(w_uuid w k, False) \<in> set (pn_entries (g_proxynames st) q)"
    by (auto simp: drop_queued_def)
  with assms(1) show "drop_queued w (Suc n) st1 q s"
    unfolding drop_queued_def e
    by (intro exI [of _ k]) (auto simp: st1_def inj_eq)
qed

lemma queue_all:
  assumes "drop_conn_queue w p rs n st = (n', st')" "inj (w_uuid w)" "fresh_from w n st"
  shows "fresh_from w n' st' \<and> (\<forall>r \<in> set rs. drop_queued w n' st' p r) \<and>
    (\<forall>q s. drop_queued w n st q s \<longrightarrow> drop_queued w n' st' q s)"
  using assms(1,3)
proof (induction rs arbitrary: n st)
  case (Cons r rs)
  let ?st = "st\<lparr>g_services := client_service_table_set (w_json w) (w_uuid w n)
        GONGGOSERVICE_REQUEST_DROP (Some (JObject [(''rid'', JString r)])) (g_services st),
      g_proxynames := client_proxyname_table_set p (w_uuid w n) (g_proxynames st)\<rparr>"
  note one = queue_one [OF assms(2) Cons.prems(2), where p = p and r = r]
  have "drop_conn_queue w p rs (Suc n) ?st = (n', st')" using Cons.prems(1) by (simp add: Let_def)
  from Cons.IH [OF this one(1)] one(2,3) show ?case by auto
qed simp

lemma wakeup_drop_queued [simp]:
  "drop_queued w n (channel_wakeup p st) q r = drop_queued w n st q r"
  "fresh_from w n (channel_wakeup p st) = fresh_from w n st"
  by (simp_all add: drop_queued_def fresh_from_def)

lemma notify_all:
  assumes "inj (w_uuid w)" "fresh_from w n st" "proxyname_ok tab"
  shows "\<exists>m. (\<forall>p r. drop_queued w n st p r \<longrightarrow> drop_queued w m (drop_conn_notify w tab ks n st) p r) \<and>
    (\<forall>p \<in> set ks. \<forall>r. ht_lookup (g_channels st) p \<noteq> None \<longrightarrow> r \<in> pn_rids tab p \<longrightarrow>
       drop_queued w m (drop_conn_notify w tab ks n st) p r \<and>
       p \<in> set (g_wakeups (drop_conn_notify w tab ks n st))) \<and>
    set (g_wakeups st) \<subseteq> set (g_wakeups (drop_conn_notify w tab ks n st))"
  using assms(2)
proof (induction ks arbitrary: n st)
  case (Cons p ks)
  show ?case
  proof (cases "ht_lookup (g_channels st) p = None \<or> ht_lookup tab p = None")
    case True
    then have e: "drop_conn_notify w tab (p # ks) n st = drop_conn_notify w tab ks n st"
      by (auto simp: channel_table_defs split: option.splits)
    have "ht_lookup (g_channels st) p = None \<or> pn_rids tab p = {}"
      using True by (auto simp: pn_rids_def pn_entries_def)
    with Cons.IH [OF Cons.prems] show ?thesis unfolding e by fastforce
  next
    case False
    then obtain e v where ev: "ht_lookup (g_channels st) p = Some e" "ht_lookup tab p = Some v"
      by auto
    obtain n1 st1 where q: "drop_conn_queue w p (request_uuids v) n st = (n1, st1)" by fastforce
    have e: "drop_conn_notify w tab (p # ks) n st =
        drop_conn_notify w tab ks n1 (channel_wakeup p st1)"
      using ev q by (simp add: channel_table_defs)
    note all = queue_all [OF q assms(1) Cons.prems]
    have rids: "pn_rids tab p = set (request_uuids v)"
      using ev assms(3) by (simp add: pn_rids_lookup)
    have "fresh_from w n1 (channel_wakeup p st1)" using all by simp
    from Cons.IH [OF this] obtain m where
      m: "\<And>p' r. drop_queued w n1 st1 p' r \<Longrightarrow>
            drop_queued w m (drop_conn_notify w tab ks n1 (channel_wakeup p st1)) p' r"
      "\<forall>p' \<in> set ks. \<forall>r. ht_lookup (g_channels st1) p' \<noteq> None \<longrightarrow> r \<in> pn_rids tab p' \<longrightarrow>
         drop_queued w m (drop_conn_notify w tab ks n1 (channel_wakeup p st1)) p' r \<and>
         p' \<in> set (g_wakeups (drop_conn_notify w tab ks n1 (channel_wakeup p st1)))"
      "set (g_wakeups st1) \<union> {p} \<subseteq> set (g_wakeups (drop_conn_notify w tab ks n1 (channel_wakeup p st1)))"
      by auto
    show ?thesis
      unfolding e
      by (rule exI [of _ m]) (use m all rids queue_frame(3,13) [OF q] in auto)
  qed
qed auto

lemma close_steps:
  assumes "client_connection_table_request_dup c (g_connections st) = Some arr"
    "drop_conn_forget w arr [] st = (tab, st1)"
  shows "ws_close_handler w c st =
    (let st2 = drop_conn_notify w tab (w_names w (ht_keys tab)) 0 st1
     in st2\<lparr>g_connections := client_connection_table_remove c (g_connections st2)\<rparr>)"
  using assms by (simp add: ws_close_handler_def client_service_drop_conn_def Let_def)

lemma linked_listed:
  assumes "tables_linked st" "ht_lookup (g_requests st) r = Some ctx"
  obtains arr p where
    "client_connection_table_request_dup (rq_conn ctx) (g_connections st) = Some arr" "r \<in> set arr"
    "r \<in> pn_rids (g_proxynames st) p"
proof -
  from assms have "r \<in> set (conn_rids (g_connections st) (rq_conn ctx))"
    "\<exists>p. r \<in> pn_rids (g_proxynames st) p" by (auto simp: tables_linked_def linked_def)
  then show thesis
    using that by (cases "ht_lookup (g_connections st) (rq_conn ctx)")
      (auto simp: request_dup_eq conn_rids_def)
qed

section \<open>Properties\<close>

text \<open>A state with one request of connection 7 at a proxy whose channel thread runs.\<close>

definition sample_state :: gonggo where
  "sample_state = (initial_gonggo ''g'')
     \<lparr>g_requests := [(''r1'', \<lparr>rq_conn = 7, rq_timestamp = 900, rq_timeoutsec = 30\<rparr>)],
      g_connections := [(7, [''r1''])], g_services := [(''r1'', ''text'')],
      g_proxynames := [(''p'', \<lparr>request_uuids = [''r1''], sents = [True]\<rparr>)],
      g_channels := [(''p'', \<lparr>te_thread = 1, te_ctx = proxy_channel_context_create ''p'' idle_channel_shm\<rparr>)]\<rparr>"

lemma sample_state_linked: "tables_linked sample_state"
  by (simp add: sample_state_def tables_linked_def linked_def ht_ok_def connection_ok_def
      proxyname_ok_def value_ok_def ht_lookup_def conn_rids_def pn_rids_def pn_entries_def
      initial_gonggo_def)


text \<open>C9: when a connection closes, each of its pending requests was queued at a proxy, and if that
  proxy has a channel thread it is told: a request to the reserved service \<open>gonggorequestdrop\<close>, with
  the id of the forgotten request as its payload, is queued unsent under a new id, and the thread is
  signalled.\<close>

theorem close_tells_proxies:
  assumes "tables_linked st" "world_ok w" "inj (w_uuid w)"
    and "\<And>k p. w_uuid w k \<notin> pn_rids (g_proxynames st) p"
    and "ht_lookup (g_requests st) r = Some ctx"
  shows "let st' = ws_close_handler w (rq_conn ctx) st in
    \<exists>p. r \<in> pn_rids (g_proxynames st) p \<and>
    (ht_lookup (g_channels st) p \<noteq> None \<longrightarrow>
       (\<exists>k. ht_lookup (g_services st') (w_uuid w k) = Some (drop_text w r) \<and>
            (w_uuid w k, False) \<in> set (pn_entries (g_proxynames st') p)) \<and>
       p \<in> set (g_wakeups st'))"
proof -
  obtain arr p0 where arr: "client_connection_table_request_dup (rq_conn ctx) (g_connections st) = Some arr"
    and r: "r \<in> set arr" "r \<in> pn_rids (g_proxynames st) p0"
    using linked_listed [OF assms(1,5)] .
  obtain tab st1 where f: "drop_conn_forget w arr [] st = (tab, st1)" by fastforce
  have ok: "proxyname_ok (g_proxynames st)" and ord: "iter_order (w_names w)"
    using assms(1,2) linkedD(4) by (auto simp: tables_linked_def world_ok_def)
  have tab: "proxyname_ok tab" by (rule forget_table_ok [OF f]) simp
  obtain q where q: "r \<in> pn_rids tab q" "r \<in> pn_rids (g_proxynames st) q"
    using forget_table_complete [OF f _ ok ord r] by auto
  have "fresh_from w 0 st1"
    using forget_proxynames [OF f ok] assms(4) by (auto simp: fresh_from_def)
  from notify_all [OF assms(3) this tab, of "w_names w (ht_keys tab)"] obtain m where
    m: "\<forall>p \<in> set (w_names w (ht_keys tab)). \<forall>r. ht_lookup (g_channels st1) p \<noteq> None \<longrightarrow>
       r \<in> pn_rids tab p \<longrightarrow>
       drop_queued w m (drop_conn_notify w tab (w_names w (ht_keys tab)) 0 st1) p r \<and>
       p \<in> set (g_wakeups (drop_conn_notify w tab (w_names w (ht_keys tab)) 0 st1))"
    by blast
  have "q \<in> set (w_names w (ht_keys tab))"
    using in_keys_if_rid [OF tab q(1)] iter_order_set [OF ord] by simp
  with m q forget_frame(2) [OF f] have "ht_lookup (g_channels st) q \<noteq> None \<Longrightarrow>
      drop_queued w m (drop_conn_notify w tab (w_names w (ht_keys tab)) 0 st1) q r \<and>
      q \<in> set (g_wakeups (drop_conn_notify w tab (w_names w (ht_keys tab)) 0 st1))" by simp
  then show ?thesis
    unfolding close_steps [OF arr f] Let_def
    by (intro exI [of _ q] conjI q impI) (auto simp: drop_queued_def)
qed

theorem close_tells_proxies_witness:
  "\<exists>k. ht_lookup (g_services (ws_close_handler (sample_world Map.empty (\<lambda>_. [])) 7 sample_state))
     (replicate (Suc k) CHR ''u'') = Some (drop_text (sample_world Map.empty (\<lambda>_. [])) ''r1'')"
proof -
  let ?w = "sample_world Map.empty (\<lambda>_. [])"
  have "inj (w_uuid ?w)" by (rule injI) (simp add: replicate_eq_replicate)
  moreover have "w_uuid ?w k \<notin> pn_rids (g_proxynames sample_state) p" for k p
    by (simp add: sample_state_def pn_rids_def pn_entries_def ht_lookup_def)
  moreover have "ht_lookup (g_requests sample_state) ''r1'' =
      Some \<lparr>rq_conn = 7, rq_timestamp = 900, rq_timeoutsec = 30\<rparr>"
    by (simp add: sample_state_def ht_lookup_def)
  ultimately obtain p where "''r1'' \<in> pn_rids (g_proxynames sample_state) p"
    and *: "ht_lookup (g_channels sample_state) p \<noteq> None \<longrightarrow>
      (\<exists>k. ht_lookup (g_services (ws_close_handler ?w 7 sample_state)) (w_uuid ?w k) =
         Some (drop_text ?w ''r1''))"
    using close_tells_proxies [OF sample_state_linked, of ?w "''r1''"] by (fastforce simp: Let_def)
  then have "p = ''p''"
    by (auto simp: sample_state_def pn_rids_def pn_entries_def ht_lookup_def split: if_splits)
  with * show ?thesis by (simp add: sample_state_def ht_lookup_def)
qed

end
