(* ===== verification/Client_Answers.thy ===== *)
theory Client_Answers
  imports Connection_Close
begin

text \<open>
  What clients receive: the notices of the timeout sweep, the answers of the proxies, and the
  notifications that a proxy came or went.
\<close>

section \<open>The sweep\<close>

definition expired_notice :: "world \<Rightarrow> request_table \<Rightarrow> uuid \<Rightarrow> conn \<times> string" where
  "expired_notice w reqs r =
     (rq_conn (the (ht_lookup reqs r)), cJSON_PrintUnformatted (w_json w) (expired_reply_tree r))"

lemma sent_expire_request:
  "ht_lookup (g_requests st) r = Some ctx \<Longrightarrow>
     g_sent (expire_request w r st) = g_sent st @ [expired_notice w (g_requests st) r]"
  by (simp add: expire_request_def client_service_expired_reply_def expired_notice_def Let_def)

lemma lookup_expire_fold:
  "ht_lookup (g_requests (fold (expire_request w) rs st)) r =
     (if r \<in> set rs then None else ht_lookup (g_requests st) r)"
  by (induction rs arbitrary: st) (auto simp: expire_request_fields)

lemma sent_expire_fold:
  assumes "distinct rs" "\<forall>r \<in> set rs. ht_lookup (g_requests st) r \<noteq> None"
  shows "g_sent (fold (expire_request w) rs st) =
    g_sent st @ map (expired_notice w (g_requests st)) rs"
  using assms
proof (induction rs arbitrary: st)
  case (Cons r rs)
  let ?st = "expire_request w r st"
  have "map (expired_notice w (g_requests ?st)) rs = map (expired_notice w (g_requests st)) rs"
    using Cons.prems(1) by (auto simp: expired_notice_def expire_request_fields)
  moreover have "\<forall>r' \<in> set rs. ht_lookup (g_requests ?st) r' \<noteq> None"
    using Cons.prems by (auto simp: expire_request_fields)
  ultimately show ?case
    using Cons by (auto simp: sent_expire_request)
qed simp

lemma lookup_expire_services:
  "ht_lookup (g_services (fold (expire_request w) rs st)) r =
     (if r \<in> set rs then None else ht_lookup (g_services st) r)"
  by (induction rs arbitrary: st) (auto simp: expire_request_fields)

section \<open>Answers\<close>

text \<open>What one reply sends: to the connection of the request, if the request is known.\<close>

definition answer_message ::
    "world \<Rightarrow> request_table \<Rightarrow> json \<Rightarrow> json option \<Rightarrow> uuid \<Rightarrow> (conn \<times> string) list" where
  "answer_message w reqs headers payload r =
     (case ht_lookup reqs r of
        None \<Rightarrow> []
      | Some ctx \<Rightarrow> [(rq_conn ctx, cJSON_PrintUnformatted (w_json w)
                        (service_reply_tree (w_json w) r headers payload))])"

lemma sent_subscribe_reply:
  "g_sent (proxy_subscribe_reply w p r h pl rm st) =
     g_sent st @ answer_message w (g_requests st) h pl r"
  by (auto simp: proxy_subscribe_reply_def client_service_reply_def answer_message_def Let_def
      split_beta split: option.split)

lemma requests_subscribe_reply:
  "ht_lookup (g_requests (proxy_subscribe_reply w p r h pl rm st)) r' =
     (if r' = r
      then if rm then None else map_option (rq_timestamp_update (\<lambda>_. w_now w)) (ht_lookup (g_requests st) r)
      else ht_lookup (g_requests st) r')"
  by (cases rm) (auto simp: proxy_subscribe_reply_def Let_def split_beta)

lemma tables_subscribe_reply:
  "g_services (proxy_subscribe_reply w p r h pl rm st) =
     (if rm then client_service_table_remove r (g_services st) else g_services st)"
  "g_proxynames (proxy_subscribe_reply w p r h pl rm st) =
     (if rm then snd (client_proxyname_table_drop p r (g_proxynames st)) else g_proxynames st)"
  "g_connections (proxy_subscribe_reply w p r h pl rm st) =
     (if rm then connection_drop_ptr (map_option rq_conn (ht_lookup (g_requests st) r)) r (g_connections st)
      else g_connections st)"
  by (simp_all add: proxy_subscribe_reply_def Let_def split_beta)

lemma answer_message_other:
  assumes "r' \<noteq> r"
  shows "answer_message w (g_requests (proxy_subscribe_reply w p r h pl rm st)) h' pl' r' =
    answer_message w (g_requests st) h' pl' r'"
  using assms by (simp add: answer_message_def requests_subscribe_reply)

lemma reply_array_effect:
  assumes "cjson_reads (w_json w)" "distinct rs"
  shows "\<exists>st'. reply_array w p (map JString rs) h pl rm st = Some st' \<and>
    g_sent st' = g_sent st @ concat (map (answer_message w (g_requests st) h pl) rs) \<and>
    (\<forall>r. ht_lookup (g_requests st') r =
      (if r \<in> set rs
       then if rm then None else map_option (rq_timestamp_update (\<lambda>_. w_now w)) (ht_lookup (g_requests st) r)
       else ht_lookup (g_requests st) r)) \<and>
    (\<forall>r. ht_lookup (g_services st') r =
      (if rm \<and> r \<in> set rs then None else ht_lookup (g_services st) r))"
  using assms(2)
proof (induction rs arbitrary: st)
  case (Cons r rs)
  let ?st = "proxy_subscribe_reply w p r h pl rm st"
  have v: "cJSON_GetStringValue (w_json w) (JString r) = Some r"
    using assms(1) by (simp add: cJSON_GetStringValue_def cjson_reads_def)
  have "map (answer_message w (g_requests ?st) h pl) rs = map (answer_message w (g_requests st) h pl) rs"
    using Cons.prems by (auto intro!: answer_message_other)
  with Cons.IH [of ?st] Cons.prems v show ?case
    by (auto simp: sent_subscribe_reply requests_subscribe_reply tables_subscribe_reply)
qed simp

section \<open>Notifications\<close>

lemma lookup_notification_groups:
  "ht_lookup (notification_groups now reqs rs t) c =
     (let new = filter (\<lambda>r. map_option rq_conn (ht_lookup reqs r) = Some c) rs
      in if new = [] then ht_lookup t c
         else Some (fold array_add new (conn_rids t c)))"
proof (induction rs arbitrary: t)
  case (Cons r rs)
  then show ?case
  proof (cases "ht_lookup reqs r")
    case (Some ctx)
    have "ht_lookup (client_connection_table_set (rq_conn ctx) r t) c =
        (if c = rq_conn ctx then Some (array_add r (conn_rids t c)) else ht_lookup t c)"
      by (auto simp: client_connection_table_set_def conn_rids_def array_add_def split: option.splits
          dest: ptr_find_SomeD)
    with Cons Some show ?thesis by (auto simp: Let_def)
  qed (simp add: Let_def)
qed simp

lemma fold_array_add_distinct:
  "distinct (xs @ ys) \<Longrightarrow> fold array_add ys xs = xs @ ys"
proof (induction ys arbitrary: xs)
  case (Cons y ys)
  then have "array_add y xs = xs @ [y]" by (auto simp: array_add_def split: option.splits dest: ptr_find_SomeD)
  with Cons show ?case by simp
qed simp

lemma sent_notification_loop:
  "g_sent (notification_loop w p started t cs st) =
     g_sent st @ concat (map (\<lambda>c. case ht_lookup t c of None \<Rightarrow> []
       | Some arr \<Rightarrow> [(c, cJSON_PrintUnformatted (w_json w) (alive_notification_tree p arr started))]) cs)"
  by (induction cs arbitrary: st)
    (auto simp: client_proxy_alive_notification_do_def split: option.split)

lemma ht_ok_notification_groups: "ht_ok t \<Longrightarrow> ht_ok (notification_groups now reqs rs t)"
  by (induction rs arbitrary: t)
    (auto simp: client_connection_table_set_def split: option.splits)

text \<open>The pending requests of connection \<open>c\<close> at proxy \<open>p\<close>, in queue order.\<close>

definition pending_of :: "gonggo \<Rightarrow> pname \<Rightarrow> conn \<Rightarrow> uuid list" where
  "pending_of st p c =
     filter (\<lambda>r. map_option rq_conn (ht_lookup (g_requests st) r) = Some c)
       (map fst (pn_entries (g_proxynames st) p))"

lemma notification_messages:
  fixes w :: world and p :: pname
  assumes "proxyname_ok (g_proxynames st)"
  defines "groups \<equiv> notification_groups (w_now w) (g_requests st)
      (map fst (pn_entries (g_proxynames st) p)) []"
  shows "g_sent (client_proxy_alive_notification w p started st) =
      g_sent st @ map (\<lambda>c. (c, cJSON_PrintUnformatted (w_json w)
        (alive_notification_tree p (pending_of st p c) started))) (w_conns w (ht_keys groups)) \<or>
    \<not> iter_order (w_conns w)"
    and "ht_ok groups" and "c \<in> set (ht_keys groups) \<longleftrightarrow> pending_of st p c \<noteq> []"
proof -
  have d: "distinct (map fst (pn_entries (g_proxynames st) p))"
    using proxyname_okD [OF assms(1), of p]
    by (simp add: pn_entries_def split: option.split)
  have look: "ht_lookup groups c =
      (if pending_of st p c = [] then None else Some (pending_of st p c))" for c
    using fold_array_add_distinct [of "[]" "pending_of st p c"] d
    by (simp add: groups_def lookup_notification_groups pending_of_def Let_def conn_rids_def)
  then show keys: "c \<in> set (ht_keys groups) \<longleftrightarrow> pending_of st p c \<noteq> []" for c
    by (simp add: ht_keys_lookup)
  show "ht_ok groups" by (simp add: groups_def ht_ok_notification_groups)
  have arr: "(case client_proxyname_table_request_dup p False (g_proxynames st) of
      None \<Rightarrow> [] | Some a \<Rightarrow> a) = map fst (pn_entries (g_proxynames st) p)"
    by (simp add: request_dup_entries [OF assms(1)] split_beta)
  have "concat (map (\<lambda>c. case ht_lookup groups c of None \<Rightarrow> []
       | Some arr \<Rightarrow> [(c, cJSON_PrintUnformatted (w_json w) (alive_notification_tree p arr started))]) cs) =
     map (\<lambda>c. (c, cJSON_PrintUnformatted (w_json w)
        (alive_notification_tree p (pending_of st p c) started))) cs"
    if "set cs \<subseteq> set (ht_keys groups)" for cs
    using that by (induction cs) (auto simp: look keys)
  then show "g_sent (client_proxy_alive_notification w p started st) =
      g_sent st @ map (\<lambda>c. (c, cJSON_PrintUnformatted (w_json w)
        (alive_notification_tree p (pending_of st p c) started))) (w_conns w (ht_keys groups)) \<or>
    \<not> iter_order (w_conns w)"
    by (auto simp: client_proxy_alive_notification_def Let_def arr sent_notification_loop
        groups_def [symmetric] iter_order_set)
qed

section \<open>Properties\<close>

text \<open>C16: a sweep sends one expiry notice for each expired request, to the connection that submitted
  it, forgets these requests together with the texts for their proxies, and leaves all other requests
  as they are.\<close>

theorem sweep_notifies_and_forgets:
  assumes "world_ok w" "tables_linked st"
  shows "let rs = client_request_table_expired (w_names w) (w_now w) (g_requests st);
             st' = client_timeout_sweep w st in
    g_sent st' = g_sent st @ map (expired_notice w (g_requests st)) rs \<and>
    (\<forall>r. ht_lookup (g_requests st') r =
       (case ht_lookup (g_requests st) r of
          None \<Rightarrow> None
        | Some ctx \<Rightarrow> if request_expired (w_now w) ctx then None else Some ctx)) \<and>
    (\<forall>r. ht_lookup (g_services st') r =
       (if r \<in> set rs then None else ht_lookup (g_services st) r))"
proof -
  let ?rs = "client_request_table_expired (w_names w) (w_now w) (g_requests st)"
  have o: "iter_order (w_names w)" "ht_ok (g_requests st)"
    using assms linkedD(1) by (auto simp: world_ok_def tables_linked_def)
  have "\<forall>r \<in> set ?rs. ht_lookup (g_requests st) r \<noteq> None"
    by (auto simp: set_expired [OF o(1)])
  from sent_expire_fold [OF distinct_expired [OF o] this]
  show ?thesis
    by (auto simp: Let_def client_timeout_sweep_def lookup_expire_fold lookup_expire_services
        set_expired [OF o(1)] split: option.splits)
qed

theorem sweep_notifies_and_forgets_witness:
  "ht_lookup (g_requests (client_timeout_sweep (sample_world Map.empty (\<lambda>_. [])) sample_state)) ''r1'' =
     None"
  using sweep_notifies_and_forgets [OF sample_world_ok sample_state_linked]
  by (simp add: Let_def sample_state_def ht_lookup_def request_expired_def word_sless_alt)


text \<open>An answer to \<open>r1\<close>, in the segment \<open>a1\<close>.\<close>

definition sample_answer :: json where
  "sample_answer = JObject [(''rid'', JString ''r1''), (''headers'', JObject [])]"

definition sample_answer_shm :: ProxySubscribeShm where
  "sample_answer_shm = \<lparr>ss_state = SUBSCRIBE_ANSWER, ss_aid = ''a1'', ss_payload_buff_length = 5,
     ss_remove_request = True\<rparr>"


text \<open>When a proxy comes or goes, each connection with pending requests at the proxy gets one
  notification, which lists exactly these requests in the order they were queued; nobody else gets
  one.\<close>

theorem notification_per_connection:
  assumes "world_ok w" "tables_linked st"
  shows "\<exists>msgs. g_sent (client_proxy_alive_notification w p started st) = g_sent st @ msgs \<and>
    distinct (map fst msgs) \<and>
    (\<forall>c s. (c, s) \<in> set msgs \<longleftrightarrow> pending_of st p c \<noteq> [] \<and>
       s = cJSON_PrintUnformatted (w_json w) (alive_notification_tree p (pending_of st p c) started))"
proof -
  let ?groups = "notification_groups (w_now w) (g_requests st)
      (map fst (pn_entries (g_proxynames st) p)) []"
  have ok: "proxyname_ok (g_proxynames st)" and ord: "iter_order (w_conns w)"
    using assms linkedD(4) by (auto simp: world_ok_def tables_linked_def)
  note msgs = notification_messages [OF ok, where w = w and p = p]
  have "distinct (w_conns w (ht_keys ?groups))"
    using iter_order_distinct [OF ord] ht_keys_distinct [OF msgs(2)] by simp
  then show ?thesis
    using msgs(1,3) ord iter_order_set [OF ord]
    by (intro exI [of _ "map (\<lambda>c. (c, cJSON_PrintUnformatted (w_json w)
        (alive_notification_tree p (pending_of st p c) started))) (w_conns w (ht_keys ?groups))"])
      (auto simp: o_def image_iff)
qed

theorem notification_per_connection_witness:
  "\<exists>msgs. g_sent (client_proxy_alive_notification (sample_world Map.empty (\<lambda>_. ''x'')) ''p'' True sample_state) =
     msgs \<and> (7, ''x'') \<in> set msgs"
  using notification_per_connection [OF sample_world_ok sample_state_linked,
      of Map.empty "\<lambda>_. ''x''" "''p''" True]
  by (auto simp: pending_of_def sample_state_def pn_entries_def ht_lookup_def initial_gonggo_def)

end
