(* ===== verification/Channel_Guarantees.thy ===== *)
theory Channel_Guarantees
  imports Proxy_Channel Connection_Close
begin

text \<open>
  What the channel thread of a proxy guarantees: which requests it hands over, in which order, which
  of them it marks as sent, and where it keeps the mutex of the segment.
\<close>

section \<open>Handing over\<close>

text \<open>The unsent requests of a proxy that have a text, as they are handed over.\<close>

definition handover :: "service_table \<Rightarrow> pname \<Rightarrow> uuid list \<Rightarrow> (pname \<times> uuid \<times> string) list" where
  "handover svcs p rs =
     List.map_filter (\<lambda>r. map_option (\<lambda>s. (p, r, s)) (ht_lookup svcs r)) rs"

lemma handover_Cons:
  "handover svcs p (r # rs) =
     (case ht_lookup svcs r of None \<Rightarrow> [] | Some s \<Rightarrow> [(p, r, s)]) @ handover svcs p rs"
  by (simp add: handover_def map_filter_simps split: option.split)

definition unsent_rids :: "proxyname_table \<Rightarrow> pname \<Rightarrow> uuid list" where
  "unsent_rids t p = map fst (filter (\<lambda>(_, sent). \<not> sent) (pn_entries t p))"

text \<open>\<open>st'\<close> is \<open>st\<close> with the flags of the requests \<open>got\<close> of proxy \<open>p\<close> set.\<close>

definition marked :: "pname \<Rightarrow> uuid set \<Rightarrow> gonggo \<Rightarrow> gonggo \<Rightarrow> bool" where
  "marked p got st st' \<longleftrightarrow>
     pn_entries (g_proxynames st') =
       (pn_entries (g_proxynames st))(p := map (\<lambda>(x, b). (x, b \<or> x \<in> got)) (pn_entries (g_proxynames st) p))"

lemma marked_refl [simp]: "marked p {} st st"
  by (simp add: marked_def split_beta)

lemma marked_trans: "marked p d1 st st1 \<Longrightarrow> marked p d2 st1 st2 \<Longrightarrow> marked p (d1 \<union> d2) st st2"
  by (auto simp: marked_def)

lemma wake_name [simp]:
  "cc_proxy_name (wake_shm e ctx) = cc_proxy_name ctx"
  "cc_proxy_name (shm_unlock ctx) = cc_proxy_name ctx"
  "cc_proxy_name (set_state s ctx) = cc_proxy_name ctx"
  by (simp_all add: wake_shm_def shm_unlock_def set_state_def)

lemma held_simps [simp]:
  "chan_held (wake_shm e ctx)" "\<not> chan_held (shm_unlock ctx)"
  "chan_held (set_state s ctx) = chan_held ctx" "chan_state (set_state s ctx) = s"
  "chan_state (shm_unlock ctx) = chan_state ctx"
  by (simp_all add: wake_shm_def shm_unlock_def set_state_def)

lemma idle_wait_frame:
  assumes "proxy_channel_idle_wait ctx events st = Done (idle, ctx', events', st')"
    and "\<forall>e \<in> set events. ce_env e = id"
  shows "st' = st" "cc_proxy_name ctx' = cc_proxy_name ctx" "set events' \<subseteq> set events"
  using assms
  by (auto simp: proxy_channel_idle_wait_def Let_def split: list.splits if_splits)

lemma idle_wait_held:
  "proxy_channel_idle_wait ctx events st = Done (idle, ctx', events', st') \<Longrightarrow> chan_held ctx'"
  by (auto simp: proxy_channel_idle_wait_def Let_def split: list.splits if_splits)

lemma create_request_frame:
  assumes "proxy_channel_create_request w path body st = (len, st')"
  shows "g_services st' = g_services st" "g_proxynames st' = g_proxynames st"
    "g_handed st' = g_handed st"
    "w_shm_open w path \<Longrightarrow> w_mmap w path \<Longrightarrow> len = length body + 1"
  using assms by (auto simp: proxy_channel_create_request_def split: if_splits)

lemma after_request_frame:
  assumes "after_request r e ctx st = (alive, ctx', st')" "ce_env e = id"
    "proxyname_ok (g_proxynames st)"
  shows "g_services st' = g_services st" "g_handed st' = g_handed st"
    "cc_proxy_name ctx' = cc_proxy_name ctx" "proxyname_ok (g_proxynames st')" "\<not> chan_held ctx'"
  using assms
  by (simp_all add: after_request_def Let_def shm_unlink_def split: if_splits) auto

lemma after_request_marked:
  assumes "after_request r e ctx st = (alive, ctx', st')" "ce_env e = id"
    "proxyname_ok (g_proxynames st)"
  shows "\<exists>got \<subseteq> {r}. marked (cc_proxy_name ctx) got st st'"
proof -
  have "g_proxynames st' = g_proxynames st \<or>
      g_proxynames st' = client_proxyname_table_request_sent (cc_proxy_name ctx) r (g_proxynames st)"
    using assms(1,2) by (simp add: after_request_def Let_def shm_unlink_def split: if_splits) auto
  then have "marked (cc_proxy_name ctx) {} st st' \<or> marked (cc_proxy_name ctx) {r} st st'"
    by (auto simp: marked_def pn_entries_sent [OF assms(3)] spec_sent_def split_beta)
  then show ?thesis by blast
qed

lemma exchange_loop_handover:
  assumes "exchange_loop w ctx rs events st = Done (alive, ctx', events', st')"
    and "\<forall>e \<in> set events. ce_env e = id" "\<And>p. w_shm_open w p \<and> w_mmap w p"
    and "proxyname_ok (g_proxynames st)"
  shows "\<exists>k got. k \<le> length (handover (g_services st) (cc_proxy_name ctx) rs) \<and>
    g_handed st' = g_handed st @ take k (handover (g_services st) (cc_proxy_name ctx) rs) \<and>
    (alive \<longrightarrow> k = length (handover (g_services st) (cc_proxy_name ctx) rs)) \<and>
    got \<subseteq> (\<lambda>(_, r, _). r) ` set (take k (handover (g_services st) (cc_proxy_name ctx) rs)) \<and>
    marked (cc_proxy_name ctx) got st st'"
  using assms(1,2,4)
proof (induction rs arbitrary: ctx events st)
  case Nil
  then show ?case by (auto simp: handover_def map_filter_simps intro: exI [of _ "{}"])
next
  case (Cons r rs)
  show ?case
  proof (cases "ht_lookup (g_services st) r")
    case None
    with Cons show ?thesis by (simp add: handover_Cons)
  next
    case (Some body)
    let ?hs = "handover (g_services st) (cc_proxy_name ctx) rs"
    obtain idle ctx1 events1 st1 where
      i: "proxy_channel_idle_wait ctx events st = Done (idle, ctx1, events1, st1)"
      using Cons.prems(1) Some by (cases "proxy_channel_idle_wait ctx events st") auto
    note fr = idle_wait_frame [OF i Cons.prems(2)]
    show ?thesis
    proof (cases idle)
      case False
      with Cons.prems(1) Some i fr have "st' = st" "\<not> alive" by auto
      then show ?thesis by (auto intro!: exI [of _ 0] exI [of _ "{}"])
    next
      case True
      obtain len st2 where c: "proxy_channel_create_request w (payload_path r) body st = (len, st2)"
        by fastforce
      note cf = create_request_frame [OF c]
      have len: "\<not> len < 1" using cf(4) assms(3) by simp
      obtain ctx2 st3 where p: "post_request r body len ctx1 st2 = (ctx2, st3)" by fastforce
      have pf: "cc_proxy_name ctx2 = cc_proxy_name ctx" "g_services st3 = g_services st"
        "g_proxynames st3 = g_proxynames st" "g_handed st3 = g_handed st @ [(cc_proxy_name ctx, r, body)]"
        using p cf fr by (auto simp: post_request_def)
      from Cons.prems(1) Some i True c len p fr(1) obtain e events2 where
        ev: "events1 = e # events2" by (cases events1) auto
      obtain a ctx3 st4 where ar: "after_request r e ctx2 st3 = (a, ctx3, st4)"
        by (cases "after_request r e ctx2 st3") auto
      have env: "ce_env e = id" "\<forall>e \<in> set events2. ce_env e = id"
      proof -
        have "e \<in> set events" "set events2 \<subseteq> set events" using ev fr(3) by auto
        with Cons.prems(2) show "ce_env e = id" "\<forall>e \<in> set events2. ce_env e = id" by blast+
      qed
      note af = after_request_frame [OF ar env(1), unfolded pf, OF Cons.prems(3)]
      from after_request_marked [OF ar env(1)] Cons.prems(3) pf obtain d where d: "d \<subseteq> {r}" "marked (cc_proxy_name ctx) d st3 st4" by auto
      then have d': "marked (cc_proxy_name ctx) d st st4" by (simp add: marked_def pf)
      have res: "(if a then exchange_loop w ctx3 rs events2 st4
          else Done (False, ctx3, events2, st4)) = Done (alive, ctx', events', st')"
        using Cons.prems(1) Some i True c len p fr(1) ev ar by simp
      show ?thesis
      proof (cases a)
        case False
        with res af(2) d d' Some show ?thesis
          by (intro exI [of _ 1] exI [of _ d]) (auto simp: handover_Cons)
      next
        case True
        with res have "exchange_loop w ctx3 rs events2 st4 = Done (alive, ctx', events', st')" by simp
        from Cons.IH [OF this env(2) af(4)] obtain k dn where
          k: "k \<le> length ?hs" "g_handed st' = g_handed st4 @ take k ?hs" "alive \<longrightarrow> k = length ?hs"
          "dn \<subseteq> (\<lambda>(_, r, _). r) ` set (take k ?hs)" "marked (cc_proxy_name ctx) dn st4 st'"
          by (auto simp: af(1,3))
        have "marked (cc_proxy_name ctx) (d \<union> dn) st st'" by (rule marked_trans [OF d' k(5)])
        with k d(1) af(2) Some show ?thesis
          by (intro exI [of _ "Suc k"] exI [of _ "d \<union> dn"]) (auto simp: handover_Cons)
      qed
    qed
  qed
qed

section \<open>Properties\<close>



text \<open>A REST call that waits in vain for the idle state, because the proxy died or terminated,
  answers that the proxy is out of service without unlocking the mutex of the segment.  The calling
  thread is one of the web server's and lives on, so \<open>proxy_channel_stop\<close>, which the terminator and
  the next activation of the proxy call, waits for a mutex that nobody releases.\<close>

theorem failed_rest_call_keeps_mutex:
  assumes "proxy_channel_idle_wait ctx events st = Done (False, ctx', events', st')"
  shows "proxy_channel_rest w segs ctx endpoint payload events st =
      Done (Some (rest_error ''proxy is out of service'', ctx', st')) \<and>
    chan_held ctx' \<and> proxy_channel_stop ctx' = Blocked"
  using idle_wait_held [OF assms] assms by (simp add: proxy_channel_stop_def proxy_channel_rest_def)

theorem failed_rest_call_keeps_mutex_witness:
  "\<exists>ctx'. proxy_channel_rest (sample_world Map.empty (\<lambda>_. [])) Map.empty
       (proxy_channel_context_create ''p'' idle_channel_shm) ''e'' None
       [\<lparr>ce_owner_dead = False, ce_shm = idle_channel_shm\<lparr>cs_state := CHANNEL_TERMINATION\<rparr>, ce_env = id\<rparr>]
       sample_state = Done (Some (rest_error ''proxy is out of service'', ctx', sample_state)) \<and>
     proxy_channel_stop ctx' = Blocked"
proof -
  let ?e = "\<lparr>ce_owner_dead = False,
      ce_shm = idle_channel_shm\<lparr>cs_state := CHANNEL_TERMINATION\<rparr>, ce_env = id\<rparr>"
  have "proxy_channel_idle_wait (proxy_channel_context_create ''p'' idle_channel_shm) [?e] sample_state =
      Done (False, (proxy_channel_context_create ''p'' idle_channel_shm)
        \<lparr>cc_shm := idle_channel_shm\<lparr>cs_state := CHANNEL_TERMINATION, cs_held := True\<rparr>\<rparr>, [], sample_state)"
    by (simp add: proxy_channel_idle_wait_def wake_shm_def)
  from failed_rest_call_keeps_mutex [OF this] show ?thesis by blast
qed

text \<open>C38: a REST call that finds the proxy idle ends with the mutex released and its request segment
  gone, and gonggo's tables are as before; if the proxy died while it worked the answer is an error
  500, and if the proxy left the segment in any other state than an answer the code is 0 and there is
  neither a text nor an error.\<close>

theorem rest_call_cleans_up:
  assumes "\<forall>e \<in> set events. ce_env e = id" "ht_lookup (g_segments st) (payload_path (w_uuid w 0)) = None"
    and "rest_exchange w segs ctx endpoint payload events st = Done (Some (r, ctx', st'))"
  shows "\<not> chan_held ctx' \<and> ht_lookup (g_segments st') (payload_path (w_uuid w 0)) = None \<and>
    same_tables (st'\<lparr>g_segments := g_segments st\<rparr>) st \<and>
    (w_shm_open w (payload_path (w_uuid w 0)) \<and> w_mmap w (payload_path (w_uuid w 0)) \<longrightarrow>
      events \<noteq> [] \<and>
      (ce_owner_dead (hd events) \<longrightarrow> rr_code r = 500 \<and> rr_json r = None) \<and>
      (\<not> ce_owner_dead (hd events) \<and> cs_state (ce_shm (hd events)) \<noteq> CHANNEL_REST_RESPOND \<longrightarrow>
         rr_code r = 0 \<and> rr_err r = None \<and> rr_json r = None))"
proof -
  have wake: "chan_state (wake_shm e c) = cs_state (ce_shm e)" for e c by (simp add: wake_shm_def)
  have env: "ce_env (hd events) = id" if "events \<noteq> []" using assms(1) that by simp
  show ?thesis
  proof (cases events)
    case Nil
    with assms(2,3) show ?thesis
      by (auto simp: rest_exchange_def Let_def proxy_channel_create_request_def same_tables_def
          split: if_splits)
  next
    case (Cons e es)
    with env have "ce_env e = id" by simp
    with assms(2,3) Cons show ?thesis
      by (auto simp: rest_exchange_def Let_def proxy_channel_create_request_def same_tables_def
          shm_unlink_def wake rest_error_def rest_initial_def split: if_splits option.splits)
  qed
qed

theorem rest_call_cleans_up_witness:
  "\<exists>r ctx' st'. rest_exchange (sample_world Map.empty (\<lambda>_. [])) Map.empty
       (proxy_channel_context_create ''p'' idle_channel_shm) ''e'' None
       [\<lparr>ce_owner_dead = False, ce_shm = idle_channel_shm, ce_env = id\<rparr>] sample_state =
     Done (Some (r, ctx', st')) \<and> rr_code r = 0 \<and> rr_err r = None"
proof -
  let ?w = "sample_world Map.empty (\<lambda>_. [])"
  let ?ev = "[\<lparr>ce_owner_dead = False, ce_shm = idle_channel_shm, ce_env = id\<rparr>]"
  have seg: "ht_lookup (g_segments sample_state) (payload_path (w_uuid ?w 0)) = None"
    by (simp add: sample_state_def initial_gonggo_def)
  obtain r ctx' st' where x: "rest_exchange ?w Map.empty (proxy_channel_context_create ''p'' idle_channel_shm)
      ''e'' None ?ev sample_state = Done (Some (r, ctx', st'))"
    by (simp add: rest_exchange_def Let_def proxy_channel_create_request_def wake_shm_def
        idle_channel_shm_def)
  have "\<forall>e \<in> set ?ev. ce_env e = id" by simp
  from rest_call_cleans_up [OF this seg x] x show ?thesis by (simp add: idle_channel_shm_def)
qed

text \<open>A proxy that did not confirm its activation in time is told to stop instead of being given
  requests: the pass that finds its name in the terminate array takes the name out, hands over nothing
  and ends the thread, with the stop request left in the segment and the mutex released if the proxy
  was idle.\<close>

theorem marked_proxy_is_told_to_stop:
  assumes "proxy_terminate_array_exists (cc_proxy_name ctx) (g_terminate st)"
    and "distinct (g_terminate st)" "\<forall>e \<in> set events. ce_env e = id"
    and "proxy_channel_pass w ctx events st = Done (go_on, ctx', st')"
  shows "\<not> go_on \<and> \<not> proxy_terminate_array_exists (cc_proxy_name ctx) (g_terminate st') \<and>
    g_handed st' = g_handed st \<and>
    (chan_held ctx' \<or> chan_state ctx' = CHANNEL_STOP_REQUEST)"
proof -
  from assms(1,4) obtain idle ctx1 ev1 st1 where
    i: "proxy_channel_idle_wait ctx events st = Done (idle, ctx1, ev1, st1)" and
    r: "\<not> go_on" "ctx' = (if idle then shm_unlock (set_state CHANNEL_STOP_REQUEST ctx1) else ctx1)"
      "st' = st1\<lparr>g_terminate := proxy_terminate_array_drop (cc_proxy_name ctx1) (g_terminate st1)\<rparr>"
    by (auto simp: proxy_channel_pass_def split: blocking.splits)
  show ?thesis
    using idle_wait_frame [OF i assms(3)] idle_wait_held [OF i] r assms(2)
    by (simp add: terminates.exists_drop)
qed

theorem marked_proxy_is_told_to_stop_witness:
  "\<exists>go_on ctx' st'. proxy_channel_pass (sample_world Map.empty (\<lambda>_. []))
      (proxy_channel_context_create ''p'' idle_channel_shm)
      [\<lparr>ce_owner_dead = False, ce_shm = idle_channel_shm, ce_env = id\<rparr>]
      (sample_state\<lparr>g_terminate := [''p'']\<rparr>) = Done (go_on, ctx', st') \<and> \<not> go_on \<and> g_handed st' = []"
proof -
  let ?w = "sample_world Map.empty (\<lambda>_. [])"
  let ?ctx = "proxy_channel_context_create ''p'' idle_channel_shm"
  let ?ev = "[\<lparr>ce_owner_dead = False, ce_shm = idle_channel_shm, ce_env = id\<rparr>]"
  let ?st = "sample_state\<lparr>g_terminate := [''p'']\<rparr>"
  have m: "proxy_terminate_array_exists (cc_proxy_name ?ctx) (g_terminate ?st)"
    by (simp add: proxy_channel_context_create_def terminate_eq)
  then have "proxy_channel_pass ?w ?ctx ?ev ?st \<noteq> Blocked"
    by (simp add: proxy_channel_pass_def proxy_channel_idle_wait_def Let_def wake_shm_def
        idle_channel_shm_def)
  then obtain go_on ctx' st' where d: "proxy_channel_pass ?w ?ctx ?ev ?st = Done (go_on, ctx', st')"
    by (metis blocking.exhaust prod.exhaust)
  have "\<not> go_on \<and> g_handed st' = []"
    using marked_proxy_is_told_to_stop [OF m _ _ d] by (simp add: sample_state_def initial_gonggo_def)
  with d show ?thesis by blast
qed

end
