(* ===== verification/Proxy_Lifecycle.thy ===== *)
theory Proxy_Lifecycle
  imports Dispatcher_Steps Client_Answers Channel_Guarantees
begin

text \<open>
  The life of a proxy as gonggo sees it: admitted by the activator, watched by its alive thread,
  buried by the terminator, and all proxies killed when gonggo ends.
\<close>

section \<open>Kills\<close>

text \<open>No channel segment is locked by a thread that has gone on.\<close>

definition channels_free :: "gonggo \<Rightarrow> bool" where
  "channels_free st \<longleftrightarrow> (\<forall>p e. ht_lookup (g_channels st) p = Some e \<longrightarrow> \<not> chan_held (te_ctx e))"

lemma kill_done:
  assumes "channels_free st"
  obtains st' sig where "proxy_thread_kill p st = Done (st', sig)" "channels_free st'"
proof -
  have "proxy_thread_kill p st \<noteq> Blocked"
    using assms by (auto simp: kill_blocked channels_free_def)
  then obtain st' sig where k: "proxy_thread_kill p st = Done (st', sig)"
    by (metis blocking.exhaust prod.exhaust)
  moreover have "channels_free st'"
    using assms by (auto simp: channels_free_def kill_tables [OF k])
  ultimately show thesis by (rule that)
qed

lemma terminating_frame:
  "channels_free (st\<lparr>g_terminating := a\<rparr>) = channels_free st"
  "channels_free (st\<lparr>g_proxynames := b\<rparr>) = channels_free st"
  "channels_free (st\<lparr>g_queue := q\<rparr>) = channels_free st"
  by (simp_all add: channels_free_def)

text \<open>The tables of threads without the names \<open>ps\<close>.\<close>

definition threads_without :: "pname set \<Rightarrow> gonggo \<Rightarrow> gonggo \<Rightarrow> bool" where
  "threads_without ps st st' \<longleftrightarrow>
     (\<forall>q. ht_lookup (g_subscribes st') q = (if q \<in> ps then None else ht_lookup (g_subscribes st) q) \<and>
          ht_lookup (g_channels st') q = (if q \<in> ps then None else ht_lookup (g_channels st) q) \<and>
          ht_lookup (g_alives st') q = (if q \<in> ps then None else ht_lookup (g_alives st) q))"

lemma threads_without_kill:
  "proxy_thread_kill p st = Done (st', sig) \<Longrightarrow> threads_without {p} st st'"
  by (simp add: threads_without_def kill_tables)

lemma threads_without_trans:
  "threads_without ps st st1 \<Longrightarrow> threads_without qs st1 st2 \<Longrightarrow> threads_without (ps \<union> qs) st st2"
  by (simp add: threads_without_def)

lemma threads_without_frame [simp]:
  "threads_without ps (st\<lparr>g_terminating := a\<rparr>) st' = threads_without ps st st'"
  "threads_without ps st (st'\<lparr>g_terminating := a\<rparr>) = threads_without ps st st'"
  "threads_without ps (st\<lparr>g_proxynames := b\<rparr>) st' = threads_without ps st st'"
  "threads_without ps (st\<lparr>g_queue := q\<rparr>) st' = threads_without ps st st'"
  by (simp_all add: threads_without_def)

lemma kill_all_loop_done:
  "channels_free st \<Longrightarrow>
     \<exists>st' sigs. kill_all_loop ps st = Done (st', sigs) \<and> threads_without (set ps) st st'"
proof (induction ps arbitrary: st)
  case (Cons p ps)
  let ?st1 = "st\<lparr>g_terminating := proxy_thread_terminating_set p (g_terminating st)\<rparr>"
  obtain st2 sig where k: "proxy_thread_kill p ?st1 = Done (st2, sig)" "channels_free st2"
    using kill_done [of ?st1 p] Cons.prems by (auto simp: terminating_frame)
  let ?st3 = "st2\<lparr>g_terminating := proxy_thread_terminating_drop p (g_terminating st2)\<rparr>"
  have "channels_free ?st3" using k(2) by (simp add: terminating_frame)
  from Cons.IH [OF this] obtain st' sigs where
    r: "kill_all_loop ps ?st3 = Done (st', sigs)" "threads_without (set ps) ?st3 st'" by auto
  have "threads_without ({p} \<union> set ps) st st'"
    using threads_without_trans [of "{p}" st st2 "set ps" st'] threads_without_kill [OF k(1)] r(2) by simp
  with k(1) r(1) show ?case by simp
qed (simp add: threads_without_def)

section \<open>The terminator\<close>

lemma terminate_proxy_done:
  assumes "channels_free st" "proxyname_ok (g_proxynames st)" "distinct (g_terminating st)"
  shows "\<exists>st' sig. terminate_proxy p st = Done (st', sig) \<and> threads_without {p} st st' \<and>
    channels_free st' \<and> g_queue st' = g_queue st \<and>
    pn_entries (g_proxynames st') = spec_unsent p (pn_entries (g_proxynames st)) \<and>
    proxyname_ok (g_proxynames st') \<and> distinct (g_terminating st') \<and>
    (\<forall>q. proxy_thread_zombie q (g_terminating st') \<longleftrightarrow> q \<noteq> p \<and> proxy_thread_zombie q (g_terminating st))"
proof -
  let ?st1 = "st\<lparr>g_proxynames := client_proxyname_table_request_unsent p (g_proxynames st)\<rparr>"
  obtain st2 sig where k: "proxy_thread_kill p ?st1 = Done (st2, sig)" "channels_free st2"
    using kill_done [of ?st1 p] assms(1) by (auto simp: terminating_frame)
  have f: "g_terminating st2 = g_terminating st" "g_queue st2 = g_queue st"
    "g_proxynames st2 = client_proxyname_table_request_unsent p (g_proxynames st)"
    using kill_frame [OF k(1)] by (simp_all add: same_but_threads_def)
  have "terminate_proxy p st =
      Done (st2\<lparr>g_terminating := proxy_thread_terminating_drop p (g_terminating st2)\<rparr>, sig)"
    using k(1) by (simp add: terminate_proxy_def Let_def)
  with k(2) f assms threads_without_kill [OF k(1)] show ?thesis
    by (simp add: terminating_frame pn_entries_unsent zombies.exists_drop zombies.ok_drop)
qed

lemma terminator_drain_done:
  assumes "channels_free st" "proxyname_ok (g_proxynames st)" "distinct (g_terminating st)"
    "g_queue st = ps"
  shows "\<exists>st' sigs. terminator_drain ps st = Done (st', sigs) \<and> threads_without (set ps) st st' \<and>
    g_queue st' = [] \<and>
    (\<forall>q. pn_entries (g_proxynames st') q =
       (if q \<in> set ps then map (\<lambda>(r, _). (r, False)) (pn_entries (g_proxynames st) q)
        else pn_entries (g_proxynames st) q)) \<and>
    (\<forall>q. proxy_thread_zombie q (g_terminating st') \<longleftrightarrow>
       q \<notin> set ps \<and> proxy_thread_zombie q (g_terminating st))"
  using assms
proof (induction ps arbitrary: st)
  case Nil
  then show ?case by (simp add: threads_without_def)
next
  case (Cons p ps)
  let ?st = "st\<lparr>g_queue := ps\<rparr>"
  obtain st1 sig where t: "terminate_proxy p ?st = Done (st1, sig)" "threads_without {p} st st1"
    "channels_free st1" "g_queue st1 = ps"
    "pn_entries (g_proxynames st1) = spec_unsent p (pn_entries (g_proxynames st))"
    "proxyname_ok (g_proxynames st1)" "distinct (g_terminating st1)"
    "\<forall>q. proxy_thread_zombie q (g_terminating st1) \<longleftrightarrow>
      q \<noteq> p \<and> proxy_thread_zombie q (g_terminating st)"
    using terminate_proxy_done [of ?st p] Cons.prems by (auto simp: terminating_frame)
  from Cons.IH [OF t(3,6,7,4)] obtain st' sigs where
    r: "terminator_drain ps st1 = Done (st', sigs)" "threads_without (set ps) st1 st'" "g_queue st' = []"
    "\<forall>q. pn_entries (g_proxynames st') q =
       (if q \<in> set ps then map (\<lambda>(r, _). (r, False)) (pn_entries (g_proxynames st1) q)
        else pn_entries (g_proxynames st1) q)"
    "\<forall>q. proxy_thread_zombie q (g_terminating st') \<longleftrightarrow>
       q \<notin> set ps \<and> proxy_thread_zombie q (g_terminating st1)"
    by auto
  have "threads_without ({p} \<union> set ps) st st'" by (rule threads_without_trans [OF t(2) r(2)])
  with t(1) r t(5,8) show ?case by (auto simp: spec_unsent_def split_beta o_def)
qed

section \<open>Activations\<close>

lemma start_threads_created:
  "start_threads env shm s c a = (True, sd) \<Longrightarrow>
     \<exists>ts tc ta. sd_subscribe sd = Some (proxy_subscribe_context_create (as_proxy_name shm) s, Some ts) \<and>
       sd_channel sd = Some (proxy_channel_context_create (as_proxy_name shm) c, Some tc) \<and>
       sd_alive sd = Some (proxy_alive_context_create (as_proxy_name shm) (as_pid shm) a, Some ta)"
  by (auto simp: start_threads_def Let_def split: if_splits)

lemma await_success:
  "await_proxy env state0 = (ACTIVATIONSTATE_DISPATCHER_SUCCESS, shm_state) \<Longrightarrow>
     state0 = ACTIVATIONSTATE_DISPATCHER_SUCCESS \<and> shm_state = ACTIVATION_DONE"
  by (auto simp: await_proxy_def split: if_splits)

lemma conclude_success:
  assumes "conclude_activation env name state0 sd sig st = ActDone (r, st')"
    and "ar_respond r = ACTIVATIONSTATE_DISPATCHER_SUCCESS"
  shows "state0 = ACTIVATIONSTATE_DISPATCHER_SUCCESS \<and> ar_shm_state r = ACTIVATION_DONE \<and>
    ar_started r = sd \<and> st' = st"
  using assms await_success
  by (auto simp: conclude_activation_def Let_def split: prod.splits if_splits activation_outcome.splits)

lemma activation_success:
  assumes "proxy_activation env shm st = ActDone (r, st')"
    and "ar_respond r = ACTIVATIONSTATE_DISPATCHER_SUCCESS"
  shows "\<not> proxy_thread_zombie (as_proxy_name shm) (g_terminating st) \<and>
    ar_shm_state r = ACTIVATION_DONE \<and>
    (\<exists>sig. proxy_thread_kill (as_proxy_name shm) st = Done (st', sig)) \<and>
    (\<exists>s c a. start_threads env shm s c a = (True, ar_started r))"
  using assms
  by (fastforce simp: proxy_activation_def Let_def dest: conclude_success
      split: if_splits blocking.splits option.splits prod.splits)

lemma kill_unlinks_channel:
  assumes "proxy_thread_kill p st = Done (st', sig)" "ht_lookup (g_channels st) p = Some e"
    "cc_proxy_name (te_ctx e) = p"
  shows "ht_lookup (g_segments st') (proxy_channel_path p) = None"
  using assms
  by (auto simp: proxy_thread_kill_def kill_stop_def kill_remove_def Let_def channel_table_defs
      proxy_channel_stop_def set_state_def proxy_channel_context_destroy_def
      split: blocking.splits prod.splits option.splits if_splits)

text \<open>A zombie is refused: nothing is started for it and its tables stay.\<close>

lemma undo_no_threads: "undo_activation no_threads st = ActDone (st, [])"
  by (simp add: undo_activation_def no_threads_def unlink_all_def)

lemma activation_zombie:
  assumes "proxy_thread_zombie (as_proxy_name shm) (g_terminating st)"
  shows "\<exists>r. proxy_activation env shm st = ActDone (r, st) \<and> ar_started r = no_threads \<and>
    ar_respond r \<noteq> ACTIVATIONSTATE_DISPATCHER_SUCCESS"
proof -
  obtain state shm_state where a: "await_proxy env ACTIVATIONSTATE_DISPATCHER_FAILED = (state, shm_state)"
    by fastforce
  have "state \<noteq> ACTIVATIONSTATE_DISPATCHER_SUCCESS" using a await_success by blast
  with assms a show ?thesis
    by (simp add: proxy_activation_def conclude_activation_def Let_def undo_no_threads)
      (simp add: no_threads_def)
qed

lemma register_created:
  fixes w :: world and st :: gonggo
  assumes "start_threads env shm s c a = (True, sd)"
  defines "st' \<equiv> register_proxy w (as_proxy_name shm) sd st"
  shows "ht_lookup (g_subscribes st') q \<noteq> None \<longleftrightarrow> q = as_proxy_name shm \<or> ht_lookup (g_subscribes st) q \<noteq> None"
    "ht_lookup (g_channels st') q \<noteq> None \<longleftrightarrow> q = as_proxy_name shm \<or> ht_lookup (g_channels st) q \<noteq> None"
    "ht_lookup (g_alives st') q \<noteq> None \<longleftrightarrow> q = as_proxy_name shm \<or> ht_lookup (g_alives st) q \<noteq> None"
    "g_wakeups st' = g_wakeups st @ [as_proxy_name shm]"
  using start_threads_created [OF assms(1)]
  by (auto simp: st'_def register_proxy_def Let_def split_beta subscribe_table_defs channel_table_defs
      alive_table_defs)

lemma kill_all_ends:
  assumes "threads_linked st" "channels_free st" "iter_order ord"
  shows "\<exists>st' sigterms. proxy_thread_kill_all ord st = Done (st', sigterms) \<and>
    (\<forall>q. ht_lookup (g_subscribes st') q = None \<and> ht_lookup (g_channels st') q = None \<and>
         ht_lookup (g_alives st') q = None)"
proof -
  let ?ks = "proxy_alive_thread_table_char_keys_create ord (g_alives st)"
  have ks: "set ?ks = {q. ht_lookup (g_alives st) q \<noteq> None}"
    using assms(3) by (auto simp: proxy_alive_thread_table_char_keys_create_def
        str_arr_create_keys_def iter_order_set ht_keys_lookup)
  obtain st' sigs where k: "kill_all_loop ?ks st = Done (st', sigs)" "threads_without (set ?ks) st st'"
    using kill_all_loop_done [OF assms(2)] by blast
  then show ?thesis
    using assms(1) ks
    by (intro exI [of _ st'] exI [of _ sigs])
      (auto simp: proxy_thread_kill_all_def threads_without_def threads_linked_def)
qed

text \<open>A state for the witnesses: proxy \<open>p\<close> with its three threads and one request it has got.\<close>

definition idle_subscribe_shm :: ProxySubscribeShm where
  "idle_subscribe_shm = \<lparr>ss_state = SUBSCRIBE_IDLE, ss_aid = [], ss_payload_buff_length = 0,
     ss_remove_request = False\<rparr>"

definition sample_alive :: ProxyAliveContext where
  "sample_alive = proxy_alive_context_create ''p'' 42 \<lparr>al_alive = True\<rparr>"

definition sample_running :: gonggo where
  "sample_running = sample_state
     \<lparr>g_subscribes := [(''p'', \<lparr>te_thread = 2, te_ctx = proxy_subscribe_context_create ''p'' idle_subscribe_shm\<rparr>)],
      g_alives := [(''p'', \<lparr>te_thread = 3, te_ctx = sample_alive\<rparr>)]\<rparr>"

lemma sample_running_ok:
  "tables_linked sample_running" "channels_free sample_running" "threads_linked sample_running"
  "names_ok sample_running"
proof -
  show "tables_linked sample_running"
    using sample_state_linked by (simp add: sample_running_def tables_linked_def)
  show "channels_free sample_running" "threads_linked sample_running" "names_ok sample_running"
    by (auto simp: sample_running_def sample_state_def channels_free_def threads_linked_def names_ok_def
        ht_lookup_def ht_ok_def proxy_channel_context_create_def idle_channel_shm_def
        initial_gonggo_def split: if_splits)
qed

section \<open>Properties\<close>

text \<open>Killing the threads of a proxy takes exactly its entries out of the three thread tables,
  leaves the client tables alone, and sends SIGTERM to its process unless the alive thread saw it die.
  It blocks exactly where the channel context's mutex is kept by a thread that has gone on.\<close>

theorem kill_removes_proxy:
  "(proxy_thread_kill p st = Blocked \<longleftrightarrow>
      (\<exists>e. ht_lookup (g_channels st) p = Some e \<and> chan_held (te_ctx e))) \<and>
   (case proxy_thread_kill p st of
      Blocked \<Rightarrow> True
    | Done (st', sigterms) \<Rightarrow> threads_without {p} st st' \<and> same_but_threads st' st \<and>
        sigterms = (case ht_lookup (g_alives st) p of
          None \<Rightarrow> [] | Some e \<Rightarrow> if ac_dead (te_ctx e) then [] else [ac_pid (te_ctx e)]))"
  using kill_blocked [of p st] threads_without_kill [of p st] kill_frame [of p st] kill_sigterms [of p st]
  by (auto split: blocking.split)

text \<open>The alive thread that gets the mutex of its proxy's segment with the owner dead, or with the
  proxy no longer alive, marks the proxy as a zombie, queues its burial and tells its clients; while
  the proxy lives it changes nothing.\<close>

theorem dead_proxy_is_queued:
  assumes "ae_env e = id" "distinct (g_terminating st)"
    and "proxy_alive_round e ctx st = (ctx', st')"
  shows "if ae_status e = EOWNERDEAD \<or> ae_status e = 0 \<and> \<not> ae_alive e
    then ac_dead ctx' \<and> proxy_thread_zombie (ac_proxy_name ctx) (g_terminating st') \<and>
      g_queue st' = g_queue st @ [ac_proxy_name ctx] \<and>
      g_sent st' = g_sent (client_proxy_alive_notification (ae_world e) (ac_proxy_name ctx) False st) \<and>
      g_proxynames st' = g_proxynames st
    else \<not> ac_dead ctx' \<and> st' = st"
proof (cases "ae_status e = EOWNERDEAD \<or> ae_status e = 0 \<and> \<not> ae_alive e")
  case True
  have "g_sent (client_proxy_alive_notification w p b (st\<lparr>g_terminating := a, g_queue := q\<rparr>)) =
      g_sent (client_proxy_alive_notification w p b st)" for w p b a q
    by (simp add: client_proxy_alive_notification_def Let_def sent_notification_loop)
  with True assms show ?thesis
    by (auto simp: proxy_alive_round_def Let_def proxy_terminator_awake_def zombies.exists_add)
qed (use assms in \<open>auto simp: proxy_alive_round_def Let_def\<close>)

theorem dead_proxy_is_queued_witness:
  "g_queue (snd (proxy_alive_round \<lparr>ae_status = EOWNERDEAD, ae_alive = True,
      ae_world = sample_world Map.empty (\<lambda>_. []), ae_env = id\<rparr> sample_alive sample_running)) = [''p'']"
proof -
  let ?e = "\<lparr>ae_status = EOWNERDEAD, ae_alive = True,
      ae_world = sample_world Map.empty (\<lambda>_. []), ae_env = id\<rparr>"
  obtain ctx' st' where r: "proxy_alive_round ?e sample_alive sample_running = (ctx', st')" by fastforce
  have "distinct (g_terminating sample_running)" using sample_running_ok(4) by (simp add: names_ok_def)
  from dead_proxy_is_queued [OF _ this r] r show ?thesis
    by (simp add: sample_alive_def proxy_alive_context_create_def sample_running_def sample_state_def
        initial_gonggo_def)
qed



text \<open>C21: a successful activation means that the proxy was no zombie, that the threads of its previous
  instance are gone, and that the proxy confirmed; registering it gives all three tables an entry for
  it, keeps those of the others, and signals its channel thread so that pending requests are handed
  over.\<close>

theorem activation_registers_proxy:
  assumes "as_proxy_name shm \<noteq> []" "as_state shm = ACTIVATION_REQUEST"
    and "proxy_activation env shm st = ActDone (r, st1)"
    and "ar_respond r = ACTIVATIONSTATE_DISPATCHER_SUCCESS"
  shows "\<not> proxy_thread_zombie (as_proxy_name shm) (g_terminating st) \<and>
    ar_shm_state r = ACTIVATION_DONE \<and> threads_without {as_proxy_name shm} st st1 \<and>
    (\<exists>st'. proxy_activator_round env False False shm st = ActDone (True, st') \<and>
      (\<forall>q. (ht_lookup (g_subscribes st') q \<noteq> None \<longleftrightarrow>
              q = as_proxy_name shm \<or> ht_lookup (g_subscribes st) q \<noteq> None) \<and>
           (ht_lookup (g_channels st') q \<noteq> None \<longleftrightarrow>
              q = as_proxy_name shm \<or> ht_lookup (g_channels st) q \<noteq> None) \<and>
           (ht_lookup (g_alives st') q \<noteq> None \<longleftrightarrow>
              q = as_proxy_name shm \<or> ht_lookup (g_alives st) q \<noteq> None)) \<and>
      as_proxy_name shm \<in> set (g_wakeups st'))"
proof -
  obtain sig s c a where f: "\<not> proxy_thread_zombie (as_proxy_name shm) (g_terminating st)"
    "ar_shm_state r = ACTIVATION_DONE" "proxy_thread_kill (as_proxy_name shm) st = Done (st1, sig)"
    "start_threads env shm s c a = (True, ar_started r)"
    using activation_success [OF assms(3,4)] by blast
  have "proxy_activator_round env False False shm st =
      ActDone (True, register_proxy (av_world env) (as_proxy_name shm) (ar_started r) st1)"
    using assms by (simp add: proxy_activator_round_def)
  with f threads_without_kill [OF f(3)] register_created [OF f(4), of "av_world env" st1]
  show ?thesis by (auto simp: threads_without_def)
qed

text \<open>An activation in which every call succeeds and the proxy confirms.\<close>

definition sample_env :: activation_env where
  "sample_env = \<lparr>av_world = sample_world Map.empty (\<lambda>_. []), av_channel_shm = idle_channel_shm,
     av_subscribe_shm = idle_subscribe_shm, av_alive_shm = \<lparr>al_alive = True\<rparr>,
     av_subscribe_thread = Some 1, av_channel_thread = Some 2, av_alive_thread = Some 3,
     av_relock_dead = False, av_state_locked = ACTIVATION_DONE, av_wait_dead = False,
     av_state_waited = ACTIVATION_DONE\<rparr>"

definition sample_activation_shm :: ProxyActivationShm where
  "sample_activation_shm = \<lparr>as_proxy_name = ''p'', as_pid = 42, as_state = ACTIVATION_REQUEST\<rparr>"

definition sample_segments :: gonggo where
  "sample_segments = (initial_gonggo ''g'')
     \<lparr>g_segments := [(''/p_channel'', ControlSegment), (''/p_subscribe'', ControlSegment),
        (''/p_alive'', ControlSegment)]\<rparr>"

lemma sample_activation:
  "\<exists>r st1. proxy_activation sample_env sample_activation_shm sample_segments = ActDone (r, st1) \<and>
     ar_respond r = ACTIVATIONSTATE_DISPATCHER_SUCCESS"
  by (simp add: proxy_activation_def sample_env_def sample_activation_shm_def sample_segments_def
      initial_gonggo_def proxy_thread_kill_def kill_stop_def kill_remove_def subscribe_table_defs
      channel_table_defs alive_table_defs proxy_channel_shm_get_def proxy_subscribe_shm_get_def
      proxy_alive_shm_get_def path_defs ht_lookup_def unlink_all_def start_threads_def Let_def
      conclude_activation_def await_proxy_def terminating_eq ht_remove_def)

theorem activation_registers_proxy_witness:
  "\<exists>st'. proxy_activator_round sample_env False False sample_activation_shm sample_segments =
     ActDone (True, st') \<and> ht_lookup (g_channels st') ''p'' \<noteq> None"
proof -
  obtain r st1 where a: "proxy_activation sample_env sample_activation_shm sample_segments = ActDone (r, st1)"
    "ar_respond r = ACTIVATIONSTATE_DISPATCHER_SUCCESS" using sample_activation by blast
  have n: "as_proxy_name sample_activation_shm \<noteq> []" "as_state sample_activation_shm = ACTIVATION_REQUEST"
    "as_proxy_name sample_activation_shm = ''p''" by (simp_all add: sample_activation_shm_def)
  from activation_registers_proxy [OF n(1,2) a, unfolded n(3)] show ?thesis
    by (elim conjE exE) (rule exI, rule conjI, assumption, simp del: not_None_eq)
qed



text \<open>A proxy that is marked as a zombie is not activated: no thread is started, and the activator
  round leaves the whole state as it is.\<close>

theorem zombie_is_refused:
  assumes "proxy_thread_zombie (as_proxy_name shm) (g_terminating st)"
  shows "\<exists>go_on. proxy_activator_round env end_flag proxy_dead shm st = ActDone (go_on, st)"
  using activation_zombie [OF assms, of env] by (auto simp: proxy_activator_round_def)

theorem zombie_is_refused_witness:
  "\<exists>go_on. proxy_activator_round sample_env False False
     \<lparr>as_proxy_name = ''p'', as_pid = 42, as_state = ACTIVATION_REQUEST\<rparr>
     (sample_running\<lparr>g_terminating := [''p'']\<rparr>) = ActDone (go_on, sample_running\<lparr>g_terminating := [''p'']\<rparr>)"
proof -
  have "proxy_thread_zombie (as_proxy_name \<lparr>as_proxy_name = ''p'', as_pid = 42, as_state = ACTIVATION_REQUEST\<rparr>)
      (g_terminating (sample_running\<lparr>g_terminating := [''p'']\<rparr>))"
    by (simp add: terminating_eq)
  from zombie_is_refused [OF this] show ?thesis .
qed

end
