(* ===== verification/Configuration.thy ===== *)
theory Configuration
  imports Gonggo_Prelude
begin

text \<open>
  \<open>gear/confvar.c\<close>: the configuration file.  A file is its text, \<open>getline\<close> cuts it into lines, a
  line is \<open>key = value\<close> with an optional comment (a C string: it ends at a null character), and the list of variables keeps the order of the
  file.  \<open>strtol\<close> is modelled as the C standard describes it, on a 64-bit \<open>long\<close>; the code reads
  \<open>errno\<close> after it and never clears it, so \<open>errno\<close> is passed through.
\<close>

record ConfVar =
  cv_name :: string
  cv_value :: string

definition CONF_PIDFILE :: string where "CONF_PIDFILE = ''pidfile''"
definition CONF_LOGPATH :: string where "CONF_LOGPATH = ''logpath''"
definition CONF_PORT :: string where "CONF_PORT = ''port''"
definition CONF_GONGGO :: string where "CONF_GONGGO = ''gonggo''"
definition CONF_DBPATH :: string where "CONF_DBPATH = ''dbpath''"
definition CONF_RESPONDDRAINOVERDUE :: string where
  "CONF_RESPONDDRAINOVERDUE = ''responddrainoverdue''"
definition CONF_RESPONDDRAINPERIOD :: string where
  "CONF_RESPONDDRAINPERIOD = ''responddrainperiod''"
definition CONF_RESPONDQUERYSIZE :: string where "CONF_RESPONDQUERYSIZE = ''respondquerysize''"
definition CONF_CLIENTTIMEOUTPERIOD :: string where
  "CONF_CLIENTTIMEOUTPERIOD = ''clienttimeoutperiod''"
definition CONF_PING :: string where "CONF_PING = ''pingms''"

lemmas conf_keys = CONF_PIDFILE_def CONF_LOGPATH_def CONF_PORT_def CONF_GONGGO_def CONF_DBPATH_def
  CONF_RESPONDDRAINOVERDUE_def CONF_RESPONDDRAINPERIOD_def CONF_RESPONDQUERYSIZE_def
  CONF_CLIENTTIMEOUTPERIOD_def CONF_PING_def

section \<open>A line\<close>

fun squeeze_space :: "string \<Rightarrow> string" where
  "squeeze_space [] = []"
| "squeeze_space (p # stmt) =
     (if p = CHR ''#'' then []
      else if p \<noteq> CHR '' '' \<and> p \<noteq> CHR 0x09 then p # squeeze_space stmt
      else squeeze_space stmt)"

text \<open>\<open>strchr\<close>: what stands before and after the first occurrence of a character.\<close>

fun split_at :: "char \<Rightarrow> string \<Rightarrow> (string \<times> string) option" where
  "split_at c [] = None"
| "split_at c (x # xs) =
     (if x = c then Some ([], xs)
      else case split_at c xs of None \<Rightarrow> None | Some (a, b) \<Rightarrow> Some (x # a, b))"

lemma split_at_length: "split_at c s = Some (a, b) \<Longrightarrow> length b < length s"
  by (induction s arbitrary: a b) (auto split: if_splits option.splits)

definition parse :: "string \<Rightarrow> ConfVar option" where
  "parse line0 =
     (let line = (case split_at CHR 0x0A line0 of None \<Rightarrow> line0 | Some (a, _) \<Rightarrow> a) in
      case split_at CHR ''='' line of
        None \<Rightarrow> None
      | Some (a, b) \<Rightarrow>
          (let key = squeeze_space a; val = squeeze_space b
           in if length val > 0 then Some \<lparr>cv_name = key, cv_value = val\<rparr> else None))"

section \<open>A file\<close>

text \<open>The lines \<open>getline\<close> returns, each with its newline except possibly the last.\<close>

fun getlines :: "string \<Rightarrow> string list" where
  "getlines [] = []"
| "getlines (c # cs) =
     (if c = CHR 0x0A then [c] # getlines cs
      else case getlines cs of [] \<Rightarrow> [[c]] | l # ls \<Rightarrow> (c # l) # ls)"

fun create :: "string list \<Rightarrow> ConfVar list \<Rightarrow> ConfVar list" where
  "create [] head = head"
| "create (lineptr # fp) head =
     (case parse (c_string lineptr) of None \<Rightarrow> create fp head | Some p \<Rightarrow> create fp (head @ [p]))"

definition confvar_create :: "string option \<Rightarrow> ConfVar list" where
  "confvar_create file = (case file of None \<Rightarrow> [] | Some fp \<Rightarrow> create (getlines fp) [])"

definition confvar_destroy :: "ConfVar list \<Rightarrow> ConfVar list" where
  "confvar_destroy head = []"

section \<open>Looking up\<close>

fun confvar_value :: "ConfVar list \<Rightarrow> string \<Rightarrow> string option" where
  "confvar_value [] key = None"
| "confvar_value (p # head) key = (if cv_name p = key then Some (cv_value p) else confvar_value head key)"

definition mandatory :: "string list" where
  "mandatory = [CONF_PIDFILE, CONF_LOGPATH, CONF_PORT, CONF_GONGGO, CONF_DBPATH,
     CONF_RESPONDDRAINOVERDUE, CONF_RESPONDDRAINPERIOD, CONF_RESPONDQUERYSIZE,
     CONF_CLIENTTIMEOUTPERIOD, CONF_PING]"

fun first_absent :: "ConfVar list \<Rightarrow> string list \<Rightarrow> string" where
  "first_absent head [] = []"
| "first_absent head (p # ps) = (if confvar_value head p = None then p else first_absent head ps)"

definition confvar_absent :: "ConfVar list \<Rightarrow> nat \<Rightarrow> nat \<times> string" where
  "confvar_absent head buflen =
     (let absent_key = take (buflen - 1) (first_absent head mandatory)
      in (length absent_key, absent_key))"

section \<open>Numbers\<close>

definition is_space :: "char \<Rightarrow> bool" where
  "is_space c \<longleftrightarrow> c \<in> {CHR '' '', CHR 0x09, CHR 0x0A, CHR 0x0B, CHR 0x0C, CHR 0x0D}"

definition is_digit :: "char \<Rightarrow> bool" where
  "is_digit c \<longleftrightarrow> 48 \<le> (of_char c :: nat) \<and> (of_char c :: nat) \<le> 57"

definition digit_value :: "char \<Rightarrow> int" where
  "digit_value c = int (of_char c :: nat) - 48"

definition digits_value :: "string \<Rightarrow> int" where
  "digits_value ds = foldl (\<lambda>n c. 10 * n + digit_value c) 0 ds"

definition LONG_MAX :: int where "LONG_MAX = 9223372036854775807"

text \<open>The value, the rest of the text (\<open>endptr\<close>), and whether the value was out of range.\<close>

definition strtol :: "string \<Rightarrow> int \<times> string \<times> bool" where
  "strtol s =
     (let t = dropWhile is_space s;
          (neg, u) = (case t of [] \<Rightarrow> (False, t)
                      | c # cs \<Rightarrow> if c = CHR ''-'' then (True, cs)
                                  else if c = CHR ''+'' then (False, cs) else (False, t));
          ds = takeWhile is_digit u; rest = dropWhile is_digit u
      in if ds = [] then (0, s, False)
         else let n = (if neg then - digits_value ds else digits_value ds)
              in if n > LONG_MAX then (LONG_MAX, rest, True)
                 else if n < - LONG_MAX - 1 then (- LONG_MAX - 1, rest, True)
                 else (n, rest, False))"

text \<open>\<open>strtoul\<close> gives an \<open>unsigned long\<close>, wraps a negated value, and the assignment to an
  \<open>unsigned int\<close> keeps the low 32 bits.\<close>

definition strtoul :: "string \<Rightarrow> 64 word \<times> string \<times> bool" where
  "strtoul s =
     (let t = dropWhile is_space s;
          (neg, u) = (case t of [] \<Rightarrow> (False, t)
                      | c # cs \<Rightarrow> if c = CHR ''-'' then (True, cs)
                                  else if c = CHR ''+'' then (False, cs) else (False, t));
          ds = takeWhile is_digit u; rest = dropWhile is_digit u
      in if ds = [] then (0, s, False)
         else if digits_value ds > 2 * LONG_MAX + 1 then (- 1, rest, True)
         else (let n = word_of_int (digits_value ds) in if neg then - n else n, rest, False))"

definition ERANGE :: int where "ERANGE = 34"

text \<open>The result, the value if it was assigned, and \<open>errno\<close> afterwards.\<close>

definition confvar_long :: "ConfVar list \<Rightarrow> string \<Rightarrow> int \<Rightarrow> bool \<times> int option \<times> int" where
  "confvar_long head key errno =
     (case confvar_value head key of
        None \<Rightarrow> (False, None, errno)
      | Some s \<Rightarrow>
          (let (l, endptr, range) = strtol s; errno' = (if range then ERANGE else errno)
           in if errno' = ERANGE then (False, None, errno')
              else (endptr = [], Some l, errno')))"

definition confvar_uint :: "ConfVar list \<Rightarrow> string \<Rightarrow> int \<Rightarrow> bool \<times> 32 word option \<times> int" where
  "confvar_uint head key errno =
     (case confvar_value head key of
        None \<Rightarrow> (False, None, errno)
      | Some s \<Rightarrow>
          (let (l, endptr, range) = strtoul s; errno' = (if range then ERANGE else errno)
           in if errno' = ERANGE then (False, None, errno')
              else (endptr = [], Some (ucast l), errno')))"

section \<open>Validation\<close>

text \<open>One of the five numeric checks: the error message, if any, and \<open>errno\<close>.  \<open>least\<close> is the
  smallest value accepted, \<open>bound\<close> how the message names the condition.\<close>

definition check_long :: "ConfVar list \<Rightarrow> string \<Rightarrow> int \<Rightarrow> string \<Rightarrow> int \<Rightarrow> string option \<times> int" where
  "check_long cv key least bound errno =
     (let (ok, l, errno') = confvar_long cv key errno in
      if \<not> ok then (Some (''configuration file with key '' @ key @ '' has invalid number''), errno')
      else if the l < least
      then (Some (''configuration file with key '' @ key @ '' value must be '' @ bound), errno')
      else (None, errno'))"

fun check_all :: "ConfVar list \<Rightarrow> (string \<times> int \<times> string) list \<Rightarrow> int \<Rightarrow> string option" where
  "check_all cv [] errno = None"
| "check_all cv ((key, least, bound) # checks) errno =
     (case check_long cv key least bound errno of
        (Some e, _) \<Rightarrow> Some e
      | (None, errno') \<Rightarrow> check_all cv checks errno')"

definition number_checks :: "(string \<times> int \<times> string) list" where
  "number_checks = [(CONF_RESPONDDRAINOVERDUE, 1, ''> 0''), (CONF_RESPONDDRAINPERIOD, 1, ''> 0''),
     (CONF_RESPONDQUERYSIZE, 1, ''> 0''), (CONF_CLIENTTIMEOUTPERIOD, 1, ''> 0''),
     (CONF_PING, 0, ''>= 0'')]"

definition confvar_validate :: "string option \<Rightarrow> int \<Rightarrow> string + ConfVar list" where
  "confvar_validate file errno =
     (let cv = confvar_create file in
      if cv = [] then Inl ''invalid configuration file content''
      else let (absent, buff) = confvar_absent cv 50 in
        if absent > 0 then Inl (''configuration file does not have key '' @ buff)
        else case check_all cv number_checks errno of
          Some e \<Rightarrow> Inl e
        | None \<Rightarrow> Inr cv)"

section \<open>Reading what was written\<close>

text \<open>A text that survives the squeezing, and a line that says it.\<close>

definition clean :: "string \<Rightarrow> bool" where
  "clean s \<longleftrightarrow> set s \<inter> {CHR ''#'', CHR '' '', CHR 0x09, CHR 0x0A, CHR 0x00} = {}"

definition conf_line :: "ConfVar \<Rightarrow> string" where
  "conf_line v = cv_name v @ '' = '' @ cv_value v @ [CHR 0x0A]"

definition conf_ok :: "ConfVar \<Rightarrow> bool" where
  "conf_ok v \<longleftrightarrow> clean (cv_name v) \<and> CHR ''='' \<notin> set (cv_name v) \<and> clean (cv_value v) \<and> cv_value v \<noteq> []"

lemma split_at_append: "c \<notin> set a \<Longrightarrow> split_at c (a @ c # b) = Some (a, b)"
  by (induction a) auto

lemma split_at_append_None: "split_at c s = None \<longleftrightarrow> c \<notin> set s"
  by (induction s) (auto split: option.splits)

lemma squeeze_clean: "clean s \<Longrightarrow> squeeze_space s = s"
  by (induction s) (auto simp: clean_def)

lemma squeeze_clean_space:
  "clean s \<Longrightarrow> squeeze_space (s @ '' '') = s" "clean s \<Longrightarrow> squeeze_space (CHR '' '' # s) = s"
  by (induction s) (auto simp: clean_def squeeze_clean)

lemma parse_conf_line: "conf_ok v \<Longrightarrow> parse (conf_line v) = Some v"
proof -
  assume ok: "conf_ok v"
  then have n: "CHR 0x0A \<notin> set (cv_name v @ '' = '' @ cv_value v)" by (auto simp: conf_ok_def clean_def)
  have "split_at CHR 0x0A (conf_line v) = Some (cv_name v @ '' = '' @ cv_value v, [])"
    using split_at_append [OF n, of "[]"] by (simp add: conf_line_def)
  moreover have "CHR ''='' \<notin> set (cv_name v @ '' '')" using ok by (auto simp: conf_ok_def)
  from split_at_append [OF this, of "CHR '' '' # cv_value v"]
  have "split_at CHR ''='' (cv_name v @ '' = '' @ cv_value v) = Some (cv_name v @ '' '', CHR '' '' # cv_value v)"
    by simp
  ultimately show ?thesis
    using ok by (simp add: parse_def Let_def squeeze_clean_space squeeze_clean conf_ok_def)
qed

lemma getlines_append:
  "CHR 0x0A \<notin> set l \<Longrightarrow> getlines (l @ CHR 0x0A # cs) = (l @ [CHR 0x0A]) # getlines cs"
  by (induction l) auto

lemma getlines_conf: "\<forall>v \<in> set cvs. conf_ok v \<Longrightarrow> getlines (concat (map conf_line cvs)) = map conf_line cvs"
proof (induction cvs)
  case (Cons v cvs)
  then have "CHR 0x0A \<notin> set (cv_name v @ '' = '' @ cv_value v)" by (auto simp: conf_ok_def clean_def)
  from getlines_append [OF this] Cons show ?case by (simp add: conf_line_def)
qed simp

lemma c_string_conf_line: "conf_ok v \<Longrightarrow> c_string (conf_line v) = conf_line v"
  by (rule c_string_id) (auto simp: conf_ok_def clean_def conf_line_def)

lemma create_conf: "\<forall>v \<in> set cvs. conf_ok v \<Longrightarrow> create (map conf_line cvs) head = head @ cvs"
  by (induction cvs arbitrary: head) (auto simp: parse_conf_line c_string_conf_line)

lemma create_written:
  "\<forall>v \<in> set cvs. conf_ok v \<Longrightarrow> confvar_create (Some (concat (map conf_line cvs))) = cvs"
  using create_conf [of cvs "[]"] by (simp add: confvar_create_def getlines_conf)

section \<open>Decimal numbers\<close>

fun decimal :: "nat \<Rightarrow> string" where
  "decimal n = (if n < 10 then [char_of (48 + n)] else decimal (n div 10) @ [char_of (48 + n mod 10)])"

declare decimal.simps [simp del]

lemma digit_char:
  assumes "n < 10"
  shows "is_digit (char_of (48 + n))" "digit_value (char_of (48 + n)) = int n"
  using assms by (simp_all add: is_digit_def digit_value_def)

lemma decimal_digits: "decimal n \<noteq> [] \<and> (\<forall>c \<in> set (decimal n). is_digit c)"
  by (induction n rule: decimal.induct) (subst (1 2) decimal.simps, auto simp: digit_char)

lemma decimal_value: "digits_value (decimal n) = int n"
proof (induction n rule: decimal.induct)
  case (1 n)
  show ?case
  proof (cases "n < 10")
    case True
    then show ?thesis by (subst decimal.simps) (simp add: digits_value_def digit_char)
  next
    case False
    with 1 have "digits_value (decimal n) = 10 * int (n div 10) + int (n mod 10)"
      by (subst decimal.simps) (simp add: digits_value_def digit_char)
    moreover have "int (10 * (n div 10) + n mod 10) = int n" by simp
    ultimately show ?thesis by (simp only: of_nat_add of_nat_mult of_nat_numeral)
  qed
qed

lemma digit_not_space: "is_digit c \<Longrightarrow> \<not> is_space c \<and> c \<noteq> CHR ''-'' \<and> c \<noteq> CHR ''+''"
  by (auto simp: is_digit_def is_space_def)

lemma take_digits:
  "\<forall>c \<in> set ds. is_digit c \<Longrightarrow> takeWhile is_digit ds = ds \<and> dropWhile is_digit ds = []"
  by (induction ds) auto

lemma strtol_digits:
  assumes "ds \<noteq> []" "\<forall>c \<in> set ds. is_digit c" "digits_value ds \<le> LONG_MAX" "0 \<le> digits_value ds"
  shows "strtol ds = (digits_value ds, [], False)"
proof -
  obtain c cs where d: "ds = c # cs" "is_digit c" using assms(1,2) by (cases ds) auto
  have "dropWhile is_space ds = ds" using d digit_not_space [OF d(2)] by simp
  moreover have "(case ds of [] \<Rightarrow> (False, ds)
      | c # cs \<Rightarrow> if c = CHR ''-'' then (True, cs)
                  else if c = CHR ''+'' then (False, cs) else (False, ds)) = (False, ds)"
    using d digit_not_space [OF d(2)] by simp
  ultimately show ?thesis
    using assms take_digits [OF assms(2)]
    by (simp add: strtol_def Let_def LONG_MAX_def del: takeWhile_eq_all_conv dropWhile_eq_Nil_conv)
qed

lemma strtol_minus_digits:
  assumes "ds \<noteq> []" "\<forall>c \<in> set ds. is_digit c" "digits_value ds \<le> LONG_MAX + 1" "0 \<le> digits_value ds"
  shows "strtol (CHR ''-'' # ds) = (- digits_value ds, [], False)"
  using assms take_digits [OF assms(2)] 
  by (simp add: strtol_def Let_def is_space_def LONG_MAX_def
      del: takeWhile_eq_all_conv dropWhile_eq_Nil_conv)

lemma strtol_decimal: "int n \<le> LONG_MAX \<Longrightarrow> strtol (decimal n) = (int n, [], False)"
  using strtol_digits [of "decimal n"] decimal_digits [of n] by (simp add: decimal_value)

lemma strtol_negative: "int n \<le> LONG_MAX + 1 \<Longrightarrow> strtol (CHR ''-'' # decimal n) = (- int n, [], False)"
  using strtol_minus_digits [of "decimal n"] decimal_digits [of n] by (simp add: decimal_value)

section \<open>Properties\<close>

text \<open>C33: round trip of the configuration: a file that says the variables one per line is read back as
  the same variables in the same order, for all names and values without spaces, tabs, hashes and line
  breaks; a value may contain equal signs.\<close>

theorem configuration_roundtrip:
  assumes "\<forall>v \<in> set cvs. conf_ok v"
  shows "confvar_create (Some (concat (map conf_line cvs))) = cvs"
  using assms by (rule create_written)

theorem configuration_roundtrip_witness:
  "confvar_create (Some (''port = 8877s'' @ [CHR 0x0A] @ ''gonggo = a=b'' @ [CHR 0x0A])) =
     [\<lparr>cv_name = ''port'', cv_value = ''8877s''\<rparr>, \<lparr>cv_name = ''gonggo'', cv_value = ''a=b''\<rparr>]"
  using configuration_roundtrip [of "[\<lparr>cv_name = ''port'', cv_value = ''8877s''\<rparr>,
      \<lparr>cv_name = ''gonggo'', cv_value = ''a=b''\<rparr>]"]
  by (simp add: conf_ok_def clean_def conf_line_def)

text \<open>A decimal number of the configuration that fits into a \<open>long\<close>, signed or not, is read as that
  number, if \<open>errno\<close> is not \<open>ERANGE\<close> when it is read.\<close>

theorem confvar_long_reads_decimal:
  assumes "errno \<noteq> ERANGE" "- LONG_MAX - 1 \<le> i" "i \<le> LONG_MAX"
    and "confvar_value cv key = Some (if i < 0 then CHR ''-'' # decimal (nat (- i)) else decimal (nat i))"
  shows "confvar_long cv key errno = (True, Some i, errno)"
proof (cases "i < 0")
  case True
  then show ?thesis using assms strtol_negative [of "nat (- i)"] by (simp add: confvar_long_def)
next
  case False
  then show ?thesis using assms strtol_decimal [of "nat i"] by (simp add: confvar_long_def)
qed

text \<open>The number a key is bound to, if the whole value is one and fits.\<close>

definition conf_number :: "ConfVar list \<Rightarrow> string \<Rightarrow> int option" where
  "conf_number cv key =
     (case confvar_value cv key of
        None \<Rightarrow> None
      | Some s \<Rightarrow> (let (l, endptr, range) = strtol s in if endptr = [] \<and> \<not> range then Some l else None))"

lemma check_long_ok:
  "errno \<noteq> ERANGE \<Longrightarrow>
     fst (check_long cv key least bound errno) = None \<longleftrightarrow>
       (\<exists>n. conf_number cv key = Some n \<and> least \<le> n)"
  "errno \<noteq> ERANGE \<Longrightarrow> check_long cv key least bound errno = (None, errno') \<Longrightarrow> errno' = errno"
  by (auto simp: check_long_def confvar_long_def conf_number_def Let_def
      split: option.splits prod.splits if_splits)

lemma check_all_ok:
  "errno \<noteq> ERANGE \<Longrightarrow>
     check_all cv cs errno = None \<longleftrightarrow>
       (\<forall>(key, least, _) \<in> set cs. \<exists>n. conf_number cv key = Some n \<and> least \<le> n)"
proof (induction cv cs errno rule: check_all.induct)
  case (2 cv key least bound checks errno)
  show ?case
  proof (cases "check_long cv key least bound errno")
    case (Pair e errno')
    show ?thesis
      using 2 check_long_ok [OF 2(2), of cv key least bound] Pair by (cases e) auto
  qed
qed simp

lemma absent_none:
  "fst (confvar_absent cv 50) = 0 \<longleftrightarrow> (\<forall>k \<in> set mandatory. confvar_value cv k \<noteq> None)"
proof -
  have "first_absent cv ks = [] \<longleftrightarrow> (\<forall>k \<in> set ks. confvar_value cv k \<noteq> None)" if "[] \<notin> set ks" for ks
    using that by (induction ks) auto
  moreover have "[] \<notin> set mandatory" by (simp add: mandatory_def conf_keys)
  ultimately have "first_absent cv mandatory = [] \<longleftrightarrow> (\<forall>k \<in> set mandatory. confvar_value cv k \<noteq> None)"
    by blast
  moreover have "min (length l) 49 = 0 \<longleftrightarrow> l = []" for l :: string by (cases l) auto
  ultimately show ?thesis by (simp add: confvar_absent_def Let_def del: not_None_eq)
qed

text \<open>C34: a configuration is accepted exactly if the file has a variable at all, all mandatory keys, and
  the five numeric ones are decimal numbers in range and at least their bound.  The code never clears
  \<open>errno\<close>: entered with \<open>ERANGE\<close> left over from an earlier call it accepts nothing.\<close>

theorem validate_accepts_iff:
  "confvar_validate file errno = Inr cv \<longleftrightarrow>
     errno \<noteq> ERANGE \<and> cv = confvar_create file \<and> cv \<noteq> [] \<and>
     (\<forall>k \<in> set mandatory. confvar_value cv k \<noteq> None) \<and>
     (\<forall>(key, least, _) \<in> set number_checks. \<exists>n. conf_number cv key = Some n \<and> least \<le> n)"
proof (cases "errno = ERANGE")
  case True
  have "check_all (confvar_create file) number_checks errno \<noteq> None"
    using True by (auto simp: number_checks_def check_long_def confvar_long_def Let_def
        split: option.splits prod.splits)
  with True show ?thesis
    by (auto simp: confvar_validate_def Let_def split: prod.splits option.splits)
next
  case False
  have "confvar_validate file errno = Inr cv \<longleftrightarrow>
      cv = confvar_create file \<and> cv \<noteq> [] \<and> fst (confvar_absent cv 50) = 0 \<and>
      check_all cv number_checks errno = None"
    by (auto simp: confvar_validate_def Let_def split: prod.splits option.splits)
  with False absent_none [of cv] check_all_ok [OF False, of cv number_checks] show ?thesis by simp
qed

definition sample_configuration :: "ConfVar list" where
  "sample_configuration = map (\<lambda>(k, v). \<lparr>cv_name = k, cv_value = v\<rparr>)
     [(CONF_PIDFILE, ''p''), (CONF_LOGPATH, ''l''), (CONF_PORT, ''80''), (CONF_GONGGO, ''g''), (CONF_DBPATH, ''d''),
      (CONF_RESPONDDRAINOVERDUE, ''9''), (CONF_RESPONDDRAINPERIOD, ''9''), (CONF_RESPONDQUERYSIZE, ''9''),
      (CONF_CLIENTTIMEOUTPERIOD, ''9''), (CONF_PING, ''0'')]"

theorem validate_accepts_iff_witness:
  "confvar_validate (Some (concat (map conf_line sample_configuration))) 0 = Inr sample_configuration"
proof -
  have "\<forall>v \<in> set sample_configuration. conf_ok v"
    by (simp add: sample_configuration_def conf_ok_def clean_def conf_keys)
  from create_written [OF this]
  have c: "confvar_create (Some (concat (map conf_line sample_configuration))) = sample_configuration" .
  have d: "strtol ''9'' = (9, [], False)" "strtol ''0'' = (0, [], False)" by code_simp+
  have m: "\<forall>k \<in> set mandatory. confvar_value sample_configuration k \<noteq> None"
    by (simp add: mandatory_def sample_configuration_def conf_keys)
  have n: "\<forall>(key, least, _) \<in> set number_checks. \<exists>n. conf_number sample_configuration key = Some n \<and> least \<le> n"
    by (simp add: number_checks_def conf_number_def sample_configuration_def conf_keys d)
  have "sample_configuration \<noteq> []" by (simp add: sample_configuration_def)
  with c m n show ?thesis unfolding validate_accepts_iff by (simp add: ERANGE_def)
qed

end
