(* ===== verification/Rest_Handler.thy ===== *)
theory Rest_Handler
  imports Proxy_Lifecycle Configuration "HOL-Library.Sublist"
begin

text \<open>
  \<open>gear/resthandler.c\<close>: a REST call of a client.  The web server's request is a record, each
  \<open>mg_read\<close> of the body takes the next text of a list, and what the handler does on the connection and
  with the lock of the channel table is a list of outputs.  While the handler holds that lock no other
  thread can change the table; the exchange with the proxy is \<open>proxy_channel_rest\<close>.
\<close>

record rest_request =
  rq_local_uri :: string
  rq_method :: string
  rq_query_string :: "string option"
  rq_headers :: "(string \<times> string) list"
  rq_reads :: "string list"

datatype rest_output =
    RestLock | RestUnlock           \<comment> \<open>\<open>proxy_channel_thread_table_lock_hold\<close>\<close>
  | RestError int string            \<comment> \<open>\<open>mg_send_http_error\<close>\<close>
  | RestOk string nat               \<comment> \<open>\<open>mg_send_http_ok\<close>\<close>
  | RestWrite string                \<comment> \<open>\<open>mg_write\<close>\<close>

section \<open>The error texts\<close>

definition err_root :: "string \<Rightarrow> string \<Rightarrow> string" where
  "err_root url gonggo_name = ''path '' @ url @ '' root is not '' @ gonggo_name @ [CHR 0x0A]"

definition err_no_proxy :: "string \<Rightarrow> string" where
  "err_no_proxy url = ''path '' @ url @ '' does not contain proxy'' @ [CHR 0x0A]"

definition err_no_endpoint :: "string \<Rightarrow> string" where
  "err_no_endpoint url = ''path '' @ url @ '' does not contain endpoint'' @ [CHR 0x0A]"

definition err_unavailable :: "string \<Rightarrow> string" where
  "err_unavailable proxy = ''proxy '' @ proxy @ '' is not available'' @ [CHR 0x0A]"

definition err_no_content_type :: string where
  "err_no_content_type = ''header does not contain Content-Type'' @ [CHR 0x0A]"

definition err_content_type :: "string \<Rightarrow> string" where
  "err_content_type ct = ''Content-Type '' @ ct @ '' is not application/json'' @ [CHR 0x0A]"

definition err_method :: "string \<Rightarrow> string" where
  "err_method method = ''method '' @ method @ '' is not supported'' @ [CHR 0x0A]"

section \<open>The path\<close>

text \<open>\<open>/root/proxy/endpoint\<close>, the endpoint being all that follows the second slash.\<close>

definition split_path :: "string \<Rightarrow> string \<times> string option \<times> string option" where
  "split_path run =
     (case split_at CHR ''/'' run of
        None \<Rightarrow> (run, None, None)
      | Some (gonggo, run') \<Rightarrow>
          (case split_at CHR ''/'' run' of
             None \<Rightarrow> (gonggo, Some run', None)
           | Some (proxy, endpoint) \<Rightarrow> (gonggo, Some proxy, Some endpoint)))"

section \<open>The payload\<close>

fun read_body :: "string option \<Rightarrow> string list \<Rightarrow> string option" where
  "read_body payload [] = payload"
| "read_body payload (buffer # reads) =
     (if buffer = [] then payload
      else read_body (Some (case payload of None \<Rightarrow> buffer | Some p \<Rightarrow> p @ buffer)) reads)"

definition ascii_lower :: "char \<Rightarrow> char" where
  "ascii_lower c =
     (let n = of_char c :: nat in if 65 \<le> n \<and> n \<le> 90 then char_of (n + 32) else c)"

definition strcasecmp_eq :: "string \<Rightarrow> string \<Rightarrow> bool" where
  "strcasecmp_eq a b \<longleftrightarrow> map ascii_lower a = map ascii_lower b"

fun content_type :: "(string \<times> string) list \<Rightarrow> string option" where
  "content_type [] = None"
| "content_type ((name, value) # headers) =
     (if strcasecmp_eq name ''Content-Type'' then Some value else content_type headers)"

definition rest_param_parse :: "string \<Rightarrow> (string \<times> json) list \<Rightarrow> (string \<times> json) list" where
  "rest_param_parse s members =
     (if length s > 0
      then (case split_at CHR ''='' s of
              None \<Rightarrow> members @ [(s, JString ''true'')]
            | Some (key, value) \<Rightarrow> members @ [(key, JString value)])
      else members)"

function query_members :: "string \<Rightarrow> (string \<times> json) list \<Rightarrow> (string \<times> json) list" where
  "query_members run members =
     (case split_at CHR ''&'' run of
        None \<Rightarrow> rest_param_parse run members
      | Some (param, run') \<Rightarrow> query_members run' (rest_param_parse param members))"
  by pat_completeness auto

termination by (relation "measure (\<lambda>(run, _). length run)") (auto dest: split_at_length)

declare query_members.simps [simp del]

text \<open>The error of the payload stage, or the text of the payload.\<close>

definition rest_payload :: "cjson \<Rightarrow> rest_request \<Rightarrow> (int \<times> string) + string option" where
  "rest_payload J rq =
     (if rq_method rq = ''POST'' \<or> rq_method rq = ''PUT'' \<or> rq_method rq = ''PATCH''
      then (case read_body None (rq_reads rq) of
              None \<Rightarrow> Inr None
            | Some payload \<Rightarrow>
                (case content_type (rq_headers rq) of
                   None \<Rightarrow> Inl (400, err_no_content_type)
                 | Some ct \<Rightarrow>
                     if \<not> prefix ''application/json'' ct
                     then Inl (400, err_content_type ct)
                     else Inr (Some (c_string payload))))
      else if rq_method rq = ''GET''
      then (case rq_query_string rq of
              None \<Rightarrow> Inr None
            | Some param \<Rightarrow> Inr (Some (cJSON_PrintUnformatted J (JObject (query_members param [])))))
      else Inl (501, err_method (rq_method rq)))"

section \<open>The handler\<close>

text \<open>The answer of the proxy on the connection.  \<open>strlen\<close> of a missing answer and \<open>%s\<close> of a missing
  error text are undefined: \<open>None\<close>.\<close>

definition rest_deliver :: "RestRespond \<Rightarrow> rest_output list option" where
  "rest_deliver r =
     (if rr_code r \<ge> 200 \<and> rr_code r \<le> 299
      then map_option (\<lambda>json. [RestOk ''application/json; charset=utf-8'' (length json + 1),
                               RestWrite json, RestWrite [CHR 0x0A]]) (rr_json r)
      else map_option (\<lambda>err. [RestError (rr_code r) (err @ [CHR 0x0A])]) (rr_err r))"

definition proxy_channel_rest_respond_destroy :: "RestRespond \<Rightarrow> RestRespond" where
  "proxy_channel_rest_respond_destroy respond = respond\<lparr>rr_err := None, rr_json := None\<rparr>"

definition rest_handler ::
    "world \<Rightarrow> (string \<Rightarrow> string option) \<Rightarrow> string \<Rightarrow> rest_request \<Rightarrow> chan_event list \<Rightarrow> gonggo \<Rightarrow>
     ((int \<times> rest_output list \<times> gonggo) option) blocking" where
  "rest_handler w segs gonggo_name rq events st =
     (let url = rq_local_uri rq in
      if url = [] then Done None
      else
        let (gonggo, proxy, endpoint) = split_path (tl url);
            fail = (\<lambda>code text. Done (Some (code, [RestError code text], st)))
        in
        if gonggo \<noteq> gonggo_name
        then fail 400 (err_root url gonggo_name)
        else case proxy of
          None \<Rightarrow> fail 400 (err_no_proxy url)
        | Some p \<Rightarrow>
        (case endpoint of
          None \<Rightarrow> fail 400 (err_no_endpoint url)
        | Some ep \<Rightarrow>
        (case proxy_channel_thread_table_get p (g_channels st) of
          None \<Rightarrow> Done (Some (503, [RestLock, RestUnlock,
                    RestError 503 (err_unavailable p)], st))
        | Some entry \<Rightarrow>
        (case rest_payload (w_json w) rq of
          Inl (code, text) \<Rightarrow> Done (Some (code, [RestLock, RestUnlock, RestError code text], st))
        | Inr payload \<Rightarrow>
            let payload_json = (case payload of None \<Rightarrow> None | Some s \<Rightarrow> cJSON_Parse (w_json w) s)
            in case proxy_channel_rest w segs (te_ctx entry) ep payload_json events st of
                 Blocked \<Rightarrow> Blocked
               | Done None \<Rightarrow> Done None
               | Done (Some (respond, ctx', st')) \<Rightarrow>
                   (case rest_deliver respond of
                      None \<Rightarrow> Done None
                    | Some outs \<Rightarrow>
                        Done (Some (rr_code (proxy_channel_rest_respond_destroy respond),
                          [RestLock, RestUnlock] @ outs, update_channel p ctx' st')))))))"

section \<open>The query string\<close>

text \<open>The text of a list of parameters: \<open>key=value\<close>, or a key alone.\<close>

fun param_text :: "string \<times> string option \<Rightarrow> string" where
  "param_text (k, None) = k"
| "param_text (k, Some v) = k @ ''='' @ v"

fun query_text :: "(string \<times> string option) list \<Rightarrow> string" where
  "query_text [] = []"
| "query_text [p] = param_text p"
| "query_text (p # q # ps) = param_text p @ ''&'' @ query_text (q # ps)"

definition param_ok :: "string \<times> string option \<Rightarrow> bool" where
  "param_ok p \<longleftrightarrow> set (fst p) \<inter> {CHR ''&'', CHR ''=''} = {} \<and> param_text p \<noteq> [] \<and>
     (\<forall>v. snd p = Some v \<longrightarrow> CHR ''&'' \<notin> set v)"

definition param_member :: "string \<times> string option \<Rightarrow> string \<times> json" where
  "param_member p = (fst p, JString (case snd p of None \<Rightarrow> ''true'' | Some v \<Rightarrow> v))"

lemma parse_param: "param_ok p \<Longrightarrow> rest_param_parse (param_text p) ms = ms @ [param_member p]"
  by (cases p rule: param_text.cases)
    (auto simp: param_ok_def rest_param_parse_def param_member_def split_at_append
      split: option.splits dest: split_at_append_None [THEN iffD2])

lemma param_no_amp: "param_ok p \<Longrightarrow> CHR ''&'' \<notin> set (param_text p)"
  by (cases p rule: param_text.cases) (auto simp: param_ok_def)

lemma query_members_text:
  "\<forall>p \<in> set ps. param_ok p \<Longrightarrow> query_members (query_text ps) ms = ms @ map param_member ps"
proof (induction ps arbitrary: ms rule: query_text.induct)
  case 1
  show ?case by (simp add: query_members.simps rest_param_parse_def)
next
  case (2 p)
  then have "split_at CHR ''&'' (param_text p) = None" by (simp add: split_at_append_None param_no_amp)
  with 2 show ?case by (simp add: query_members.simps parse_param)
next
  case (3 p q ps)
  then have "split_at CHR ''&'' (query_text (p # q # ps)) = Some (param_text p, query_text (q # ps))"
    using split_at_append [OF param_no_amp [of p], of "query_text (q # ps)"] by simp
  with 3 show ?case by (subst query_members.simps) (simp add: parse_param)
qed

lemma split_path_text:
  assumes "CHR ''/'' \<notin> set gonggo" "CHR ''/'' \<notin> set p"
  shows "split_path (gonggo @ ''/'' @ p @ ''/'' @ ep) = (gonggo, Some p, Some ep)"
  using split_at_append [OF assms(1), of "p @ ''/'' @ ep"] split_at_append [OF assms(2), of ep]
  by (simp add: split_path_def)

lemma read_body_chunks:
  "\<forall>c \<in> set cs. c \<noteq> [] \<Longrightarrow>
     read_body acc cs = (if cs = [] then acc else Some ((case acc of None \<Rightarrow> [] | Some p \<Rightarrow> p) @ concat cs))"
  by (induction cs arbitrary: acc) (auto split: option.splits)

section \<open>The checks as a table\<close>

definition has_body :: "rest_request \<Rightarrow> bool" where
  "has_body rq \<longleftrightarrow> rq_method rq \<in> {''POST'', ''PUT'', ''PATCH''} \<and> read_body None (rq_reads rq) \<noteq> None"

definition rest_checks :: "string \<Rightarrow> rest_request \<Rightarrow> gonggo \<Rightarrow> (bool \<times> int \<times> string) list" where
  "rest_checks gonggo_name rq st =
     (let url = rq_local_uri rq; (gonggo, proxy, endpoint) = split_path (tl url);
          ct = content_type (rq_headers rq) in
      [(gonggo \<noteq> gonggo_name, 400, err_root url gonggo_name),
       (proxy = None, 400, err_no_proxy url),
       (endpoint = None, 400, err_no_endpoint url),
       (ht_lookup (g_channels st) (the proxy) = None, 503,
          err_unavailable (the proxy)),
       (has_body rq \<and> ct = None, 400, err_no_content_type),
       (has_body rq \<and> \<not> prefix ''application/json'' (the ct), 400,
          err_content_type (the ct)),
       (rq_method rq \<notin> {''POST'', ''PUT'', ''PATCH'', ''GET''}, 501,
          err_method (rq_method rq))])"

text \<open>What an acceptable call leads to: one exchange with the proxy, whose result is delivered.\<close>

definition rest_forward ::
    "world \<Rightarrow> (string \<Rightarrow> string option) \<Rightarrow> pname \<Rightarrow> string \<Rightarrow> json option \<Rightarrow> chan_event list \<Rightarrow> gonggo \<Rightarrow>
     ((int \<times> rest_output list \<times> gonggo) option) blocking" where
  "rest_forward w segs p ep payload events st =
     (case proxy_channel_rest w segs (te_ctx (the (ht_lookup (g_channels st) p))) ep payload events st of
        Blocked \<Rightarrow> Blocked
      | Done None \<Rightarrow> Done None
      | Done (Some (r, ctx', st')) \<Rightarrow>
          Done (map_option (\<lambda>outs. (rr_code r, [RestLock, RestUnlock] @ outs, update_channel p ctx' st'))
                  (rest_deliver r)))"

definition accepted_payload :: "cjson \<Rightarrow> rest_request \<Rightarrow> json option" where
  "accepted_payload J rq =
     (let text = (if rq_method rq = ''GET''
                  then map_option (\<lambda>q. cJSON_PrintUnformatted J (JObject (query_members q []))) (rq_query_string rq)
                  else map_option c_string (read_body None (rq_reads rq)))
      in Option.bind text (cJSON_Parse J))"

lemma payload_verdict:
  assumes "split_path (tl (rq_local_uri rq)) = (gonggo_name, Some p, Some ep)"
    and "ht_lookup (g_channels st) p \<noteq> None"
  shows "case rest_payload J rq of
      Inl v \<Rightarrow> first_violation (rest_checks gonggo_name rq st) = Some v
    | Inr payload \<Rightarrow> first_violation (rest_checks gonggo_name rq st) = None \<and>
        Option.bind payload (cJSON_Parse J) = accepted_payload J rq"
proof -
  from assms(2) obtain e where "ht_lookup (g_channels st) p = Some e" by blast
  then have checks: "first_violation (rest_checks gonggo_name rq st) = first_violation
     [(has_body rq \<and> content_type (rq_headers rq) = None, 400, err_no_content_type),
      (has_body rq \<and> \<not> prefix ''application/json'' (the (content_type (rq_headers rq))), 400,
         err_content_type (the (content_type (rq_headers rq)))),
      (rq_method rq \<notin> {''POST'', ''PUT'', ''PATCH'', ''GET''}, 501, err_method (rq_method rq))]"
    using assms(1) by (simp add: rest_checks_def Let_def)
  consider "rq_method rq \<in> {''POST'', ''PUT'', ''PATCH''}" | "rq_method rq = ''GET''"
    | "rq_method rq \<notin> {''POST'', ''PUT'', ''PATCH'', ''GET''}" by blast
  then show ?thesis
  proof cases
    case 1
    then have g: "rq_method rq \<noteq> ''GET''" by auto
    from 1 have m: "rq_method rq = ''POST'' \<or> rq_method rq = ''PUT'' \<or> rq_method rq = ''PATCH''" by simp
    show ?thesis
    proof (cases "read_body None (rq_reads rq)")
      case None
      then have "\<not> has_body rq" by (simp add: has_body_def)
      with None m g 1 show ?thesis
        unfolding checks rest_payload_def if_P [OF m] by (auto simp: accepted_payload_def)
    next
      case (Some body)
      with 1 have "has_body rq" by (simp add: has_body_def)
      with Some g 1 show ?thesis
        unfolding checks rest_payload_def if_P [OF m]
        by (cases "content_type (rq_headers rq)") (auto simp: accepted_payload_def)
    qed
  next
    case 2
    then have "\<not> has_body rq" by (simp add: has_body_def)
    with 2 show ?thesis
      unfolding checks by (simp add: rest_payload_def accepted_payload_def split: option.splits)
  next
    case 3
    then have "\<not> has_body rq" by (simp add: has_body_def)
    with 3 show ?thesis unfolding checks by (simp add: rest_payload_def)
  qed
qed

lemma rest_verdict:
  assumes "rq_local_uri rq \<noteq> []"
  shows "case first_violation (rest_checks gonggo_name rq st) of
      Some (code, text) \<Rightarrow>
        rest_handler w segs gonggo_name rq events st \<in>
          {Done (Some (code, [RestError code text], st)),
           Done (Some (code, [RestLock, RestUnlock, RestError code text], st))}
    | None \<Rightarrow> \<exists>p ep. split_path (tl (rq_local_uri rq)) = (gonggo_name, Some p, Some ep) \<and>
        rest_handler w segs gonggo_name rq events st =
          rest_forward w segs p ep (accepted_payload (w_json w) rq) events st"
proof -
  obtain g po eo where sp: "split_path (tl (rq_local_uri rq)) = (g, po, eo)" by (metis prod_cases3)
  show ?thesis
  proof (cases "g = gonggo_name \<and> po \<noteq> None \<and> eo \<noteq> None \<and> ht_lookup (g_channels st) (the po) \<noteq> None")
    case False
    then consider "g \<noteq> gonggo_name" | "g = gonggo_name" "po = None"
      | p where "g = gonggo_name" "po = Some p" "eo = None"
      | p ep where "g = gonggo_name" "po = Some p" "eo = Some ep" "ht_lookup (g_channels st) p = None"
      by fastforce
    then show ?thesis
      by cases (simp_all add: sp assms rest_checks_def rest_handler_def Let_def proxy_channel_thread_table_get_def)
  next
    case True
    then obtain p ep e where v: "po = Some p" "eo = Some ep" "ht_lookup (g_channels st) p = Some e" by auto
    with sp True have sp': "split_path (tl (rq_local_uri rq)) = (gonggo_name, Some p, Some ep)" by simp
    note pv = payload_verdict [OF sp', of st "w_json w"]
    show ?thesis
    proof (cases "rest_payload (w_json w) rq")
      case (Inl a)
      then show ?thesis
        using pv v sp' assms
        by (auto simp: rest_handler_def proxy_channel_thread_table_get_def split: prod.splits)
    next
      case (Inr payload)
      with pv v have n: "first_violation (rest_checks gonggo_name rq st) = None"
        and b: "Option.bind payload (cJSON_Parse (w_json w)) = accepted_payload (w_json w) rq" by simp_all
      have "(case payload of None \<Rightarrow> None | Some s \<Rightarrow> cJSON_Parse (w_json w) s) =
          accepted_payload (w_json w) rq"
        using b by (cases payload) simp_all
      then have "rest_handler w segs gonggo_name rq events st =
          rest_forward w segs p ep (accepted_payload (w_json w) rq) events st"
        using sp' v Inr assms
        by (auto simp: rest_handler_def rest_forward_def proxy_channel_thread_table_get_def
            proxy_channel_rest_respond_destroy_def Let_def
            split: blocking.splits option.splits prod.splits)
      with n sp' show ?thesis by simp
    qed
  qed
qed

lemma refusal_code: "first_violation (rest_checks gonggo_name rq st) = Some (code, err) \<Longrightarrow> 400 \<le> code"
  by (auto simp: rest_checks_def Let_def split: prod.splits if_splits)

definition is_status :: "rest_output \<Rightarrow> bool" where
  "is_status x \<longleftrightarrow> (case x of RestError _ _ \<Rightarrow> True | RestOk _ _ \<Rightarrow> True | _ \<Rightarrow> False)"

lemma is_status_simps [simp]:
  "is_status (RestError c t)" "is_status (RestOk m n)" "\<not> is_status (RestWrite t)"
  "\<not> is_status RestLock" "\<not> is_status RestUnlock"
  by (simp_all add: is_status_def)

section \<open>A REST exchange that is answered\<close>

lemma rest_code_of_int:
  "- (2 ^ 31) \<le> n \<Longrightarrow> n < 2 ^ 31 \<Longrightarrow> rest_code (Some (JNumber (of_int n))) = n"
  by (simp add: rest_code_def int_of_double_def c_trunc_def Let_def)

lemma rest_answered:
  assumes shm: "path = payload_path (w_uuid w 0)" "w_shm_open w path" "w_mmap w path"
    and idle: "\<not> ce_owner_dead e1" "cs_state (ce_shm e1) = CHANNEL_IDLE"
    and responded: "\<not> ce_owner_dead e2" "cs_state (ce_shm e2) = CHANNEL_REST_RESPOND"
      "segs (payload_path (cs_aid (ce_shm e2))) = Some answer"
    and answer: "cJSON_Parse (w_json w) answer = Some a"
      "cJSON_GetObjectItem (w_json w) a ''code'' = Some (JNumber (of_int code))" "200 \<le> code" "code \<le> 299"
      "cJSON_GetObjectItem (w_json w) a ''json'' = Some j" "cJSON_GetObjectItem (w_json w) a ''err'' = None"
    and offered: "offered = (ce_env e1 st)\<lparr>g_segments := ht_insert path
        (PayloadSegment (cJSON_PrintUnformatted (w_json w) (service_payload_tree ep (Some tree))))
        (g_segments (ce_env e1 st))\<rparr>"
  shows "\<exists>ctx'. proxy_channel_rest w segs ctx ep (Some tree) [e1, e2] st =
      Done (Some (\<lparr>rr_code = code, rr_err = None, rr_json = Some (cJSON_PrintUnformatted (w_json w) j)\<rparr>,
        ctx', shm_unlink path (ce_env e2 offered))) \<and> \<not> chan_held ctx'"
proof -
  have i: "proxy_channel_idle_wait ctx [e1, e2] st = Done (True, wake_shm e1 ctx, [e2], ce_env e1 st)"
    using idle by (simp add: proxy_channel_idle_wait_def Let_def wake_shm_def)
  have c: "proxy_channel_create_request w path
        (client_service_table_service_payload_create (w_json w) ep (Some tree)) (ce_env e1 st) =
      (Suc (length (cJSON_PrintUnformatted (w_json w) (service_payload_tree ep (Some tree)))), offered)"
    using shm offered
    by (simp add: proxy_channel_create_request_def client_service_table_service_payload_create_def)
  have ans: "rest_answer (w_json w) (cJSON_Parse (w_json w) answer) =
      Some \<lparr>rr_code = code, rr_err = None, rr_json = Some (cJSON_PrintUnformatted (w_json w) j)\<rparr>"
    using answer rest_code_of_int [of code] by (simp add: rest_answer_def get_item_def)
  show ?thesis
    using i c ans responded
    by (simp add: proxy_channel_rest_def rest_exchange_def shm(1) [symmetric] Let_def wake_shm_def
        set_state_def shm_unlock_def)
qed

section \<open>Properties\<close>

text \<open>C15: a REST call is answered by the first violated check of an ordered table: root of the path, proxy
  and endpoint named, proxy running, content type given and JSON where there is a body, method
  supported.  It then gets the code and the text of that check, the shared state is unchanged and the
  lock of the channel table is free again; if no check is violated the call is handed to the proxy with
  the payload of the body or of the query string, which is absent if the body is not JSON.\<close>

theorem rest_call_answered_by_first_violation:
  assumes "rq_local_uri rq \<noteq> []"
  shows "case first_violation (rest_checks gonggo_name rq st) of
      Some (code, text) \<Rightarrow>
        rest_handler w segs gonggo_name rq events st \<in>
          {Done (Some (code, [RestError code text], st)),
           Done (Some (code, [RestLock, RestUnlock, RestError code text], st))}
    | None \<Rightarrow> \<exists>p ep. split_path (tl (rq_local_uri rq)) = (gonggo_name, Some p, Some ep) \<and>
        rest_handler w segs gonggo_name rq events st =
          rest_forward w segs p ep (accepted_payload (w_json w) rq) events st"
  by (rule rest_verdict) (rule assms)

theorem rest_call_answered_by_first_violation_witness:
  "rest_handler (sample_world Map.empty (\<lambda>_. [])) Map.empty ''g''
     \<lparr>rq_local_uri = ''/g/q/e'', rq_method = ''GET'', rq_query_string = None, rq_headers = [], rq_reads = []\<rparr> []
     sample_state = Done (Some (503, [RestLock, RestUnlock, RestError 503 (err_unavailable ''q'')], sample_state))"
proof -
  let ?rq = "\<lparr>rq_local_uri = ''/g/q/e'', rq_method = ''GET'', rq_query_string = None, rq_headers = [],
      rq_reads = []\<rparr>"
  have "split_path (tl (rq_local_uri ?rq)) = (''g'', Some ''q'', Some ''e'')"
    using split_path_text [of "''g''" "''q''" "''e''"] by simp
  moreover from this have "first_violation (rest_checks ''g'' ?rq sample_state) = Some (503, err_unavailable ''q'')"
    by (simp add: rest_checks_def Let_def sample_state_def ht_lookup_def)
  moreover have "ht_lookup (g_channels sample_state) ''q'' = None" by (simp add: sample_state_def ht_lookup_def)
  ultimately show ?thesis
    using rest_call_answered_by_first_violation [where rq = ?rq and gonggo_name = "''g''" and
        st = sample_state and w = "sample_world Map.empty (\<lambda>_. [])" and segs = Map.empty and events = "[]"]
    by (auto simp: rest_handler_def proxy_channel_thread_table_get_def)
qed

text \<open>Every REST call that ends sends exactly one status line, the success line if the code it returns
  is 2xx and an error with that code otherwise, and has released the lock of the channel table as often
  as it took it.\<close>

theorem rest_call_ends_with_one_status:
  assumes "rest_handler w segs gonggo_name rq events st = Done (Some (code, outs, st'))"
  shows "(if 200 \<le> code \<and> code \<le> 299
     then \<exists>n. filter is_status outs = [RestOk ''application/json; charset=utf-8'' n]
     else \<exists>err. filter is_status outs = [RestError code err]) \<and>
    count_list outs RestLock = count_list outs RestUnlock"
proof -
  have "rq_local_uri rq \<noteq> []" using assms by (auto simp: rest_handler_def)
  note verdict = rest_verdict [where gonggo_name = gonggo_name and st = st and w = w and segs = segs
      and events = events, OF this]
  show ?thesis
  proof (cases "first_violation (rest_checks gonggo_name rq st)")
    case (Some v)
    obtain c msg where v: "v = (c, msg)" by (cases v)
    with Some have "400 \<le> c" using refusal_code by blast
    with verdict Some assms v show ?thesis by auto
  next
    case None
    with verdict assms obtain p ep where
      "rest_forward w segs p ep (accepted_payload (w_json w) rq) events st = Done (Some (code, outs, st'))" by auto
    then obtain r tail where "rest_deliver r = Some tail" "outs = [RestLock, RestUnlock] @ tail" "code = rr_code r"
      by (auto simp: rest_forward_def split: blocking.splits option.splits)
    then show ?thesis by (auto simp: rest_deliver_def split: if_splits)
  qed
qed

theorem rest_call_ends_with_one_status_witness:
  "\<exists>code outs st'. rest_handler (sample_world Map.empty (\<lambda>_. [])) Map.empty ''g''
     \<lparr>rq_local_uri = ''/h/q/e'', rq_method = ''GET'', rq_query_string = None, rq_headers = [], rq_reads = []\<rparr> []
     sample_state = Done (Some (code, outs, st')) \<and> (\<exists>err. filter is_status outs = [RestError 400 err])"
proof -
  let ?rq = "\<lparr>rq_local_uri = ''/h/q/e'', rq_method = ''GET'', rq_query_string = None, rq_headers = [],
      rq_reads = []\<rparr>"
  have "split_path (tl (rq_local_uri ?rq)) = (''h'', Some ''q'', Some ''e'')"
    using split_path_text [of "''h''" "''q''" "''e''"] by simp
  then have "rest_handler (sample_world Map.empty (\<lambda>_. [])) Map.empty ''g'' ?rq [] sample_state =
      Done (Some (400, [RestError 400 (err_root ''/h/q/e'' ''g'')], sample_state))"
    by (simp add: rest_handler_def)
  with rest_call_ends_with_one_status [OF this] show ?thesis by simp
qed

text \<open>C14: a GET call reaches the proxy and its answer reaches the caller: the proxy finds, under a fresh
  segment name, the endpoint and an object with the parameters of the query string in order (\<open>true\<close> for
  a parameter without a value); the caller gets the JSON the proxy answered and its code, and afterwards
  the request segment is gone and the mutex of the channel free.\<close>

theorem rest_get_end_to_end:
  fixes code :: int
  assumes rq: "rq_local_uri rq = ''/'' @ g @ ''/'' @ p @ ''/'' @ ep" "CHR ''/'' \<notin> set g" "CHR ''/'' \<notin> set p"
      "rq_method rq = ''GET''" "rq_query_string rq = Some (query_text ps)" "\<forall>q \<in> set ps. param_ok q"
    and proxy: "ht_lookup (g_channels st) p = Some entry"
    and tree: "tree = JObject (map param_member ps)" "cJSON_Parse (w_json w) (cJSON_PrintUnformatted (w_json w) tree) = Some tree"
    and shm: "path = payload_path (w_uuid w 0)" "w_shm_open w path" "w_mmap w path"
    and idle: "\<not> ce_owner_dead e1" "cs_state (ce_shm e1) = CHANNEL_IDLE"
    and responded: "\<not> ce_owner_dead e2" "cs_state (ce_shm e2) = CHANNEL_REST_RESPOND"
      "segs (payload_path (cs_aid (ce_shm e2))) = Some answer"
    and answer: "cJSON_Parse (w_json w) answer = Some a"
      "cJSON_GetObjectItem (w_json w) a ''code'' = Some (JNumber (of_int code))" "200 \<le> code" "code \<le> 299"
      "cJSON_GetObjectItem (w_json w) a ''json'' = Some j" "cJSON_GetObjectItem (w_json w) a ''err'' = None"
    and offered: "offered = (ce_env e1 st)\<lparr>g_segments := ht_insert path
        (PayloadSegment (cJSON_PrintUnformatted (w_json w) (service_payload_tree ep (Some tree))))
        (g_segments (ce_env e1 st))\<rparr>"
  shows "\<exists>st'. rest_handler w segs g rq [e1, e2] st =
      Done (Some (code, [RestLock, RestUnlock,
        RestOk ''application/json; charset=utf-8'' (length (cJSON_PrintUnformatted (w_json w) j) + 1),
        RestWrite (cJSON_PrintUnformatted (w_json w) j), RestWrite [CHR 0x0A]], st')) \<and>
    g_segments st' = ht_remove path (g_segments (ce_env e2 offered)) \<and>
    (\<forall>e. ht_lookup (g_channels st') p = Some e \<longrightarrow> \<not> chan_held (te_ctx e))"
proof -
  have sp: "split_path (tl (rq_local_uri rq)) = (g, Some p, Some ep)"
    using split_path_text [OF rq(2,3)] rq(1) by simp
  have pay: "rest_payload (w_json w) rq = Inr (Some (cJSON_PrintUnformatted (w_json w) tree))"
    using rq(4-6) by (simp add: rest_payload_def query_members_text tree)
  obtain ctx' where r: "proxy_channel_rest w segs (te_ctx entry) ep (Some tree) [e1, e2] st =
      Done (Some (\<lparr>rr_code = code, rr_err = None, rr_json = Some (cJSON_PrintUnformatted (w_json w) j)\<rparr>,
        ctx', shm_unlink path (ce_env e2 offered)))" "\<not> chan_held ctx'"
    using rest_answered [where segs = segs, OF shm idle responded answer offered] by blast
  have "rest_handler w segs g rq [e1, e2] st =
      Done (Some (code, [RestLock, RestUnlock,
        RestOk ''application/json; charset=utf-8'' (length (cJSON_PrintUnformatted (w_json w) j) + 1),
        RestWrite (cJSON_PrintUnformatted (w_json w) j), RestWrite [CHR 0x0A]],
        update_channel p ctx' (shm_unlink path (ce_env e2 offered))))"
    using rq(1) sp proxy pay r(1) answer(3,4) tree(2)
    by (simp add: rest_handler_def proxy_channel_thread_table_get_def rest_deliver_def
        proxy_channel_rest_respond_destroy_def)
  then show ?thesis
    using r(2) by (auto simp: update_channel_def shm_unlink_def proxy_channel_thread_table_get_def
        split: option.splits)
qed

theorem rest_get_end_to_end_witness:
  "\<exists>outs st'. rest_handler
     (sample_world (\<lambda>s. if s = ''?'' then Some (JObject [(''a'', JString ''1''), (''b'', JString ''true'')])
                        else if s = ''A'' then Some (JObject [(''code'', JNumber 201), (''json'', JNull)]) else None)
        (\<lambda>j. if j = JNull then ''null'' else ''?''))
     (\<lambda>_. Some ''A'') ''g''
     \<lparr>rq_local_uri = ''/g/p/e'', rq_method = ''GET'', rq_query_string = Some ''a=1&b'', rq_headers = [],
        rq_reads = []\<rparr>
     [\<lparr>ce_owner_dead = False, ce_shm = idle_channel_shm, ce_env = id\<rparr>,
      \<lparr>ce_owner_dead = False, ce_shm = idle_channel_shm\<lparr>cs_state := CHANNEL_REST_RESPOND\<rparr>, ce_env = id\<rparr>]
     sample_state = Done (Some (201, outs, st')) \<and> RestWrite ''null'' \<in> set outs"
proof -
  let ?tree = "JObject [(''a'', JString ''1''), (''b'', JString ''true'')]"
  let ?w = "sample_world (\<lambda>s. if s = ''?'' then Some ?tree
                        else if s = ''A'' then Some (JObject [(''code'', JNumber 201), (''json'', JNull)]) else None)
        (\<lambda>j. if j = JNull then ''null'' else ''?'')"
  let ?e = "\<lparr>ce_owner_dead = False, ce_shm = idle_channel_shm, ce_env = id\<rparr>"
  let ?rq = "\<lparr>rq_local_uri = ''/g/p/e'', rq_method = ''GET'', rq_query_string = Some ''a=1&b'', rq_headers = [],
        rq_reads = []\<rparr>"
  have ps: "\<forall>q \<in> set [(''a'', Some ''1''), (''b'', None)]. param_ok q"
    by (simp add: param_ok_def)
  let ?e2 = "\<lparr>ce_owner_dead = False, ce_shm = idle_channel_shm\<lparr>cs_state := CHANNEL_REST_RESPOND\<rparr>, ce_env = id\<rparr>"
  let ?path = "payload_path (w_uuid ?w 0)"
  let ?offered = "(ce_env ?e sample_state)\<lparr>g_segments := ht_insert ?path
        (PayloadSegment (cJSON_PrintUnformatted (w_json ?w) (service_payload_tree ''e'' (Some ?tree))))
        (g_segments (ce_env ?e sample_state))\<rparr>"
  have entry: "ht_lookup (g_channels sample_state) ''p'' =
      Some \<lparr>te_thread = 1, te_ctx = proxy_channel_context_create ''p'' idle_channel_shm\<rparr>"
    by (simp add: sample_state_def ht_lookup_def)
  have tree: "?tree = JObject (map param_member [(''a'', Some ''1''), (''b'', None)])"
    by (simp add: param_member_def)
  have *: "\<exists>st'. rest_handler ?w (\<lambda>_. Some ''A'') ''g'' ?rq [?e, ?e2] sample_state =
      Done (Some (201, [RestLock, RestUnlock,
        RestOk ''application/json; charset=utf-8'' (length (cJSON_PrintUnformatted (w_json ?w) JNull) + 1),
        RestWrite (cJSON_PrintUnformatted (w_json ?w) JNull), RestWrite [CHR 0x0A]], st')) \<and>
    g_segments st' = ht_remove ?path (g_segments (ce_env ?e2 ?offered)) \<and>
    (\<forall>e. ht_lookup (g_channels st') ''p'' = Some e \<longrightarrow> \<not> chan_held (te_ctx e))"
    by (rule rest_get_end_to_end [where ps = "[(''a'', Some ''1''), (''b'', None)]" and ep = "''e''" and
          tree = ?tree and answer = "''A''" and a = "JObject [(''code'', JNumber 201), (''json'', JNull)]" and
          segs = "\<lambda>_. Some ''A''", OF _ _ _ _ _ ps entry tree _ refl])
      (simp_all add: idle_channel_shm_def find_member_def)
  then show ?thesis by auto
qed

end
