(* ===== verification/Process_State.thy ===== *)
theory Process_State
  imports Rest_Handler
begin

text \<open>
  The static objects of the program and the functions that create and destroy them: the
  \<open>*_context_init\<close>/\<open>*_context_destroy\<close> pairs, the \<open>*_create\<close>/\<open>*_destroy\<close> pairs of the tables,
  \<open>gear/alivemutex.c\<close>, and the start and stop flags of the four threads \<open>work\<close> starts.

  \<open>process\<close> has one flag per object (a mutex that is initialised, a pointer that is not null), the
  shared state \<open>gonggo\<close> of the dispatcher for the contents of the tables and the namespace of shared
  memory, and a trace of what was destroyed and joined in which order.
\<close>

datatype object =
    LogLock | UuidLock | KillLock | ZombieLock | TerminatingArr | DbLock | DbPath
  | SubscribeThreads | ChannelThreads | AliveThreads | Requests | Connections | Services | Proxynames
  | TerminateArr
  | AliveMapping | AliveShm | AlivePath | ActivatorShm | ActivatorPath
  | TerminatorLock | TerminatorQueue | DrainLock | TimeoutLock
  | MgLibrary | MgContext

datatype service_thread = RespondDrain | ClientTimeout | ProxyTerminator | ProxyActivator

datatype action = Destroyed object | Joined service_thread

record process =
  pr_g :: gonggo
  pr_made :: "object \<Rightarrow> bool"
  pr_name :: "string option"
  pr_log :: "int \<times> string option"
  pr_db_path :: string
  pr_drain :: "int \<times> int"
  pr_timeout :: int
  pr_alive :: bool
  pr_alive_locked :: bool
  pr_alive_path :: string
  pr_activator :: ProxyActivationShm
  pr_started :: "service_thread \<Rightarrow> bool"
  pr_end :: "service_thread \<Rightarrow> bool"
  pr_running :: "service_thread \<Rightarrow> bool"
  pr_exit :: bool
  pr_lost_fds :: nat
  pr_orphans :: "pname list"      \<comment> \<open>proxies whose threads ran when the tables were destroyed\<close>
  pr_trace :: "action list"

abbreviation made :: "object \<Rightarrow> process \<Rightarrow> bool" where
  "made x p \<equiv> pr_made p x"

definition set_up :: "object \<Rightarrow> process \<Rightarrow> process" where
  "set_up x p = p\<lparr>pr_made := (pr_made p)(x := True)\<rparr>"

definition tear_down :: "object \<Rightarrow> process \<Rightarrow> process" where
  "tear_down x p = p\<lparr>pr_made := (pr_made p)(x := False), pr_trace := pr_trace p @ [Destroyed x]\<rparr>"

text \<open>Destroy an object if it is there.\<close>

definition discard :: "object \<Rightarrow> process \<Rightarrow> process" where
  "discard x p = (if made x p then tear_down x p else p)"

definition fresh_process :: process where
  "fresh_process = \<lparr>pr_g = (initial_gonggo [])\<lparr>g_path := None\<rparr>, pr_made = (\<lambda>_. False), pr_name = None,
     pr_log = (0, None), pr_db_path = [], pr_drain = (0, 0), pr_timeout = 0, pr_alive = False,
     pr_alive_locked = False, pr_alive_path = [],
     pr_activator = \<lparr>as_proxy_name = [], as_pid = 0, as_state = ACTIVATION_INIT\<rparr>,
     pr_started = (\<lambda>_. False), pr_end = (\<lambda>_. False), pr_running = (\<lambda>_. False), pr_exit = False,
     pr_lost_fds = 0, pr_orphans = [], pr_trace = []\<rparr>"

section \<open>Log, ids, killer, database\<close>

definition gonggo_log_context_init :: "int \<Rightarrow> string option \<Rightarrow> process \<Rightarrow> process" where
  "gonggo_log_context_init pid path p =
     (if made LogLock p then p else set_up LogLock p)\<lparr>pr_log := (pid, path)\<rparr>"

definition gonggo_log_context_destroy :: "process \<Rightarrow> process" where
  "gonggo_log_context_destroy p = (discard LogLock p)\<lparr>pr_log := (0, None)\<rparr>"

definition gonggo_uuid_init :: "process \<Rightarrow> process" where
  "gonggo_uuid_init p = (if made UuidLock p then p else set_up UuidLock p)"

definition gonggo_uuid_destroy :: "process \<Rightarrow> process" where
  "gonggo_uuid_destroy p = discard UuidLock p"

definition killer_init :: "process \<Rightarrow> process" where
  "killer_init p0 =
     (let p1 = (if \<not> made KillLock p0 then set_up KillLock p0 else p0);
          p2 = (if \<not> made ZombieLock p1 then set_up ZombieLock p1 else p1)
      in case proxy_thread_killer_init (if made TerminatingArr p2 then Some (g_terminating (pr_g p2)) else None) of
           None \<Rightarrow> p2
         | Some a \<Rightarrow> set_up TerminatingArr (p2\<lparr>pr_g := (pr_g p2)\<lparr>g_terminating := a\<rparr>\<rparr>))"

definition killer_destroy :: "process \<Rightarrow> process" where
  "killer_destroy p0 =
     (let p1 = discard KillLock p0; p2 = discard ZombieLock p1
      in if made TerminatingArr p2
         then tear_down TerminatingArr (p2\<lparr>pr_g := (pr_g p2)\<lparr>g_terminating := []\<rparr>\<rparr>) else p2)"

definition db_context_init :: "string \<Rightarrow> string \<Rightarrow> process \<Rightarrow> process" where
  "db_context_init name path p0 =
     (let p1 = (if \<not> made DbLock p0 then set_up DbLock p0 else p0)
      in if \<not> made DbPath p1
         then set_up DbPath (p1\<lparr>pr_db_path := path @ ''/'' @ name @ ''.db''\<rparr>) else p1)"

definition db_context_destroy :: "process \<Rightarrow> process" where
  "db_context_destroy p0 = discard DbPath (discard DbLock p0)"

section \<open>Tables\<close>

text \<open>A static pointer to a table: null, or its contents.\<close>

definition ptr :: "object \<Rightarrow> (gonggo \<Rightarrow> 'a) \<Rightarrow> process \<Rightarrow> 'a option" where
  "ptr x field p = (if made x p then Some (field (pr_g p)) else None)"

definition set_ptr :: "object \<Rightarrow> ('a \<Rightarrow> gonggo \<Rightarrow> gonggo) \<Rightarrow> 'a \<Rightarrow> 'a option \<Rightarrow> process \<Rightarrow> process" where
  "set_ptr x upd none t p =
     (case t of
        Some v \<Rightarrow> set_up x (p\<lparr>pr_g := upd v (pr_g p)\<rparr>)
      | None \<Rightarrow> (discard x p)\<lparr>pr_g := upd none (pr_g p)\<rparr>)"

definition upd_subscribes where "upd_subscribes v g = g\<lparr>g_subscribes := v\<rparr>"
definition upd_channels where "upd_channels v g = g\<lparr>g_channels := v\<rparr>"
definition upd_alives where "upd_alives v g = g\<lparr>g_alives := v\<rparr>"
definition upd_requests where "upd_requests v g = g\<lparr>g_requests := v\<rparr>"
definition upd_connections where "upd_connections v g = g\<lparr>g_connections := v\<rparr>"
definition upd_services where "upd_services v g = g\<lparr>g_services := v\<rparr>"
definition upd_proxynames where "upd_proxynames v g = g\<lparr>g_proxynames := v\<rparr>"
definition upd_terminate where "upd_terminate v g = g\<lparr>g_terminate := v\<rparr>"

lemmas upd_defs = upd_subscribes_def upd_channels_def upd_alives_def upd_requests_def upd_connections_def
  upd_services_def upd_proxynames_def upd_terminate_def

text \<open>The eight calls of \<open>work\<close> that create the tables.\<close>

definition create_tables :: "process \<Rightarrow> process" where
  "create_tables p0 =
     (let p1 = set_ptr SubscribeThreads upd_subscribes []
                 (proxy_subscribe_thread_table_create (ptr SubscribeThreads g_subscribes p0)) p0;
          p2 = set_ptr ChannelThreads upd_channels []
                 (proxy_channel_thread_table_create (ptr ChannelThreads g_channels p1)) p1;
          p3 = set_ptr AliveThreads upd_alives []
                 (proxy_alive_thread_table_create (ptr AliveThreads g_alives p2)) p2;
          p4 = set_ptr Requests upd_requests []
                 (client_request_table_create (ptr Requests g_requests p3)) p3;
          p5 = set_ptr Connections upd_connections []
                 (client_connection_table_create (ptr Connections g_connections p4)) p4;
          p6 = set_ptr Services upd_services []
                 (client_service_table_create (ptr Services g_services p5)) p5;
          p7 = set_ptr Proxynames upd_proxynames []
                 (client_proxyname_table_create (ptr Proxynames g_proxynames p6)) p6
      in set_ptr TerminateArr upd_terminate []
           (proxy_terminate_array_create (ptr TerminateArr g_terminate p7)) p7)"

text \<open>Destroying a thread table destroys the context of every entry: its segment's name is unlinked.
  Nothing ends a thread whose entry is still there.\<close>

definition contexts_destroy :: "('c \<Rightarrow> string list) \<Rightarrow> (pname, 'c thread_entry) table \<Rightarrow> gonggo \<Rightarrow> gonggo" where
  "contexts_destroy destroy t g = unlink_all (concat (map (\<lambda>(_, e). destroy (te_ctx e)) t)) g"

definition destroy_thread_tables :: "process \<Rightarrow> process" where
  "destroy_thread_tables p0 =
     (let p1 = (if made SubscribeThreads p0
                then p0\<lparr>pr_g := contexts_destroy proxy_subscribe_context_destroy (g_subscribes (pr_g p0)) (pr_g p0),
                        pr_orphans := ht_keys (g_subscribes (pr_g p0))\<rparr> else p0);
          p2 = set_ptr SubscribeThreads upd_subscribes []
                 (proxy_subscribe_thread_table_destroy (ptr SubscribeThreads g_subscribes p1)) p1;
          p3 = (if made ChannelThreads p2
                then p2\<lparr>pr_g := contexts_destroy proxy_channel_context_destroy (g_channels (pr_g p2)) (pr_g p2)\<rparr>
                else p2);
          p4 = set_ptr ChannelThreads upd_channels []
                 (proxy_channel_thread_table_destroy (ptr ChannelThreads g_channels p3)) p3;
          p5 = (if made AliveThreads p4
                then p4\<lparr>pr_g := contexts_destroy proxy_alive_context_destroy (g_alives (pr_g p4)) (pr_g p4)\<rparr>
                else p4)
      in set_ptr AliveThreads upd_alives []
           (proxy_alive_thread_table_destroy (ptr AliveThreads g_alives p5)) p5)"

definition destroy_tables :: "process \<Rightarrow> process" where
  "destroy_tables p0 =
     (let p3 = destroy_thread_tables p0;
          p4 = set_ptr Requests upd_requests []
                 (client_request_table_destroy (ptr Requests g_requests p3)) p3;
          p5 = set_ptr Connections upd_connections []
                 (client_connection_table_destroy (ptr Connections g_connections p4)) p4;
          p6 = set_ptr Services upd_services []
                 (client_service_table_destroy (ptr Services g_services p5)) p5;
          p7 = set_ptr Proxynames upd_proxynames []
                 (client_proxyname_table_destroy (ptr Proxynames g_proxynames p6)) p6
      in set_ptr TerminateArr upd_terminate []
           (proxy_terminate_array_destroy (ptr TerminateArr g_terminate p7)) p7)"

section \<open>Shared segments of gonggo itself\<close>

text \<open>What the system does with \<open>shm_open\<close> and \<open>mmap\<close>, and \<open>errno\<close> before the first call: the code
  tests \<open>errno\<close> without looking at the descriptor first.\<close>

record shm_status =
  sn_errno :: int
  sn_denied :: bool         \<comment> \<open>an existing segment may not be opened\<close>
  sn_create_fails :: bool
  sn_mmap :: bool

definition ENOENT :: int where "ENOENT = 2"
definition EACCES :: int where "EACCES = 13"

text \<open>Open the segment, or create it where \<open>errno\<close> says that it is missing; whether there is a
  descriptor.  A descriptor that the second call overwrites is lost.\<close>

definition open_or_create :: "shm_status \<Rightarrow> string \<Rightarrow> process \<Rightarrow> bool \<times> process" where
  "open_or_create s path p =
     (let there = ht_lookup (g_segments (pr_g p)) path \<noteq> None;
          fd = (there \<and> \<not> sn_denied s);
          errno = (if fd then sn_errno s else if there then EACCES else ENOENT)
      in if errno = ENOENT
         then let p1 = (if fd then p\<lparr>pr_lost_fds := pr_lost_fds p + 1\<rparr> else p)
              in if sn_create_fails s then (False, p1)
                 else (True, p1\<lparr>pr_g := (pr_g p1)\<lparr>g_segments := ht_insert path ControlSegment (g_segments (pr_g p1))\<rparr>\<rparr>)
         else (fd, p))"

definition alive_mutex_create :: "shm_status \<Rightarrow> bool \<Rightarrow> process \<Rightarrow> bool \<times> process" where
  "alive_mutex_create s alive p0 =
     (let path = ''/'' @ the (pr_name p0) @ ''_alive'';
          p1 = set_up AlivePath (p0\<lparr>pr_alive_path := path\<rparr>);
          (fd, p2) = open_or_create s path p1
      in if \<not> fd then (False, tear_down AlivePath p2)
         else if \<not> sn_mmap s then (False, tear_down AlivePath p2)
         else (True, (set_up AliveShm (set_up AliveMapping p2))\<lparr>pr_alive := alive\<rparr>))"

definition alive_mutex_lock :: "process \<Rightarrow> process" where
  "alive_mutex_lock p = p\<lparr>pr_alive_locked := True\<rparr>"

definition alive_mutex_die :: "process \<Rightarrow> process" where
  "alive_mutex_die p = p\<lparr>pr_alive := False, pr_alive_locked := False\<rparr>"

text \<open>\<open>alive_mutex_shm\<close> is not reset: the pointer stays while the mapping is gone.\<close>

definition alive_mutex_destroy :: "process \<Rightarrow> process" where
  "alive_mutex_destroy p0 =
     (let p1 = (if made AliveShm p0 then tear_down AliveMapping p0 else p0)
      in if made AlivePath p1
         then tear_down AlivePath (p1\<lparr>pr_g := shm_unlink (pr_alive_path p1) (pr_g p1)\<rparr>) else p1)"

text \<open>A failed \<open>mmap\<close> leaves the pointer \<open>MAP_FAILED\<close>, which no later code looks at; the flag says that
  the segment is mapped.\<close>

definition proxy_activator_shm_create :: "shm_status \<Rightarrow> string \<Rightarrow> process \<Rightarrow> bool \<times> process" where
  "proxy_activator_shm_create s gonggo_path p0 =
     (let (fd, p1) = open_or_create s gonggo_path p0
      in if \<not> fd then (False, p1)
         else if \<not> sn_mmap s then (False, p1)
         else (True, (set_up ActivatorShm p1)\<lparr>pr_activator :=
                 (pr_activator p1)\<lparr>as_proxy_name := [], as_state := ACTIVATION_INIT\<rparr>\<rparr>))"

definition proxy_activator_context_init :: "shm_status \<Rightarrow> process \<Rightarrow> bool \<times> process" where
  "proxy_activator_context_init s p0 =
     (let path = ''/'' @ the (pr_name p0);
          p1 = set_up ActivatorPath (p0\<lparr>pr_g := (pr_g p0)\<lparr>g_path := Some path\<rparr>\<rparr>);
          (ok, p2) = proxy_activator_shm_create s path p1
      in if \<not> ok
         then (False, tear_down ActivatorPath (p2\<lparr>pr_g := (pr_g p2)\<lparr>g_path := None\<rparr>\<rparr>))
         else (True, p2))"

definition proxy_activator_context_destroy :: "process \<Rightarrow> process" where
  "proxy_activator_context_destroy p0 =
     (let p1 = discard ActivatorShm p0
      in if made ActivatorPath p1
         then tear_down ActivatorPath (p1\<lparr>pr_g :=
                (case g_path (pr_g p1) of None \<Rightarrow> pr_g p1
                 | Some path \<Rightarrow> (shm_unlink path (pr_g p1))\<lparr>g_path := None\<rparr>)\<rparr>)
         else p1)"

definition proxy_activator_get_gonggo_path :: "process \<Rightarrow> string option" where
  "proxy_activator_get_gonggo_path p = g_path (pr_g p)"

section \<open>Contexts of the other threads\<close>

definition proxy_terminator_context_init :: "process \<Rightarrow> process" where
  "proxy_terminator_context_init p =
     set_up TerminatorQueue (set_up TerminatorLock (p\<lparr>pr_g := (pr_g p)\<lparr>g_queue := []\<rparr>\<rparr>))"

definition proxy_terminator_context_destroy :: "process \<Rightarrow> process" where
  "proxy_terminator_context_destroy p =
     tear_down TerminatorQueue (tear_down TerminatorLock (p\<lparr>pr_g := (pr_g p)\<lparr>g_queue := []\<rparr>\<rparr>))"

definition db_respond_drain_context_init :: "int \<Rightarrow> int \<Rightarrow> process \<Rightarrow> process" where
  "db_respond_drain_context_init overdue period p =
     (if \<not> made DrainLock p then set_up DrainLock p else p)\<lparr>pr_drain := (overdue, period)\<rparr>"

definition db_respond_drain_context_destroy :: "process \<Rightarrow> process" where
  "db_respond_drain_context_destroy p = discard DrainLock p"

definition client_timeout_context_init :: "int \<Rightarrow> process \<Rightarrow> process" where
  "client_timeout_context_init period p =
     (if \<not> made TimeoutLock p then set_up TimeoutLock p else p)\<lparr>pr_timeout := period\<rparr>"

definition client_timeout_context_destroy :: "process \<Rightarrow> process" where
  "client_timeout_context_destroy p = discard TimeoutLock p"

section \<open>Starting and stopping the threads\<close>

text \<open>\<open>pthread_create\<close>, and the wait for the flag that the thread sets when it begins.\<close>

definition start_thread :: "service_thread \<Rightarrow> process \<Rightarrow> process" where
  "start_thread t p = p\<lparr>pr_running := (pr_running p)(t := True), pr_started := (pr_started p)(t := True)\<rparr>"

definition db_respond_drain_isstarted :: "process \<Rightarrow> bool" where
  "db_respond_drain_isstarted p = pr_started p RespondDrain"
definition client_timeout_isstarted :: "process \<Rightarrow> bool" where
  "client_timeout_isstarted p = pr_started p ClientTimeout"
definition proxy_terminator_isstarted :: "process \<Rightarrow> bool" where
  "proxy_terminator_isstarted p = pr_started p ProxyTerminator"
definition proxy_activator_isstarted :: "process \<Rightarrow> bool" where
  "proxy_activator_isstarted p = pr_started p ProxyActivator"

definition ask_to_end :: "service_thread \<Rightarrow> process \<Rightarrow> process" where
  "ask_to_end t p = p\<lparr>pr_end := (pr_end p)(t := True)\<rparr>"

definition db_respond_drain_stop :: "process \<Rightarrow> process" where
  "db_respond_drain_stop p = ask_to_end RespondDrain p"
definition client_timeout_stop :: "process \<Rightarrow> process" where
  "client_timeout_stop p = ask_to_end ClientTimeout p"
definition proxy_terminator_stop :: "process \<Rightarrow> process" where
  "proxy_terminator_stop p = ask_to_end ProxyTerminator p"
definition proxy_activator_stop :: "process \<Rightarrow> process" where
  "proxy_activator_stop p =
     ask_to_end ProxyActivator (p\<lparr>pr_activator := (pr_activator p)\<lparr>as_state := ACTIVATION_TERMINATION\<rparr>\<rparr>)"

text \<open>\<open>pthread_join\<close> returns once the thread has seen its end flag; a thread that was not asked to end
  keeps the caller waiting.\<close>

definition join_thread :: "service_thread \<Rightarrow> process \<Rightarrow> process blocking" where
  "join_thread t p =
     (if pr_end p t then Done (p\<lparr>pr_running := (pr_running p)(t := False), pr_trace := pr_trace p @ [Joined t]\<rparr>)
      else Blocked)"

text \<open>The response drain thread: a purge, then a timed wait, until the flag is seen.\<close>

record drain_pass =
  dp_status :: purge_status
  dp_now :: int
  dp_end :: bool

fun db_respond_drain ::
    "(int \<Rightarrow> string) \<Rightarrow> string \<Rightarrow> int \<Rightarrow> bool \<Rightarrow> drain_pass list \<Rightarrow> db_table \<Rightarrow> bool \<times> db_table" where
  "db_respond_drain fmt tz overdue True passes db = (True, db)"
| "db_respond_drain fmt tz overdue False [] db = (False, db)"
| "db_respond_drain fmt tz overdue False (d # passes) db =
     db_respond_drain fmt tz overdue (dp_end d) passes
       (snd (db_respond_purge (dp_status d) fmt tz (dp_now d) overdue db))"

end
