(* ===== verification/Startup.thy ===== *)
theory Startup
  imports Process_State
begin

text \<open>
  \<open>gear/work.c\<close>: the life of the server, from the creation of its objects to their destruction.  What
  the system decides is \<open>work_env\<close>: the statuses of the calls that may fail, the signals that arrive,
  and what the running threads do to the shared state meanwhile.
\<close>

definition ERROR_TERMHANDLER :: int where "ERROR_TERMHANDLER = 1"
definition ERROR_START :: int where "ERROR_START = 2"
definition ERROR_DBINIT :: int where "ERROR_DBINIT = 3"
definition SIGTERM :: int where "SIGTERM = 15"

definition CONF_SSLCERT :: string where "CONF_SSLCERT = ''sslcert''"
definition CONF_THREADS :: string where "CONF_THREADS = ''threads''"

record work_env =
  we_ensure :: ensure_status
  we_sigaction :: bool
  we_alive_shm :: shm_status
  we_activator_shm :: shm_status
  we_errno :: int                       \<comment> \<open>before the numbers of the configuration are read\<close>
  we_garbage :: int                     \<comment> \<open>what an unassigned \<open>long\<close> holds\<close>
  we_create :: "service_thread \<Rightarrow> bool"   \<comment> \<open>whether \<open>pthread_create\<close> succeeds\<close>
  we_starting :: "gonggo \<Rightarrow> gonggo"      \<comment> \<open>the activator at work before the web server starts\<close>
  we_mg_start :: "string option list \<Rightarrow> bool"   \<comment> \<open>whether \<open>mg_start2\<close> succeeds with these options\<close>
  we_serving :: "gonggo \<Rightarrow> gonggo"
  we_signals :: "int list"
  we_names :: "pname list \<Rightarrow> pname list"
  we_late :: "gonggo \<Rightarrow> gonggo"          \<comment> \<open>the activator between the kill of all proxies and its own stop\<close>

section \<open>The options of the web server\<close>

text \<open>The array has fourteen pointers, null where nothing was written; \<open>mg_start2\<close> reads up to the first
  null.\<close>

definition put_option :: "string option \<Rightarrow> string option list \<times> nat \<Rightarrow> string option list \<times> nat" where
  "put_option s = (\<lambda>(mg_options, idx). (mg_options[idx := s], idx + 1))"

definition read_long :: "ConfVar list \<Rightarrow> string \<Rightarrow> int \<Rightarrow> int \<Rightarrow> int" where
  "read_long cv key errno garbage =
     (case confvar_long cv key errno of (_, Some l, _) \<Rightarrow> l | (_, None, _) \<Rightarrow> garbage)"

definition web_options :: "ConfVar list \<Rightarrow> int \<Rightarrow> int \<Rightarrow> string option list \<times> nat" where
  "web_options cv errno garbage =
     (let m0 = (replicate 14 None, 0);
          sslcert = confvar_value cv CONF_SSLCERT;
          m1 = (if sslcert \<noteq> None then put_option sslcert (put_option (Some ''ssl_certificate'') m0) else m0);
          m2 = put_option (confvar_value cv CONF_PORT) (put_option (Some ''listening_ports'') m1);
          s = confvar_value cv CONF_THREADS;
          m3 = (if s \<noteq> None then put_option s (put_option (Some ''num_threads'') m2) else m2);
          ping = read_long cv CONF_PING errno garbage;
          m4 = put_option (Some (if ping > 0 then ''yes'' else ''no''))
                 (put_option (Some ''enable_websocket_ping_pong'') m3);
          m5 = (if ping > 0 then put_option (confvar_value cv CONF_PING)
                                   (put_option (Some ''websocket_timeout_ms'') m4) else m4)
      in put_option (Some ''error.log'') (put_option (Some ''error_log_file'') m5))"

section \<open>The end\<close>

definition clean_up :: "bool \<Rightarrow> process \<Rightarrow> process" where
  "clean_up http_ctx p0 =
     (let p1 = gonggo_log_context_destroy p0;
          p2 = gonggo_uuid_destroy p1;
          p3 = destroy_tables p2;
          p4 = alive_mutex_destroy p3;
          p5 = (if http_ctx then tear_down MgContext p4 else p4);
          p6 = (if made MgLibrary p5 then tear_down MgLibrary p5 else p5);
          p7 = db_context_destroy p6
      in killer_destroy p7)"

definition join_if :: "bool \<Rightarrow> service_thread \<Rightarrow> process \<Rightarrow> process blocking" where
  "join_if started t p = (if started then join_thread t p else Done p)"

text \<open>First all threads are asked to end, then each is joined, then their contexts go.\<close>

definition stop_and_join :: "process \<Rightarrow> process blocking" where
  "stop_and_join p0 =
     (let p1 = (if proxy_activator_isstarted p0 then proxy_activator_stop p0 else p0);
          p2 = (if db_respond_drain_isstarted p1 then db_respond_drain_stop p1 else p1);
          p3 = (if client_timeout_isstarted p2 then client_timeout_stop p2 else p2);
          p4 = (if proxy_terminator_isstarted p3 then proxy_terminator_stop p3 else p3)
      in case join_if (proxy_activator_isstarted p4) ProxyActivator p4 of
           Blocked \<Rightarrow> Blocked
         | Done p5 \<Rightarrow>
      (case join_if (db_respond_drain_isstarted p5) RespondDrain p5 of
           Blocked \<Rightarrow> Blocked
         | Done p6 \<Rightarrow>
      (case join_if (client_timeout_isstarted p6) ClientTimeout p6 of
           Blocked \<Rightarrow> Blocked
         | Done p7 \<Rightarrow> join_if (proxy_terminator_isstarted p7) ProxyTerminator p7)))"

definition threads_stop :: "process \<Rightarrow> process blocking" where
  "threads_stop p =
     (case stop_and_join p of
        Blocked \<Rightarrow> Blocked
      | Done q \<Rightarrow>
          Done (proxy_terminator_context_destroy (client_timeout_context_destroy
            (db_respond_drain_context_destroy (proxy_activator_context_destroy q)))))"

definition handler :: "int \<Rightarrow> process \<Rightarrow> process" where
  "handler signal p = (if signal = SIGTERM then p\<lparr>pr_exit := True\<rparr> else p)"

text \<open>\<open>while(!gonggo_exit) pause();\<close>: each signal ends one \<open>pause\<close>.\<close>

fun pause_loop :: "int list \<Rightarrow> process \<Rightarrow> process blocking" where
  "pause_loop signals p =
     (if pr_exit p then Done p
      else case signals of [] \<Rightarrow> Blocked | s # rest \<Rightarrow> pause_loop rest (handler s p))"

declare pause_loop.simps [simp del]

section \<open>The beginning\<close>

text \<open>The four threads, in the order of the \<open>do\<close> block, which a failure leaves.\<close>

definition start_service_threads :: "(service_thread \<Rightarrow> bool) \<Rightarrow> process \<Rightarrow> process" where
  "start_service_threads spawned p0 =
     (if \<not> spawned RespondDrain then p0
      else let p1 = start_thread RespondDrain p0 in
        if \<not> spawned ClientTimeout then p1
        else let p2 = start_thread ClientTimeout p1 in
          if \<not> spawned ProxyTerminator then p2
          else let p3 = alive_mutex_lock (start_thread ProxyTerminator p2) in
            if \<not> spawned ProxyActivator then alive_mutex_die p3
            else start_thread ProxyActivator p3)"

definition other_threads :: "(gonggo \<Rightarrow> gonggo) \<Rightarrow> process \<Rightarrow> process" where
  "other_threads f p = p\<lparr>pr_g := f (pr_g p)\<rparr>"

text \<open>Shut down after the threads were started.\<close>

definition abandon :: "process \<Rightarrow> (int \<times> process) blocking" where
  "abandon p =
     (case threads_stop (p\<lparr>pr_exit := True\<rparr>) of
        Blocked \<Rightarrow> Blocked
      | Done p1 \<Rightarrow> Done (ERROR_START, clean_up False p1))"

definition serve :: "work_env \<Rightarrow> process \<Rightarrow> (int \<times> process) blocking" where
  "serve env p0 =
     (case pause_loop (we_signals env) (other_threads (we_serving env) p0) of
        Blocked \<Rightarrow> Blocked
      | Done p1 \<Rightarrow>
          (let p2 = alive_mutex_die p1
           in case proxy_thread_kill_all (we_names env) (pr_g p2) of
                Blocked \<Rightarrow> Blocked
              | Done (g, _) \<Rightarrow>
                  (case threads_stop (other_threads (we_late env) (p2\<lparr>pr_g := g\<rparr>)) of
                     Blocked \<Rightarrow> Blocked
                   | Done p3 \<Rightarrow> Done (0, clean_up True p3))))"

text \<open>The first part, up to the threads: the exit code, or the process.\<close>

definition prepare :: "int \<Rightarrow> ConfVar list \<Rightarrow> work_env \<Rightarrow> db_table option \<Rightarrow> process \<Rightarrow> int \<times> process + process" where
  "prepare pid cv env db p0 =
     (let p1 = p0\<lparr>pr_name := confvar_value cv CONF_GONGGO\<rparr>;
          p2 = gonggo_uuid_init (gonggo_log_context_init pid (confvar_value cv CONF_LOGPATH) p1);
          p3 = db_context_init (the (pr_name p2)) (the (confvar_value cv CONF_DBPATH)) (killer_init p2);
          (ok, db') = db_ensure (we_ensure env) db
      in if \<not> ok then Inl (ERROR_DBINIT, clean_up False p3)
         else let p4 = p3\<lparr>pr_g := (pr_g p3)\<lparr>g_db := (case db' of None \<Rightarrow> [] | Some t \<Rightarrow> t)\<rparr>\<rparr> in
           if \<not> we_sigaction env then Inl (ERROR_TERMHANDLER, clean_up False p4)
           else let p5 = create_tables p4;
                    (alive_ok, p6) = alive_mutex_create (we_alive_shm env) True p5
                in if \<not> alive_ok then Inl (ERROR_START, clean_up False p6)
                   else let (act_ok, p7) = proxy_activator_context_init (we_activator_shm env) p6
                        in if \<not> act_ok then Inl (ERROR_START, clean_up False p7)
                           else Inr p7)"

definition init_contexts :: "ConfVar list \<Rightarrow> work_env \<Rightarrow> process \<Rightarrow> process" where
  "init_contexts cv env p0 =
     (let number = (\<lambda>key. read_long cv key (we_errno env) (we_garbage env));
          p1 = proxy_terminator_context_init p0;
          p2 = db_respond_drain_context_init (number CONF_RESPONDDRAINOVERDUE) (number CONF_RESPONDDRAINPERIOD) p1
      in client_timeout_context_init (number CONF_CLIENTTIMEOUTPERIOD) p2)"

text \<open>\<open>mg_start2\<close> with the options of the configuration.\<close>

definition web_started :: "ConfVar list \<Rightarrow> work_env \<Rightarrow> bool" where
  "web_started cv env = we_mg_start env (fst (web_options cv (we_errno env) (we_garbage env)))"

definition work ::
    "int \<Rightarrow> ConfVar list \<Rightarrow> work_env \<Rightarrow> db_table option \<Rightarrow> process \<Rightarrow> (int \<times> process) blocking" where
  "work pid cv env db p0 =
     (case prepare pid cv env db p0 of
        Inl result \<Rightarrow> Done result
      | Inr p1 \<Rightarrow>
          (let p2 = start_service_threads (we_create env) (init_contexts cv env p1)
           in if \<not> proxy_activator_isstarted p2 \<or> \<not> db_respond_drain_isstarted p2 \<or>
                 \<not> client_timeout_isstarted p2 \<or> \<not> proxy_terminator_isstarted p2
              then abandon p2
              else let p3 = other_threads (we_starting env) (set_up MgLibrary p2)
                   in if \<not> web_started cv env then abandon (alive_mutex_die p3)
                      else serve env (set_up MgContext p3)))"

end
