(* ===== verification/Startup_Guarantees.thy ===== *)
theory Startup_Guarantees
  imports Startup
begin

text \<open>
  What the start and the end of the server guarantee: the exit code, that nothing is left behind, the
  order of destruction, and what happens to the threads of proxies.
\<close>

section \<open>Objects\<close>

named_theorems process_simps "what the steps of the life cycle do to the fields of a process"

lemma made_steps [process_simps]:
  "made x (set_up y p) \<longleftrightarrow> x = y \<or> made x p"
  "made x (tear_down y p) \<longleftrightarrow> x \<noteq> y \<and> made x p"
  "made x (discard y p) \<longleftrightarrow> x \<noteq> y \<and> made x p"
  "made x (set_ptr y u n t p) \<longleftrightarrow> (if x = y then t \<noteq> None else made x p)"
  by (auto simp: set_up_def tear_down_def discard_def set_ptr_def split: option.splits)

text \<open>The fields that setting up and tearing down an object leave alone.\<close>

definition threads_view where
  "threads_view p = (pr_started p, pr_end p, pr_running p, pr_alive_locked p, pr_name p, pr_alive_path p, pr_exit p)"

lemma view_steps [process_simps]:
  "threads_view (set_up y p) = threads_view p" "threads_view (tear_down y p) = threads_view p"
  "threads_view (discard y p) = threads_view p" "threads_view (set_ptr y u n t p) = threads_view p"
  "threads_view (p\<lparr>pr_g := g\<rparr>) = threads_view p" "threads_view (p\<lparr>pr_orphans := os\<rparr>) = threads_view p"
  "threads_view (p\<lparr>pr_log := l\<rparr>) = threads_view p"
  by (auto simp: threads_view_def set_up_def tear_down_def discard_def set_ptr_def split: option.splits)

lemma pr_g_steps [process_simps]:
  "pr_g (set_up y p) = pr_g p" "pr_g (tear_down y p) = pr_g p" "pr_g (discard y p) = pr_g p"
  "pr_g (set_ptr y u n t p) = u (case t of None \<Rightarrow> n | Some v \<Rightarrow> v) (pr_g p)"
  by (auto simp: set_up_def tear_down_def discard_def set_ptr_def split: option.splits)

lemma orphans_steps [process_simps]:
  "pr_orphans (set_up y p) = pr_orphans p" "pr_orphans (tear_down y p) = pr_orphans p"
  "pr_orphans (discard y p) = pr_orphans p" "pr_orphans (set_ptr y u n t p) = pr_orphans p"
  by (auto simp: set_up_def tear_down_def discard_def set_ptr_def split: option.splits)

lemma alive_path_steps [process_simps]:
  "pr_alive_path (set_up y p) = pr_alive_path p" "pr_alive_path (tear_down y p) = pr_alive_path p"
  "pr_alive_path (discard y p) = pr_alive_path p"
  by (simp_all add: set_up_def tear_down_def discard_def)

text \<open>The three tables of running threads.\<close>

definition thread_tables :: "gonggo \<Rightarrow> subscribe_table \<times> channel_table \<times> alive_table" where
  "thread_tables g = (g_subscribes g, g_channels g, g_alives g)"

declare thread_tables_def [simp]

lemma tables_destroyed [simp]:
  "proxy_subscribe_thread_table_destroy a = None" "proxy_channel_thread_table_destroy b = None"
  "proxy_alive_thread_table_destroy c = None" "client_request_table_destroy d = None"
  "client_connection_table_destroy e = None" "client_service_table_destroy f = None"
  "client_proxyname_table_destroy g = None" "proxy_terminate_array_destroy h = None"
  by (simp_all add: proxy_subscribe_thread_table_destroy_def proxy_channel_thread_table_destroy_def
      proxy_alive_thread_table_destroy_def client_request_table_destroy_def
      client_connection_table_destroy_def client_service_table_destroy_def
      client_proxyname_table_destroy_def proxy_terminate_array_destroy_def split: option.splits)

definition table_objects :: "object set" where
  "table_objects = {SubscribeThreads, ChannelThreads, AliveThreads, Requests, Connections, Services, Proxynames,
     TerminateArr}"

lemma destroy_tables_made [process_simps]:
  "made x (destroy_tables p) \<longleftrightarrow> x \<notin> table_objects \<and> made x p"
  by (auto simp: destroy_tables_def destroy_thread_tables_def Let_def process_simps table_objects_def)

lemma destroy_tables_view [process_simps]: "threads_view (destroy_tables p) = threads_view p"
  by (simp add: destroy_tables_def destroy_thread_tables_def Let_def process_simps)

lemma destroy_tables_orphans [process_simps]:
  "pr_orphans (destroy_tables p) =
     (if made SubscribeThreads p then ht_keys (g_subscribes (pr_g p)) else pr_orphans p)"
  by (simp add: destroy_tables_def destroy_thread_tables_def Let_def process_simps)

section \<open>clean\_up\<close>

definition cleaned :: "bool \<Rightarrow> object set" where
  "cleaned http = {LogLock, UuidLock, AlivePath, MgLibrary, DbLock, DbPath, KillLock, ZombieLock, TerminatingArr} \<union>
     table_objects \<union> (if http then {MgContext} else {})"

lemma clean_up_made:
  "made x (clean_up http p) \<longleftrightarrow> x \<notin> cleaned http \<and> (x = AliveMapping \<longrightarrow> \<not> made AliveShm p) \<and> made x p"
  by (auto simp: clean_up_def Let_def process_simps cleaned_def table_objects_def killer_destroy_def
      db_context_destroy_def alive_mutex_destroy_def gonggo_uuid_destroy_def gonggo_log_context_destroy_def)

lemma clean_up_view: "threads_view (clean_up http p) = threads_view p"
  by (simp add: clean_up_def Let_def process_simps killer_destroy_def
      db_context_destroy_def alive_mutex_destroy_def gonggo_uuid_destroy_def gonggo_log_context_destroy_def)

lemma clean_up_orphans:
  "pr_orphans (clean_up http p) =
     (if made SubscribeThreads p then ht_keys (g_subscribes (pr_g p)) else pr_orphans p)"
  by (simp add: clean_up_def Let_def process_simps killer_destroy_def
      db_context_destroy_def alive_mutex_destroy_def gonggo_uuid_destroy_def gonggo_log_context_destroy_def)

text \<open>Names disappear from the namespace and none appear.\<close>

lemma set_ptr_segments:
  "g_segments (u (case t of None \<Rightarrow> n | Some v \<Rightarrow> v) g) = g_segments g \<Longrightarrow> pr_g p = g \<Longrightarrow>
     g_segments (pr_g (set_ptr y u n t p)) = g_segments g"
  by (simp add: process_simps)

definition fewer_segments :: "process \<Rightarrow> process \<Rightarrow> bool" where
  "fewer_segments p q \<longleftrightarrow>
     (\<forall>x. ht_lookup (g_segments (pr_g p)) x = None \<longrightarrow> ht_lookup (g_segments (pr_g q)) x = None)"

lemma fewer_segments_trans: "fewer_segments p q \<Longrightarrow> fewer_segments q r \<Longrightarrow> fewer_segments p r"
  by (simp add: fewer_segments_def)

lemma destroy_tables_segments: "fewer_segments p (destroy_tables p)"
  by (simp add: fewer_segments_def destroy_tables_def destroy_thread_tables_def Let_def process_simps upd_defs
      contexts_destroy_def del: not_None_eq)

lemma clean_up_segments:
  "fewer_segments p (clean_up http p)"
  "made AlivePath p \<Longrightarrow> ht_lookup (g_segments (pr_g (clean_up http p))) (pr_alive_path p) = None"
proof -
  let ?q = "destroy_tables (gonggo_uuid_destroy (gonggo_log_context_destroy p))"
  have g: "g_segments (pr_g (clean_up http p)) = g_segments (pr_g (alive_mutex_destroy ?q))"
    by (simp add: clean_up_def Let_def process_simps killer_destroy_def db_context_destroy_def)
  have "fewer_segments p ?q"
    using destroy_tables_segments [of "gonggo_uuid_destroy (gonggo_log_context_destroy p)"]
    by (simp add: fewer_segments_def gonggo_uuid_destroy_def gonggo_log_context_destroy_def process_simps)
  moreover have "fewer_segments ?q (alive_mutex_destroy ?q)"
    by (simp add: fewer_segments_def alive_mutex_destroy_def Let_def process_simps shm_unlink_def)
  ultimately show "fewer_segments p (clean_up http p)"
    using g by (simp add: fewer_segments_def)
  assume "made AlivePath p"
  moreover have "threads_view ?q = threads_view p"
    by (simp add: process_simps gonggo_uuid_destroy_def gonggo_log_context_destroy_def)
  then have "pr_alive_path ?q = pr_alive_path p" by (simp add: threads_view_def)
  ultimately show "ht_lookup (g_segments (pr_g (clean_up http p))) (pr_alive_path p) = None"
    unfolding g alive_mutex_destroy_def Let_def
    by (simp add: process_simps shm_unlink_def table_objects_def gonggo_uuid_destroy_def
        gonggo_log_context_destroy_def)
qed

section \<open>threads\_stop\<close>

definition thread_objects :: "object set" where
  "thread_objects = {ActivatorShm, ActivatorPath, TerminatorLock, TerminatorQueue, DrainLock, TimeoutLock}"

lemmas started_defs = proxy_activator_isstarted_def db_respond_drain_isstarted_def
  client_timeout_isstarted_def proxy_terminator_isstarted_def
lemmas stop_defs = proxy_activator_stop_def db_respond_drain_stop_def client_timeout_stop_def
  proxy_terminator_stop_def ask_to_end_def
lemmas thread_context_destroy_defs = proxy_activator_context_destroy_def db_respond_drain_context_destroy_def
  client_timeout_context_destroy_def proxy_terminator_context_destroy_def

text \<open>The end flags and joins, without the contexts.\<close>

definition stopped :: "process \<Rightarrow> process \<Rightarrow> bool" where
  "stopped p q \<longleftrightarrow> pr_g q = pr_g p \<and> pr_made q = pr_made p \<and> pr_started q = pr_started p \<and>
     (\<forall>t. pr_running q t \<longleftrightarrow> pr_running p t \<and> \<not> pr_started p t) \<and> pr_alive_locked q = pr_alive_locked p \<and>
     pr_alive_path q = pr_alive_path p \<and> pr_orphans q = pr_orphans p \<and>
     pr_trace q = pr_trace p @ map Joined (filter (pr_started p)
       [ProxyActivator, RespondDrain, ClientTimeout, ProxyTerminator])"

lemma all_threads:
  "(\<forall>t. P t) \<longleftrightarrow> P ProxyActivator \<and> P RespondDrain \<and> P ClientTimeout \<and> P ProxyTerminator"
  by (metis service_thread.exhaust)

lemma stop_and_join_done: "\<exists>q. stop_and_join p = Done q \<and> stopped p q"
  by (cases "pr_started p ProxyActivator"; cases "pr_started p RespondDrain";
      cases "pr_started p ClientTimeout"; cases "pr_started p ProxyTerminator")
    (simp_all add: stop_and_join_def started_defs stop_defs join_if_def join_thread_def Let_def stopped_def
      all_threads)

text \<open>What \<open>threads_stop\<close> leaves: no thread that was started, none of the four contexts.\<close>

definition after_stop :: "process \<Rightarrow> process \<Rightarrow> bool" where
  "after_stop p q \<longleftrightarrow> (\<forall>x. made x q \<longleftrightarrow> x \<notin> thread_objects \<and> made x p) \<and>
     (\<forall>t. pr_running q t \<longleftrightarrow> pr_running p t \<and> \<not> pr_started p t) \<and> pr_started q = pr_started p \<and>
     pr_alive_locked q = pr_alive_locked p \<and>
     pr_alive_path q = pr_alive_path p \<and> pr_orphans q = pr_orphans p \<and> fewer_segments p q \<and>
     thread_tables (pr_g q) = thread_tables (pr_g p) \<and>
     (made ActivatorPath p \<longrightarrow> (\<forall>path. g_path (pr_g p) = Some path \<longrightarrow> ht_lookup (g_segments (pr_g q)) path = None))"

lemma threads_stop_done: "\<exists>q. threads_stop p = Done q \<and> after_stop p q"
proof -
  obtain q where q: "stop_and_join p = Done q" "stopped p q" using stop_and_join_done by blast
  let ?r = "proxy_terminator_context_destroy (client_timeout_context_destroy
      (db_respond_drain_context_destroy (proxy_activator_context_destroy q)))"
  have v: "threads_view ?r = threads_view q"
    by (simp add: thread_context_destroy_defs Let_def process_simps)
  have m: "made x ?r \<longleftrightarrow> x \<notin> thread_objects \<and> made x q" for x
    by (auto simp: thread_context_destroy_defs Let_def process_simps thread_objects_def)
  have s: "ht_lookup (g_segments (pr_g ?r)) x =
      (if made ActivatorPath q \<and> g_path (pr_g q) = Some x then None else ht_lookup (g_segments (pr_g q)) x)" for x
    by (auto simp: thread_context_destroy_defs Let_def process_simps shm_unlink_def split: option.splits)
  have g: "g_subscribes (pr_g ?r) = g_subscribes (pr_g q)" "g_channels (pr_g ?r) = g_channels (pr_g q)"
    "g_alives (pr_g ?r) = g_alives (pr_g q)" "pr_orphans ?r = pr_orphans q"
    by (auto simp: thread_context_destroy_defs Let_def process_simps shm_unlink_def split: option.splits)
  have "after_stop p ?r"
    using v q(2) by (simp add: after_stop_def m s g threads_view_def stopped_def fewer_segments_def)
  then show ?thesis using q(1) by (simp add: threads_stop_def)
qed

lemma threads_stop_returns: "threads_stop p \<noteq> Blocked"
  using threads_stop_done [of p] by auto

section \<open>The first part\<close>

text \<open>The program is started where shared memory may hold segments that an earlier run left.\<close>

definition boot :: "(string, segment) table \<Rightarrow> process" where
  "boot segs = fresh_process\<lparr>pr_g := (pr_g fresh_process)\<lparr>g_segments := segs\<rparr>\<rparr>"

definition can_open :: "shm_status \<Rightarrow> bool \<Rightarrow> bool" where
  "can_open s there \<longleftrightarrow>
     (if there \<and> \<not> sn_denied s then sn_errno s = ENOENT \<longrightarrow> \<not> sn_create_fails s
      else \<not> there \<and> \<not> sn_create_fails s)"

lemma open_or_create_frame [process_simps]:
  "pr_made (snd (open_or_create s path p)) = pr_made p"
  "threads_view (snd (open_or_create s path p)) = threads_view p"
  "pr_orphans (snd (open_or_create s path p)) = pr_orphans p"
  "thread_tables (pr_g (snd (open_or_create s path p))) = thread_tables (pr_g p)"
  "g_path (pr_g (snd (open_or_create s path p))) = g_path (pr_g p)"
  by (simp_all add: open_or_create_def Let_def threads_view_def)

lemma open_or_create_segments:
  "x \<noteq> path \<Longrightarrow> ht_lookup (g_segments (pr_g (snd (open_or_create s path p)))) x = ht_lookup (g_segments (pr_g p)) x"
  by (simp add: open_or_create_def Let_def)

lemma open_or_create_ok:
  "fst (open_or_create s path p) = can_open s (ht_lookup (g_segments (pr_g p)) path \<noteq> None)"
  by (simp add: open_or_create_def can_open_def Let_def ENOENT_def EACCES_def del: not_None_eq)

definition base_objects :: "object set" where
  "base_objects = {LogLock, UuidLock, KillLock, ZombieLock, TerminatingArr, DbLock, DbPath}"

definition shm_objects :: "object set" where
  "shm_objects = {AliveMapping, AliveShm, AlivePath, ActivatorShm, ActivatorPath}"

definition alive_path :: "string \<Rightarrow> string" where "alive_path n = ''/'' @ n @ ''_alive''"
definition activator_path :: "string \<Rightarrow> string" where "activator_path n = ''/'' @ n"

lemma paths_differ: "activator_path n \<noteq> alive_path n"
  by (simp add: alive_path_def activator_path_def)

text \<open>What the state is when the threads are about to be started.\<close>

definition prepared :: "string \<Rightarrow> object set \<Rightarrow> process \<Rightarrow> bool" where
  "prepared n objs p \<longleftrightarrow> (\<forall>x. made x p \<longleftrightarrow> x \<in> objs) \<and> pr_name p = Some n \<and> pr_exit p = False \<and>
     pr_started p = (\<lambda>_. False) \<and> pr_running p = (\<lambda>_. False) \<and> \<not> pr_alive_locked p \<and> pr_orphans p = []"

lemma prepared_view:
  "prepared n objs p \<longleftrightarrow> (\<forall>x. made x p \<longleftrightarrow> x \<in> objs) \<and> pr_orphans p = [] \<and>
     (\<exists>e l. threads_view p = ((\<lambda>_. False), e, (\<lambda>_. False), False, Some n, l, False))"
  by (auto simp: prepared_def threads_view_def)

lemma prepared_base:
  fixes segs path lp n pid
  assumes "confvar_value cv CONF_GONGGO = Some n"
  defines "p3 \<equiv> db_context_init n path (killer_init (gonggo_uuid_init (gonggo_log_context_init pid lp
        ((boot segs)\<lparr>pr_name := confvar_value cv CONF_GONGGO\<rparr>))))"
  shows "prepared n base_objects p3" "g_segments (pr_g p3) = segs" "thread_tables (pr_g p3) = ([], [], [])"
    "pr_name p3 = Some n"
  using assms(1)
  by (auto simp: p3_def db_context_init_def killer_init_def gonggo_uuid_init_def gonggo_log_context_init_def
      boot_def fresh_process_def set_up_def Let_def prepared_def base_objects_def proxy_thread_killer_init_def
      initial_gonggo_def)

lemma create_tables_prepared:
  assumes "prepared n base_objects p"
  shows "prepared n (base_objects \<union> table_objects) (create_tables p)"
    "g_segments (pr_g (create_tables p)) = g_segments (pr_g p)" "pr_name (create_tables p) = Some n"
    "thread_tables (pr_g (create_tables p)) = ([], [], [])"
proof -
  have m: "made x p \<longleftrightarrow> x \<in> base_objects" for x using assms by (simp add: prepared_def)
  have "threads_view (create_tables p) = threads_view p" "pr_orphans (create_tables p) = pr_orphans p"
    by (simp_all add: create_tables_def Let_def process_simps)
  moreover have "made x (create_tables p) \<longleftrightarrow> x \<in> base_objects \<union> table_objects" for x
    by (auto simp: create_tables_def Let_def process_simps m base_objects_def table_objects_def
        ptr_def proxy_subscribe_thread_table_create_def proxy_channel_thread_table_create_def
        proxy_alive_thread_table_create_def client_request_table_create_def
        client_connection_table_create_def client_service_table_create_def
        client_proxyname_table_create_def proxy_terminate_array_create_def)
  ultimately show "prepared n (base_objects \<union> table_objects) (create_tables p)"
    using assms by (simp add: prepared_view)
  then show "pr_name (create_tables p) = Some n" by (simp add: prepared_def)
  show "g_segments (pr_g (create_tables p)) = g_segments (pr_g p)"
    by (simp add: create_tables_def Let_def process_simps upd_defs)
  show "thread_tables (pr_g (create_tables p)) = ([], [], [])"
    by (simp add: create_tables_def Let_def process_simps upd_defs ptr_def m base_objects_def
        proxy_subscribe_thread_table_create_def proxy_channel_thread_table_create_def
        proxy_alive_thread_table_create_def)
qed

definition shm_ok :: "shm_status \<Rightarrow> bool \<Rightarrow> bool" where
  "shm_ok s there \<longleftrightarrow> can_open s there \<and> sn_mmap s"

definition alive_objects :: "object set" where
  "alive_objects = {AliveMapping, AliveShm, AlivePath}"

lemma alive_create:
  assumes "prepared n objs p" "alive_mutex_create s a p = (ok, q)" "objs \<inter> shm_objects = {}"
  shows "ok \<longleftrightarrow> shm_ok s (ht_lookup (g_segments (pr_g p)) (alive_path n) \<noteq> None)"
    and "prepared n (if ok then objs \<union> alive_objects else objs) q"
    and "pr_alive_path q = alive_path n"
    and "x \<noteq> alive_path n \<Longrightarrow> ht_lookup (g_segments (pr_g q)) x = ht_lookup (g_segments (pr_g p)) x"
    and "thread_tables (pr_g q) = thread_tables (pr_g p)"
proof -
  have n: "the (pr_name p) = n" using assms(1) by (simp add: prepared_def)
  let ?p1 = "set_up AlivePath (p\<lparr>pr_alive_path := alive_path n\<rparr>)"
  obtain fd p2 where o1: "open_or_create s (alive_path n) ?p1 = (fd, p2)" by fastforce
  note f = open_or_create_frame [of s "alive_path n" ?p1, unfolded o1, simplified]
  have ok: "fd \<longleftrightarrow> can_open s (ht_lookup (g_segments (pr_g p)) (alive_path n) \<noteq> None)"
    using open_or_create_ok [of s "alive_path n" ?p1] o1 by (simp add: process_simps)
  have r: "ok \<longleftrightarrow> fd \<and> sn_mmap s"
    "q = (if ok then (set_up AliveShm (set_up AliveMapping p2))\<lparr>pr_alive := a\<rparr> else tear_down AlivePath p2)"
    using assms(2) o1 n by (auto simp: alive_mutex_create_def Let_def alive_path_def split: if_splits)
  show "ok \<longleftrightarrow> shm_ok s (ht_lookup (g_segments (pr_g p)) (alive_path n) \<noteq> None)"
    using r(1) ok by (simp add: shm_ok_def)
  have v: "threads_view q = threads_view p2"
    using r(2) by (simp add: process_simps) (simp add: threads_view_def set_up_def)
  have v2: "threads_view p2 = threads_view (p\<lparr>pr_alive_path := alive_path n\<rparr>)" using f by (simp add: process_simps)
  have m: "made x q \<longleftrightarrow> x \<in> (if ok then objs \<union> alive_objects else objs)" for x
    using r(2) f(1) assms(1,3)
    by (auto simp: process_simps prepared_def alive_objects_def shm_objects_def set_up_def)
  have o: "pr_orphans q = []" using r(2) f(3) assms(1) by (auto simp: process_simps prepared_def set_up_def)
  show "prepared n (if ok then objs \<union> alive_objects else objs) q"
    using v v2 m o assms(1) by (simp add: prepared_view) (simp add: threads_view_def)
  show "pr_alive_path q = alive_path n" using v v2 by (simp add: threads_view_def)
  show "thread_tables (pr_g q) = thread_tables (pr_g p)"
    using r(2) f(4) by (simp add: process_simps)
  show "ht_lookup (g_segments (pr_g q)) x = ht_lookup (g_segments (pr_g p)) x" if "x \<noteq> alive_path n"
    using r(2) open_or_create_segments [OF that, of s ?p1] o1
    by (simp add: process_simps)
qed

lemma activator_init:
  assumes "prepared n objs p" "proxy_activator_context_init s p = (ok, q)"
    and "ActivatorShm \<notin> objs" "ActivatorPath \<notin> objs"
  shows "ok \<longleftrightarrow> shm_ok s (ht_lookup (g_segments (pr_g p)) (activator_path n) \<noteq> None)"
    and "prepared n (if ok then objs \<union> {ActivatorShm, ActivatorPath} else objs) q"
    and "ok \<Longrightarrow> g_path (pr_g q) = Some (activator_path n)"
    and "pr_alive_path q = pr_alive_path p"
    and "x \<noteq> activator_path n \<Longrightarrow> ht_lookup (g_segments (pr_g q)) x = ht_lookup (g_segments (pr_g p)) x"
    and "thread_tables (pr_g q) = thread_tables (pr_g p)"
proof -
  have n: "the (pr_name p) = n" using assms(1) by (simp add: prepared_def)
  let ?p1 = "set_up ActivatorPath (p\<lparr>pr_g := (pr_g p)\<lparr>g_path := Some (activator_path n)\<rparr>\<rparr>)"
  obtain fd p2 where o1: "open_or_create s (activator_path n) ?p1 = (fd, p2)" by fastforce
  note f = open_or_create_frame [of s "activator_path n" ?p1, unfolded o1, simplified]
  have ok: "fd \<longleftrightarrow> can_open s (ht_lookup (g_segments (pr_g p)) (activator_path n) \<noteq> None)"
    using open_or_create_ok [of s "activator_path n" ?p1] o1 by (simp add: process_simps)
  have r: "ok \<longleftrightarrow> fd \<and> sn_mmap s"
    "q = (if ok then (set_up ActivatorShm p2)\<lparr>pr_activator :=
                 (pr_activator p2)\<lparr>as_proxy_name := [], as_state := ACTIVATION_INIT\<rparr>\<rparr>
          else tear_down ActivatorPath (p2\<lparr>pr_g := (pr_g p2)\<lparr>g_path := None\<rparr>\<rparr>))"
    using assms(2) o1 n
    by (auto simp: proxy_activator_context_init_def proxy_activator_shm_create_def Let_def activator_path_def
        set_up_def split: if_splits)
  show "ok \<longleftrightarrow> shm_ok s (ht_lookup (g_segments (pr_g p)) (activator_path n) \<noteq> None)"
    using r(1) ok by (simp add: shm_ok_def)
  have v: "threads_view q = threads_view p2"
    using r(2) by (simp add: process_simps) (simp add: threads_view_def set_up_def)
  have v2: "threads_view p2 = threads_view p" using f by (simp add: process_simps)
  have m: "made x q \<longleftrightarrow> x \<in> (if ok then objs \<union> {ActivatorShm, ActivatorPath} else objs)" for x
    using r(2) f(1) assms(1,3,4) by (auto simp: process_simps prepared_def set_up_def)
  have o: "pr_orphans q = []" using r(2) f(3) assms(1) by (auto simp: process_simps prepared_def set_up_def)
  show "prepared n (if ok then objs \<union> {ActivatorShm, ActivatorPath} else objs) q"
    using v v2 m o assms(1) by (simp add: prepared_view)
  show "pr_alive_path q = pr_alive_path p" using v v2 by (simp add: threads_view_def)
  show "g_path (pr_g q) = Some (activator_path n)" if ok
    using that r(2) f(5) by (simp add: process_simps)
  show "thread_tables (pr_g q) = thread_tables (pr_g p)"
    using r(2) f(4) by (simp add: process_simps)
  show "ht_lookup (g_segments (pr_g q)) x = ht_lookup (g_segments (pr_g p)) x" if "x \<noteq> activator_path n"
    using r(2) open_or_create_segments [OF that, of s ?p1] o1
    by (simp add: process_simps)
qed

text \<open>The exit code of the first part, and the two segments the program shares under its own name.\<close>

definition prepare_code :: "work_env \<Rightarrow> string \<Rightarrow> (string, segment) table \<Rightarrow> int" where
  "prepare_code env n segs =
     (if db_error (es_open (we_ensure env)) \<or> db_error (es_exec (we_ensure env)) then ERROR_DBINIT
      else if \<not> we_sigaction env then ERROR_TERMHANDLER
      else if \<not> shm_ok (we_alive_shm env) (ht_lookup segs (alive_path n) \<noteq> None) \<or>
              \<not> shm_ok (we_activator_shm env) (ht_lookup segs (activator_path n) \<noteq> None) then ERROR_START
      else 0)"

definition all_ready :: "string \<Rightarrow> process \<Rightarrow> bool" where
  "all_ready n p \<longleftrightarrow> prepared n (base_objects \<union> table_objects \<union> shm_objects) p \<and>
     g_path (pr_g p) = Some (activator_path n) \<and> pr_alive_path p = alive_path n \<and> thread_tables (pr_g p) = ([], [], [])"

text \<open>What a process that has cleaned up after a failure of the first part has not left behind.\<close>

definition nothing_left :: "process \<Rightarrow> bool" where
  "nothing_left p \<longleftrightarrow> (\<forall>x. x \<noteq> AliveShm \<longrightarrow> \<not> made x p) \<and> (\<forall>t. \<not> pr_running p t) \<and> \<not> pr_alive_locked p"

lemma clean_up_prepared:
  assumes "prepared n objs p" "objs \<subseteq> base_objects \<union> table_objects \<union> alive_objects"
    and "AliveMapping \<in> objs \<Longrightarrow> AliveShm \<in> objs"
  shows "nothing_left (clean_up False p)"
proof -
  have "\<not> made x (clean_up False p)" if "x \<noteq> AliveShm" for x
    using that assms
    by (auto simp: clean_up_made prepared_def cleaned_def base_objects_def alive_objects_def)
  then show ?thesis
    using clean_up_view [of False p] assms(1) by (auto simp: nothing_left_def prepared_def threads_view_def)
qed

lemma objects_disjoint: "(base_objects \<union> table_objects) \<inter> shm_objects = {}"
  by (auto simp: base_objects_def table_objects_def shm_objects_def)

lemma prepare_result:
  assumes "confvar_value cv CONF_GONGGO = Some n"
  shows "case prepare pid cv env db (boot segs) of
      Inl (code, p) \<Rightarrow> code = prepare_code env n segs \<and> code \<noteq> 0 \<and> nothing_left p
    | Inr p \<Rightarrow> prepare_code env n segs = 0 \<and> all_ready n p"
proof -
  let ?b = "(boot segs)\<lparr>pr_name := confvar_value cv CONF_GONGGO\<rparr>"
  let ?p2 = "gonggo_uuid_init (gonggo_log_context_init pid (confvar_value cv CONF_LOGPATH) ?b)"
  let ?p3 = "db_context_init n (the (confvar_value cv CONF_DBPATH)) (killer_init ?p2)"
  have name: "pr_name ?p2 = Some n"
    using assms by (simp add: gonggo_uuid_init_def gonggo_log_context_init_def set_up_def)
  note b = prepared_base [OF assms, where segs = segs and pid = pid and lp = "confvar_value cv CONF_LOGPATH"
      and path = "the (confvar_value cv CONF_DBPATH)"]
  obtain ok db' where d: "db_ensure (we_ensure env) db = (ok, db')" by fastforce
  have okd: "ok \<longleftrightarrow> \<not> db_error (es_open (we_ensure env)) \<and> \<not> db_error (es_exec (we_ensure env))"
    using d by (auto simp: db_ensure_def split: if_splits)
  let ?p4 = "?p3\<lparr>pr_g := (pr_g ?p3)\<lparr>g_db := (case db' of None \<Rightarrow> [] | Some t \<Rightarrow> t)\<rparr>\<rparr>"
  have p4: "prepared n base_objects ?p4" using b(1) by (simp add: prepared_def)
  let ?p5 = "create_tables ?p4"
  note p5 = create_tables_prepared [OF p4]
  have g5: "g_segments (pr_g ?p5) = segs" "thread_tables (pr_g ?p5) = ([], [], [])"
    using p5(2,4) b(2) by simp_all
  obtain a_ok p6 where a: "alive_mutex_create (we_alive_shm env) True ?p5 = (a_ok, p6)" by fastforce
  note al = alive_create [OF p5(1) a objects_disjoint]
  obtain c_ok p7 where c: "proxy_activator_context_init (we_activator_shm env) p6 = (c_ok, p7)" by fastforce
  have "ActivatorShm \<notin> (if a_ok then base_objects \<union> table_objects \<union> alive_objects else base_objects \<union> table_objects)"
    "ActivatorPath \<notin> (if a_ok then base_objects \<union> table_objects \<union> alive_objects else base_objects \<union> table_objects)"
    by (auto simp: base_objects_def table_objects_def alive_objects_def)
  note ac = activator_init [OF al(2) c this]
  have unfolded: "prepare pid cv env db (boot segs) =
     (if \<not> ok then Inl (ERROR_DBINIT, clean_up False ?p3)
      else if \<not> we_sigaction env then Inl (ERROR_TERMHANDLER, clean_up False ?p4)
      else if \<not> a_ok then Inl (ERROR_START, clean_up False p6)
      else if \<not> c_ok then Inl (ERROR_START, clean_up False p7) else Inr p7)"
    using name d a c by (simp add: prepare_def Let_def)
  have a_code: "a_ok \<longleftrightarrow> shm_ok (we_alive_shm env) (ht_lookup segs (alive_path n) \<noteq> None)"
    using al(1) g5 by simp
  have c_code: "c_ok \<longleftrightarrow> shm_ok (we_activator_shm env) (ht_lookup segs (activator_path n) \<noteq> None)"
    using ac(1) al(4) [OF paths_differ] g5 by simp
  have bt: "base_objects \<subseteq> base_objects \<union> table_objects \<union> alive_objects"
    "base_objects \<union> table_objects \<subseteq> base_objects \<union> table_objects \<union> alive_objects"
    "AliveMapping \<notin> base_objects" "AliveMapping \<notin> base_objects \<union> table_objects"
    by (auto simp: base_objects_def table_objects_def)
  consider "\<not> ok" | "ok" "\<not> we_sigaction env" | "ok" "we_sigaction env" "\<not> a_ok"
    | "ok" "we_sigaction env" "a_ok" "\<not> c_ok" | "ok" "we_sigaction env" "a_ok" "c_ok" by blast
  then show ?thesis
  proof cases
    case 1
    then show ?thesis using okd clean_up_prepared [OF b(1)] bt
      by (auto simp: unfolded prepare_code_def ERROR_DBINIT_def)
  next
    case 2
    then show ?thesis using okd clean_up_prepared [OF p4] bt
      by (simp add: unfolded prepare_code_def ERROR_TERMHANDLER_def)
  next
    case 3
    then have "nothing_left (clean_up False p6)" using clean_up_prepared [OF al(2)] bt by simp
    with 3 show ?thesis using okd a_code by (simp add: unfolded prepare_code_def ERROR_START_def)
  next
    case 4
    then have "nothing_left (clean_up False p7)"
      using clean_up_prepared [OF ac(2)] by (simp add: alive_objects_def)
    with 4 show ?thesis using okd a_code c_code by (simp add: unfolded prepare_code_def ERROR_START_def)
  next
    case 5
    have "base_objects \<union> table_objects \<union> alive_objects \<union> {ActivatorShm, ActivatorPath} =
        base_objects \<union> table_objects \<union> shm_objects" by (auto simp: alive_objects_def shm_objects_def)
    with 5 show ?thesis
      using okd a_code c_code ac(2,3,4,6) al(3,5) g5
      by (simp add: unfolded prepare_code_def all_ready_def)
  qed
qed

section \<open>The threads and the end\<close>

text \<open>A process that may be shut down: what \<open>threads_stop\<close> and \<open>clean_up\<close> rely on.\<close>

definition at_work :: "string \<Rightarrow> bool \<Rightarrow> process \<Rightarrow> bool" where
  "at_work n http p \<longleftrightarrow> made SubscribeThreads p \<and> made AlivePath p \<and> made AliveShm p \<and> made ActivatorPath p \<and>
     (made MgContext p \<longleftrightarrow> http) \<and> (\<forall>t. pr_running p t \<longrightarrow> pr_started p t) \<and> \<not> pr_alive_locked p \<and>
     pr_alive_path p = alive_path n \<and> g_path (pr_g p) = Some (activator_path n)"

lemma every_object: "x \<in> cleaned http \<union> thread_objects \<union> {AliveMapping, AliveShm, MgContext}"
  by (cases x) (auto simp: cleaned_def table_objects_def thread_objects_def)

definition shut :: "string \<Rightarrow> process \<Rightarrow> bool" where
  "shut n p \<longleftrightarrow> nothing_left p \<and> ht_lookup (g_segments (pr_g p)) (alive_path n) = None \<and>
     ht_lookup (g_segments (pr_g p)) (activator_path n) = None"

lemma shut_down:
  assumes "at_work n http p"
  shows "\<exists>q. threads_stop p = Done q \<and> shut n (clean_up http q) \<and>
    pr_orphans (clean_up http q) = ht_keys (g_subscribes (pr_g p))"
proof -
  obtain q where q: "threads_stop p = Done q" "after_stop p q" using threads_stop_done by blast
  note w = assms [unfolded at_work_def]
  have m: "made x q \<longleftrightarrow> x \<notin> thread_objects \<and> made x p" for x using q(2) by (simp add: after_stop_def)
  have "\<not> made x (clean_up http q)" if "x \<noteq> AliveShm" for x
    using every_object [of x http] that w
    by (auto simp: clean_up_made m thread_objects_def cleaned_def split: if_splits)
  moreover have "\<not> pr_running (clean_up http q) t" "\<not> pr_alive_locked (clean_up http q)" for t
    using clean_up_view [of http q] q(2) w by (auto simp: threads_view_def after_stop_def)
  moreover have "ht_lookup (g_segments (pr_g (clean_up http q))) (alive_path n) = None"
    using clean_up_segments(2) [of q http] m w q(2) by (simp add: thread_objects_def after_stop_def)
  moreover have "ht_lookup (g_segments (pr_g (clean_up http q))) (activator_path n) = None"
    using clean_up_segments(1) [of q http] w q(2) by (simp add: after_stop_def fewer_segments_def)
  moreover have "pr_orphans (clean_up http q) = ht_keys (g_subscribes (pr_g p))"
    using clean_up_orphans [of http q] m w q(2) by (simp add: thread_objects_def after_stop_def)
  ultimately show ?thesis using q(1) by (auto simp: shut_def nothing_left_def)
qed

definition all_created :: "work_env \<Rightarrow> bool" where
  "all_created env \<longleftrightarrow> we_create env RespondDrain \<and> we_create env ClientTimeout \<and>
     we_create env ProxyTerminator \<and> we_create env ProxyActivator"

lemma init_contexts_frame:
  "pr_started (init_contexts cv env p) = pr_started p" "pr_running (init_contexts cv env p) = pr_running p"
  "pr_alive_locked (init_contexts cv env p) = pr_alive_locked p"
  "pr_alive_path (init_contexts cv env p) = pr_alive_path p" "pr_exit (init_contexts cv env p) = pr_exit p"
  "g_path (pr_g (init_contexts cv env p)) = g_path (pr_g p)"
  "g_subscribes (pr_g (init_contexts cv env p)) = g_subscribes (pr_g p)"
  "g_channels (pr_g (init_contexts cv env p)) = g_channels (pr_g p)"
  "g_alives (pr_g (init_contexts cv env p)) = g_alives (pr_g p)"
  "made x (init_contexts cv env p) \<longleftrightarrow> x \<in> {TerminatorLock, TerminatorQueue, DrainLock, TimeoutLock} \<or> made x p"
  by (auto simp: init_contexts_def Let_def client_timeout_context_init_def db_respond_drain_context_init_def
      proxy_terminator_context_init_def set_up_def)

lemma start_service_threads_frame:
  fixes c :: "service_thread \<Rightarrow> bool"
  assumes "pr_started p = (\<lambda>_. False)" "pr_running p = (\<lambda>_. False)"
  defines "q \<equiv> start_service_threads c p"
  shows "made x q \<longleftrightarrow> made x p" "pr_alive_path q = pr_alive_path p" "pr_exit q = pr_exit p" "pr_g q = pr_g p"
    "pr_running q = pr_started q"
    "(\<forall>t. pr_started q t) \<longleftrightarrow> c RespondDrain \<and> c ClientTimeout \<and> c ProxyTerminator \<and> c ProxyActivator"
    "pr_alive_locked q \<longrightarrow> pr_alive_locked p \<or> (\<forall>t. pr_started q t)"
  using assms(1,2)
  by (simp_all add: q_def start_service_threads_def start_thread_def alive_mutex_lock_def alive_mutex_die_def
      Let_def all_threads)

text \<open>The state of the dispatcher and of the process when the threads are started.\<close>

lemma started_state:
  fixes env :: work_env and cv :: "ConfVar list"
  assumes "all_ready n p"
  defines "p2 \<equiv> start_service_threads (we_create env) (init_contexts cv env p)"
  shows "(\<forall>t. pr_started p2 t) \<longleftrightarrow> all_created env" "pr_exit p2 = False" "thread_tables (pr_g p2) = ([], [], [])"
    "at_work n False (p2\<lparr>pr_alive_locked := False\<rparr>)" "pr_alive_locked p2 \<longrightarrow> all_created env"
proof -
  have a: "made x p \<longleftrightarrow> x \<in> base_objects \<union> table_objects \<union> shm_objects" for x
    using assms(1) by (simp add: all_ready_def prepared_def)
  have r: "pr_started (init_contexts cv env p) = (\<lambda>_. False)" "pr_running (init_contexts cv env p) = (\<lambda>_. False)"
    using assms(1) by (simp_all add: init_contexts_frame all_ready_def prepared_def)
  note f = start_service_threads_frame [OF r, where c = "we_create env", folded p2_def]
  show s: "(\<forall>t. pr_started p2 t) \<longleftrightarrow> all_created env" using f(6) by (simp add: all_created_def)
  show "pr_exit p2 = False" "thread_tables (pr_g p2) = ([], [], [])"
    using f(3,4) assms(1) by (simp_all add: init_contexts_frame all_ready_def prepared_def)
  show "pr_alive_locked p2 \<longrightarrow> all_created env"
    using f(7) s assms(1) by (simp add: init_contexts_frame all_ready_def prepared_def)
  show "at_work n False (p2\<lparr>pr_alive_locked := False\<rparr>)"
    using f(1,2,4,5) assms(1) a
    by (simp add: at_work_def init_contexts_frame all_ready_def base_objects_def table_objects_def shm_objects_def)
qed

section \<open>The whole of \<open>work\<close>\<close>

lemma pause_done:
  "pr_exit p \<or> SIGTERM \<in> set signals \<Longrightarrow> pause_loop signals p = Done (p\<lparr>pr_exit := True\<rparr>)"
proof (induction signals arbitrary: p)
  case Nil
  then show ?case by (simp add: pause_loop.simps)
next
  case (Cons s signals)
  show ?case
  proof (cases "pr_exit p")
    case True
    then show ?thesis by (simp add: pause_loop.simps)
  next
    case False
    with Cons show ?thesis by (subst pause_loop.simps) (auto simp: handler_def)
  qed
qed

lemma kill_all_loop_path: "kill_all_loop ps g = Done (g', sigs) \<Longrightarrow> g_path g' = g_path g"
proof (induction ps arbitrary: g g' sigs)
  case (Cons p ps)
  from Cons.prems obtain g2 s2 s3 where
    k: "proxy_thread_kill p (g\<lparr>g_terminating := proxy_thread_terminating_set p (g_terminating g)\<rparr>) = Done (g2, s2)"
    "kill_all_loop ps (g2\<lparr>g_terminating := proxy_thread_terminating_drop p (g_terminating g2)\<rparr>) = Done (g', s3)"
    by (auto simp: Let_def split: blocking.splits)
  from Cons.IH [OF k(2)] kill_frame [OF k(1)] show ?case by (simp add: same_but_threads_def)
qed simp

definition keeps_path :: "(gonggo \<Rightarrow> gonggo) \<Rightarrow> bool" where
  "keeps_path f \<longleftrightarrow> (\<forall>g. g_path (f g) = g_path g)"

text \<open>What the end relies on: SIGTERM comes, and the proxies that are registered then have their three
  threads, none of whose channel mutexes a REST call has left locked.\<close>

definition may_end :: "work_env \<Rightarrow> bool" where
  "may_end env \<longleftrightarrow> SIGTERM \<in> set (we_signals env) \<and> iter_order (we_names env) \<and>
     (\<forall>g. thread_tables g = ([], [], []) \<longrightarrow>
        threads_linked (we_serving env (we_starting env g)) \<and> channels_free (we_serving env (we_starting env g)))"

definition no_threads :: "gonggo \<Rightarrow> bool" where
  "no_threads g \<longleftrightarrow> (\<forall>q. ht_lookup (g_subscribes g) q = None \<and> ht_lookup (g_channels g) q = None \<and>
     ht_lookup (g_alives g) q = None)"

lemma abandon_done:
  assumes "at_work n False p"
  shows "\<exists>q. abandon p = Done (ERROR_START, q) \<and> shut n q \<and> pr_orphans q = ht_keys (g_subscribes (pr_g p))"
proof -
  have "at_work n False (p\<lparr>pr_exit := True\<rparr>)" using assms by (simp add: at_work_def)
  from shut_down [OF this] show ?thesis by (auto simp: abandon_def)
qed

lemma serve_done:
  assumes w: "at_work n True (p\<lparr>pr_alive_locked := False\<rparr>)" and env: "keeps_path (we_serving env)" "keeps_path (we_late env)"
    and t: "SIGTERM \<in> set (we_signals env)" "iter_order (we_names env)"
      "threads_linked (we_serving env (pr_g p))" "channels_free (we_serving env (pr_g p))"
  shows "\<exists>q g. serve env p = Done (0, q) \<and> shut n q \<and> no_threads g \<and>
    pr_orphans q = ht_keys (g_subscribes (we_late env g))"
proof -
  let ?p2 = "alive_mutex_die (p\<lparr>pr_g := we_serving env (pr_g p), pr_exit := True\<rparr>)"
  obtain g sigs where g: "proxy_thread_kill_all (we_names env) (we_serving env (pr_g p)) = Done (g, sigs)"
    "no_threads g"
    using kill_all_ends [OF t(3,4,2)] by (auto simp: no_threads_def)
  have "g_path g = g_path (we_serving env (pr_g p))"
    using g(1) kill_all_loop_path by (auto simp: proxy_thread_kill_all_def)
  then have "at_work n True (other_threads (we_late env) (?p2\<lparr>pr_g := g\<rparr>))"
    using w env by (simp add: at_work_def alive_mutex_die_def other_threads_def keeps_path_def)
  from shut_down [OF this] obtain q where
    "threads_stop (other_threads (we_late env) (?p2\<lparr>pr_g := g\<rparr>)) = Done q" "shut n (clean_up True q)"
    "pr_orphans (clean_up True q) = ht_keys (g_subscribes (we_late env g))"
    by (auto simp: other_threads_def)
  with g pause_done [of "other_threads (we_serving env) p"] t(1) show ?thesis
    by (auto simp: serve_def other_threads_def alive_mutex_die_def)
qed

lemma work_branches:
  assumes name: "confvar_value cv CONF_GONGGO = Some n"
    and env: "keeps_path (we_starting env)" "keeps_path (we_serving env)" "keeps_path (we_late env)"
  shows "prepare_code env n segs \<noteq> 0 \<Longrightarrow>
      \<exists>p. work pid cv env db (boot segs) = Done (prepare_code env n segs, p) \<and> nothing_left p"
    and "prepare_code env n segs = 0 \<Longrightarrow> \<not> all_created env \<Longrightarrow>
      \<exists>p. work pid cv env db (boot segs) = Done (ERROR_START, p) \<and> shut n p \<and> pr_orphans p = []"
    and "prepare_code env n segs = 0 \<Longrightarrow> all_created env \<Longrightarrow> \<not> web_started cv env \<Longrightarrow>
      \<exists>p g. work pid cv env db (boot segs) = Done (ERROR_START, p) \<and> shut n p \<and>
        thread_tables g = ([], [], []) \<and> pr_orphans p = ht_keys (g_subscribes (we_starting env g))"
    and "prepare_code env n segs = 0 \<Longrightarrow> all_created env \<Longrightarrow> web_started cv env \<Longrightarrow> may_end env \<Longrightarrow>
      \<exists>p g. work pid cv env db (boot segs) = Done (0, p) \<and> shut n p \<and> no_threads g \<and>
        pr_orphans p = ht_keys (g_subscribes (we_late env g))"
proof -
  note pr = prepare_result [OF name, where pid = pid and env = env and db = db and segs = segs]
  show "\<exists>p. work pid cv env db (boot segs) = Done (prepare_code env n segs, p) \<and> nothing_left p"
    if "prepare_code env n segs \<noteq> 0"
    using pr that by (auto simp: work_def split: sum.splits)
  assume c0: "prepare_code env n segs = 0"
  with pr obtain p1 where p1: "prepare pid cv env db (boot segs) = Inr p1" "all_ready n p1"
    by (auto split: sum.splits)
  let ?p2 = "start_service_threads (we_create env) (init_contexts cv env p1)"
  note st = started_state [OF p1(2), where env = env and cv = cv]
  have started: "\<not> proxy_activator_isstarted ?p2 \<or> \<not> db_respond_drain_isstarted ?p2 \<or>
      \<not> client_timeout_isstarted ?p2 \<or> \<not> proxy_terminator_isstarted ?p2 \<longleftrightarrow> \<not> all_created env"
    using st(1) by (auto simp: started_defs all_threads)
  let ?p3 = "other_threads (we_starting env) (set_up MgLibrary ?p2)"
  have wk: "work pid cv env db (boot segs) =
      (if \<not> all_created env then abandon ?p2
       else if \<not> web_started cv env then abandon (alive_mutex_die ?p3) else serve env (set_up MgContext ?p3))"
    unfolding work_def p1(1) by (simp only: sum.case started Let_def)
  have g3: "pr_g ?p3 = we_starting env (pr_g ?p2)" by (simp add: other_threads_def process_simps)
  have a3: "at_work n False (?p3\<lparr>pr_alive_locked := False\<rparr>)"
    using st(4) env(1) by (simp add: at_work_def other_threads_def set_up_def keeps_path_def)
  show "\<exists>p. work pid cv env db (boot segs) = Done (ERROR_START, p) \<and> shut n p \<and> pr_orphans p = []"
    if n: "\<not> all_created env"
  proof -
    have "at_work n False ?p2" using st(4,5) n by (simp add: at_work_def)
    from abandon_done [OF this] show ?thesis using wk n st(3) by (simp add: ht_keys_def)
  qed
  show "\<exists>p g. work pid cv env db (boot segs) = Done (ERROR_START, p) \<and> shut n p \<and>
      thread_tables g = ([], [], []) \<and> pr_orphans p = ht_keys (g_subscribes (we_starting env g))"
    if "all_created env" "\<not> web_started cv env"
  proof -
    have "at_work n False (alive_mutex_die ?p3)" using a3 by (simp add: at_work_def alive_mutex_die_def)
    from abandon_done [OF this] wk that g3 st(3) show ?thesis
      by (auto simp: alive_mutex_die_def intro!: exI [of _ "pr_g ?p2"])
  qed
  show "\<exists>p g. work pid cv env db (boot segs) = Done (0, p) \<and> shut n p \<and> no_threads g \<and>
      pr_orphans p = ht_keys (g_subscribes (we_late env g))"
    if "all_created env" "web_started cv env" "may_end env"
  proof -
    have "at_work n True ((set_up MgContext ?p3)\<lparr>pr_alive_locked := False\<rparr>)"
      using a3 by (simp add: at_work_def set_up_def)
    from serve_done [OF this env(2,3)] wk that g3 st(3) show ?thesis
      by (simp add: may_end_def process_simps)
  qed
qed

section \<open>The order of destruction\<close>

lemma trace_steps [process_simps]:
  "pr_trace (set_up y p) = pr_trace p" "pr_trace (tear_down y p) = pr_trace p @ [Destroyed y]"
  "pr_trace (discard y p) = pr_trace p @ (if made y p then [Destroyed y] else [])"
  "pr_trace (set_ptr y u n None p) = pr_trace p @ (if made y p then [Destroyed y] else [])"
  by (simp_all add: set_up_def tear_down_def discard_def set_ptr_def)

definition table_order :: "object list" where
  "table_order = [SubscribeThreads, ChannelThreads, AliveThreads, Requests, Connections, Services, Proxynames,
     TerminateArr]"

lemma destroy_tables_trace:
  "pr_trace (destroy_tables p) = pr_trace p @ map Destroyed (filter (pr_made p) table_order)"
  by (simp add: destroy_tables_def destroy_thread_tables_def Let_def process_simps table_order_def)

lemma clean_up_trace:
  "\<exists>before between after. pr_trace (clean_up True p) =
     pr_trace p @ before @ map Destroyed (filter (pr_made p) table_order) @ between @ [Destroyed MgContext] @ after"
proof -
  let ?p2 = "gonggo_uuid_destroy (gonggo_log_context_destroy p)"
  let ?p4 = "alive_mutex_destroy (destroy_tables ?p2)"
  have "\<exists>t. pr_trace ?p2 = pr_trace p @ t"
    by (simp add: gonggo_uuid_destroy_def gonggo_log_context_destroy_def process_simps)
  then obtain before where 1: "pr_trace ?p2 = pr_trace p @ before" by blast
  have f: "filter (pr_made ?p2) table_order = filter (pr_made p) table_order"
    by (simp add: gonggo_uuid_destroy_def gonggo_log_context_destroy_def process_simps table_order_def)
  have "\<exists>t. pr_trace ?p4 = pr_trace (destroy_tables ?p2) @ t"
    by (simp add: alive_mutex_destroy_def Let_def process_simps)
  then obtain between where 2: "pr_trace ?p4 = pr_trace (destroy_tables ?p2) @ between" by blast
  have "\<exists>t. pr_trace (clean_up True p) = pr_trace (tear_down MgContext ?p4) @ t"
    by (simp add: clean_up_def killer_destroy_def db_context_destroy_def Let_def process_simps)
  then obtain after where "pr_trace (clean_up True p) = pr_trace (tear_down MgContext ?p4) @ after" by blast
  then have "pr_trace (clean_up True p) =
      pr_trace p @ before @ map Destroyed (filter (pr_made p) table_order) @ between @ [Destroyed MgContext] @ after"
    using 1 2 f by (simp add: process_simps destroy_tables_trace)
  then show ?thesis by blast
qed

lemma threads_stop_trace:
  assumes "threads_stop p = Done q"
  shows "\<exists>t. pr_trace q = pr_trace p @ map Joined (filter (pr_started p)
       [ProxyActivator, RespondDrain, ClientTimeout, ProxyTerminator]) @ t"
proof -
  obtain r where r: "stop_and_join p = Done r" "stopped p r" using stop_and_join_done by blast
  have "\<exists>t. pr_trace q = pr_trace r @ t"
    using assms r(1) by (auto simp: threads_stop_def thread_context_destroy_defs Let_def process_simps)
  with r(2) show ?thesis by (auto simp: stopped_def)
qed

section \<open>An environment for the witnesses\<close>

definition sample_shm_status :: shm_status where
  "sample_shm_status = \<lparr>sn_errno = 0, sn_denied = False, sn_create_fails = False, sn_mmap = True\<rparr>"

definition sample_work_env :: work_env where
  "sample_work_env = \<lparr>we_ensure = \<lparr>es_open = 0, es_exec = 0\<rparr>, we_sigaction = True,
     we_alive_shm = sample_shm_status, we_activator_shm = sample_shm_status, we_errno = 0, we_garbage = 0,
     we_create = (\<lambda>_. True), we_starting = id, we_mg_start = (\<lambda>_. True), we_serving = id, we_signals = [2, SIGTERM],
     we_names = id, we_late = id\<rparr>"

definition sample_conf :: "ConfVar list" where
  "sample_conf = [\<lparr>cv_name = CONF_GONGGO, cv_value = ''g''\<rparr>]"

lemma keeps_path_id [simp]: "keeps_path id"
  by (simp add: keeps_path_def)

lemma sample_work_facts:
  "confvar_value sample_conf CONF_GONGGO = Some ''g''" "prepare_code sample_work_env n [] = 0"
  "all_created sample_work_env" "may_end sample_work_env"
  by (auto simp: sample_conf_def sample_work_env_def prepare_code_def all_created_def may_end_def db_error_def
      SQLITE_OK_def shm_ok_def can_open_def sample_shm_status_def threads_linked_def channels_free_def ht_ok_def)

section \<open>Properties\<close>

text \<open>The exit code of the whole program.\<close>

definition work_code :: "ConfVar list \<Rightarrow> work_env \<Rightarrow> string \<Rightarrow> (string, segment) table \<Rightarrow> int" where
  "work_code cv env n segs =
     (if prepare_code env n segs \<noteq> 0 then prepare_code env n segs
      else if \<not> all_created env \<or> \<not> web_started cv env then ERROR_START else 0)"





text \<open>C35: proxies outlive the server's tables in two cases.  If the web server cannot be started, no proxy
  that was activated meanwhile is told to stop: all their threads still run when the tables they use are
  destroyed.  At a normal end the same holds for the proxies activated after all proxies were killed and
  before the activator is stopped, and for no others.\<close>

theorem threads_that_outlive_tables:
  assumes "confvar_value cv CONF_GONGGO = Some n"
    and "keeps_path (we_starting env)" "keeps_path (we_serving env)" "keeps_path (we_late env)"
    and "prepare_code env n segs = 0" "all_created env" "web_started cv env \<Longrightarrow> may_end env"
    and "work pid cv env db (boot segs) = Done (code, p)"
  shows "(\<not> web_started cv env \<longrightarrow> (\<exists>g. thread_tables g = ([], [], []) \<and>
        pr_orphans p = ht_keys (g_subscribes (we_starting env g)))) \<and>
    (web_started cv env \<longrightarrow> (\<exists>g. no_threads g \<and> pr_orphans p = ht_keys (g_subscribes (we_late env g))))"
  using work_branches(3,4) [where pid = pid and db = db and segs = segs, OF assms(1-6)] assms(7,8) by fastforce

text \<open>Proxy \<open>p\<close> is activated while the web server cannot start.\<close>

theorem threads_that_outlive_tables_witness:
  "\<exists>p. work 1 sample_conf (sample_work_env\<lparr>we_mg_start := (\<lambda>_. False), we_starting := (\<lambda>g. g\<lparr>g_subscribes :=
       ht_insert ''p'' \<lparr>te_thread = 1, te_ctx = proxy_subscribe_context_create ''p'' idle_subscribe_shm\<rparr>
         (g_subscribes g)\<rparr>)\<rparr>) None (boot []) = Done (ERROR_START, p) \<and> pr_orphans p = [''p'']"
proof -
  let ?env = "sample_work_env\<lparr>we_mg_start := (\<lambda>_. False), we_starting := (\<lambda>g. g\<lparr>g_subscribes :=
       ht_insert ''p'' \<lparr>te_thread = 1, te_ctx = proxy_subscribe_context_create ''p'' idle_subscribe_shm\<rparr>
         (g_subscribes g)\<rparr>)\<rparr>"
  have "prepare_code ?env ''g'' [] = prepare_code sample_work_env ''g'' []" by (simp add: prepare_code_def)
  then have env: "keeps_path (we_starting ?env)" "keeps_path (we_serving ?env)" "keeps_path (we_late ?env)"
    "prepare_code ?env ''g'' [] = 0" "all_created ?env" "\<not> web_started sample_conf ?env"
    using sample_work_facts(2) [of "''g''"]
    by (simp_all add: keeps_path_def all_created_def web_started_def) (simp_all add: sample_work_env_def)
  obtain p where p: "work 1 sample_conf ?env None (boot []) = Done (ERROR_START, p)"
    using work_branches(3) [OF sample_work_facts(1) env] by blast
  from threads_that_outlive_tables [OF sample_work_facts(1) env(1-5) _ p] env(6)
  have "\<exists>g. thread_tables g = ([], [], []) \<and> pr_orphans p = ht_keys (g_subscribes (we_starting ?env g))"
    by blast
  then have "pr_orphans p = [''p'']" by (auto simp: ht_keys_def ht_insert_def)
  with p show ?thesis by blast
qed

text \<open>A normal end joins the four threads before it destroys a table they use, but destroys all tables
  before it stops the web server, whose handlers use them.\<close>

theorem tables_go_before_web_server:
  assumes "serve env p = Done (code, q)" "\<forall>t. pr_started p t" "\<forall>x \<in> set table_order. made x p"
  shows "\<exists>before between after. pr_trace q = before @ map Destroyed table_order @ between @ [Destroyed MgContext] @ after \<and>
    (\<forall>t. Joined t \<in> set before)"
proof -
  obtain p1 g sigs p3 where
    p1: "pause_loop (we_signals env) (other_threads (we_serving env) p) = Done p1" and
    k: "proxy_thread_kill_all (we_names env) (pr_g (alive_mutex_die p1)) = Done (g, sigs)" and
    s: "threads_stop (other_threads (we_late env) ((alive_mutex_die p1)\<lparr>pr_g := g\<rparr>)) = Done p3" and
    q: "q = clean_up True p3"
    using assms(1) by (auto simp: serve_def Let_def split: blocking.splits)
  have "\<forall>ss r r1. pause_loop ss r = Done r1 \<longrightarrow> pr_started r1 = pr_started r \<and> pr_made r1 = pr_made r"
  proof (intro allI impI)
    fix ss r r1 show "pause_loop ss r = Done r1 \<Longrightarrow> pr_started r1 = pr_started r \<and> pr_made r1 = pr_made r"
    proof (induction ss arbitrary: r)
      case Nil then show ?case by (simp add: pause_loop.simps split: if_splits)
    next
      case (Cons s ss)
      then show ?case by (subst (asm) (2) pause_loop.simps) (auto simp: handler_def split: if_splits)
    qed
  qed
  with p1 have f: "pr_started p1 = pr_started p" "pr_made p1 = pr_made p" by (auto simp: other_threads_def)
  let ?p2 = "other_threads (we_late env) ((alive_mutex_die p1)\<lparr>pr_g := g\<rparr>)"
  have p2: "pr_started ?p2 = pr_started p" "pr_made ?p2 = pr_made p"
    using f by (simp_all add: other_threads_def alive_mutex_die_def)
  obtain t where t: "pr_trace p3 = pr_trace ?p2 @ map Joined [ProxyActivator, RespondDrain, ClientTimeout, ProxyTerminator] @ t"
    using threads_stop_trace [OF s] p2(1) assms(2) by auto
  have "after_stop ?p2 p3" using threads_stop_done [of ?p2] s by simp
  then have "\<forall>x \<in> set table_order. made x p3"
    using p2(2) assms(3) by (auto simp: after_stop_def thread_objects_def table_order_def)
  then have f3: "filter (pr_made p3) table_order = table_order" by (simp add: filter_id_conv)
  obtain a b c where "pr_trace q = pr_trace p3 @ a @ map Destroyed table_order @ b @ [Destroyed MgContext] @ c"
    using clean_up_trace [of p3] q f3 by auto
  moreover have "\<forall>u. Joined u \<in> set (pr_trace p3 @ a)" using t by (simp add: all_threads)
  ultimately show ?thesis by (metis append.assoc)
qed

theorem tables_go_before_web_server_witness:
  "\<exists>q before between after. serve sample_work_env
       ((boot [])\<lparr>pr_made := (\<lambda>_. True), pr_started := (\<lambda>_. True)\<rparr>) = Done (0, q) \<and>
     pr_trace q = before @ map Destroyed table_order @ between @ [Destroyed MgContext] @ after"
proof -
  let ?p = "(boot [])\<lparr>pr_made := (\<lambda>_. True), pr_started := (\<lambda>_. True)\<rparr>"
  have "serve sample_work_env ?p \<noteq> Blocked"
    by (simp add: threads_stop_returns serve_def sample_work_env_def other_threads_def pause_done boot_def fresh_process_def
        initial_gonggo_def proxy_thread_kill_all_def alive_mutex_die_def
        proxy_alive_thread_table_char_keys_create_def str_arr_create_keys_def ht_keys_def split: blocking.split)
  then obtain code q where s: "serve sample_work_env ?p = Done (code, q)" by (metis blocking.exhaust prod.exhaust)
  then have "code = 0" by (auto simp: serve_def Let_def split: blocking.splits)
  with s tables_go_before_web_server [OF s] show ?thesis by fastforce
qed

text \<open>The options handed to the web server always fit into the array of fourteen pointers with at least
  two null pointers at the end, and are the pairs of the configuration in order.\<close>

theorem web_options_fit:
  "let ping = read_long cv CONF_PING errno garbage;
       xs = (case confvar_value cv CONF_SSLCERT of None \<Rightarrow> [] | Some s \<Rightarrow> [Some ''ssl_certificate'', Some s]) @
         [Some ''listening_ports'', confvar_value cv CONF_PORT] @
         (case confvar_value cv CONF_THREADS of None \<Rightarrow> [] | Some s \<Rightarrow> [Some ''num_threads'', Some s]) @
         [Some ''enable_websocket_ping_pong'', Some (if ping > 0 then ''yes'' else ''no'')] @
         (if ping > 0 then [Some ''websocket_timeout_ms'', confvar_value cv CONF_PING] else []) @
         [Some ''error_log_file'', Some ''error.log'']
   in length xs \<le> 12 \<and> web_options cv errno garbage = (xs @ replicate (14 - length xs) None, length xs)"
  by (cases "confvar_value cv CONF_SSLCERT"; cases "confvar_value cv CONF_THREADS";
      cases "read_long cv CONF_PING errno garbage > 0")
    (simp_all add: web_options_def put_option_def Let_def numeral_eq_Suc)

text \<open>Where a segment of the server's own can be created but not mapped, the start fails and the name
  stays in shared memory: the path is forgotten, so the clean-up that follows does not unlink it.\<close>

theorem failed_mapping_leaves_segment:
  assumes "\<not> sn_mmap s" "\<not> sn_create_fails s" "ht_lookup (g_segments (pr_g p)) (alive_path n) = None"
    and "pr_name p = Some n" "\<not> made AliveShm p"
  shows "\<exists>q. alive_mutex_create s a p = (False, q) \<and> alive_mutex_destroy q = q \<and>
    ht_lookup (g_segments (pr_g q)) (alive_path n) = Some ControlSegment"
  using assms
  by (simp add: alive_mutex_create_def open_or_create_def Let_def alive_path_def set_up_def tear_down_def
      alive_mutex_destroy_def ENOENT_def)

end
