(* ===== verification/Log_File.thy ===== *)
theory Log_File
  imports Configuration
begin

text \<open>
  \<open>gear/log.c\<close>: \<open>gonggo_log\<close> writes a line into one of seven files, named after the day of the week, and
  starts a file afresh when what it holds is from another date.  The local time, the formatted message and
  the statuses of the system calls are arguments; a file carries the date of its birth and of its last
  change, because the code takes \<open>st_birthtime\<close> where it is defined and \<open>st_ctime\<close> otherwise.
\<close>

type_synonym date = "int \<times> int \<times> int"    \<comment> \<open>\<open>tm_year\<close>, \<open>tm_mon\<close>, \<open>tm_mday\<close>\<close>

record log_file =
  lf_birth :: date
  lf_change :: date
  lf_text :: string

definition birthtime :: "bool \<Rightarrow> log_file \<Rightarrow> date" where
  "birthtime HAVE_ST_BIRTHTIME st = (if HAVE_ST_BIRTHTIME then lf_birth st else lf_change st)"

datatype open_flag = O_CREAT | O_APPEND | O_TRUNC

text \<open>\<open>stat\<close> fails with \<open>ENOENT\<close> where there is no file, with another error where it may not be read.\<close>

definition log_flags :: "bool \<Rightarrow> date \<Rightarrow> bool \<Rightarrow> log_file option \<Rightarrow> open_flag list" where
  "log_flags hb tm_now readable file =
     (case file of
        Some st \<Rightarrow> if \<not> readable then []
                   else if tm_now = birthtime hb st then [O_APPEND] else [O_TRUNC, O_APPEND]
      | None \<Rightarrow> if readable then [O_CREAT, O_APPEND] else [])"

text \<open>The file after \<open>open\<close>.\<close>

definition log_open :: "open_flag list \<Rightarrow> date \<Rightarrow> log_file option \<Rightarrow> log_file option" where
  "log_open flags tm_now file =
     (case file of
        None \<Rightarrow> if O_CREAT \<in> set flags then Some \<lparr>lf_birth = tm_now, lf_change = tm_now, lf_text = []\<rparr> else None
      | Some f \<Rightarrow> if O_TRUNC \<in> set flags then Some (f\<lparr>lf_text := [], lf_change := tm_now\<rparr>) else Some f)"

definition number_text :: "int \<Rightarrow> string" where
  "number_text i = (if i < 0 then CHR ''-'' # decimal (nat (- i)) else decimal (nat i))"

definition log_line :: "string \<Rightarrow> int \<Rightarrow> string \<Rightarrow> string \<Rightarrow> string" where
  "log_line tmstr gonggo_log_pid level buf =
     tmstr @ '' ['' @ number_text gonggo_log_pid @ ''] '' @ level @ '': '' @ buf @ [CHR 0x0A]"

record log_call =
  lc_now :: date
  lc_readable :: bool
  lc_open :: bool
  lc_tmstr :: string
  lc_level :: string
  lc_buf :: string

definition gonggo_log :: "bool \<Rightarrow> int \<Rightarrow> log_call \<Rightarrow> log_file option \<Rightarrow> log_file option" where
  "gonggo_log hb pid c file =
     (let flags = log_flags hb (lc_now c) (lc_readable c) file in
      if flags = [] then file
      else if \<not> lc_open c then file
      else case log_open flags (lc_now c) file of
             None \<Rightarrow> None
           | Some f \<Rightarrow>
               if length (lc_buf c) > 0
               then Some (f\<lparr>lf_text := lf_text f @ log_line (lc_tmstr c) pid (lc_level c) (lc_buf c),
                            lf_change := lc_now c\<rparr>)
               else Some f)"

text \<open>The path is printed into a buffer of 100 bytes without a bound: past its end the behaviour is
  undefined, \<open>None\<close>.\<close>

definition log_filepath :: "string \<Rightarrow> string \<Rightarrow> string \<Rightarrow> string option" where
  "log_filepath gonggo_log_path gonggo_name tmstr =
     (let filepath = gonggo_log_path @ ''/'' @ gonggo_name @ ''-'' @ tmstr @ ''.log''
      in if length filepath + 1 \<le> 100 then Some filepath else None)"

section \<open>Properties\<close>

definition call_line :: "int \<Rightarrow> log_call \<Rightarrow> string" where
  "call_line pid c =
     (if lc_buf c = [] then [] else log_line (lc_tmstr c) pid (lc_level c) (lc_buf c))"

lemma log_same_day:
  assumes "\<forall>c \<in> set cs. lc_now c = day \<and> lc_readable c \<and> lc_open c" "birthtime hb f = day"
    "\<not> hb \<or> lf_birth f = day"
  shows "fold (gonggo_log hb pid) cs (Some f) =
    Some (f\<lparr>lf_text := lf_text f @ concat (map (call_line pid) cs),
            lf_change := (if \<exists>c \<in> set cs. lc_buf c \<noteq> [] then day else lf_change f)\<rparr>)"
  using assms
proof (induction cs arbitrary: f)
  case (Cons c cs)
  from Cons.prems(1) have cs: "\<forall>c \<in> set cs. lc_now c = day \<and> lc_readable c \<and> lc_open c" by simp
  show ?case
  proof (cases "lc_buf c = []")
    case True
    with Cons.prems have "gonggo_log hb pid c (Some f) = Some f"
      by (simp add: gonggo_log_def log_flags_def log_open_def)
    with True Cons.IH [OF cs Cons.prems(2,3)] show ?thesis by (simp add: call_line_def)
  next
    case False
    let ?g = "f\<lparr>lf_text := lf_text f @ log_line (lc_tmstr c) pid (lc_level c) (lc_buf c), lf_change := day\<rparr>"
    have g: "gonggo_log hb pid c (Some f) = Some ?g"
      using Cons.prems False by (simp add: gonggo_log_def log_flags_def log_open_def)
    have "birthtime hb ?g = day" "\<not> hb \<or> lf_birth ?g = day"
      using Cons.prems(2,3) by (auto simp: birthtime_def)
    from Cons.IH [OF cs this] g False show ?thesis by (simp add: call_line_def)
  qed
qed simp

text \<open>C40: with the time of the last change, the file of a weekday holds exactly the lines of its last date in
  order: the first message of a new date starts the file afresh, what is written on that date is kept.\<close>

theorem log_holds_last_date:
  assumes "\<forall>c \<in> set (c0 # cs). lc_now c = day \<and> lc_readable c \<and> lc_open c" "lc_buf c0 \<noteq> []"
  shows "\<exists>f. fold (gonggo_log False pid) (c0 # cs) file = Some f \<and> lf_change f = day \<and>
    lf_text f = (case file of Some f0 \<Rightarrow> if lf_change f0 = day then lf_text f0 else [] | None \<Rightarrow> []) @
      concat (map (call_line pid) (c0 # cs))"
proof -
  let ?old = "case file of Some f0 \<Rightarrow> if lf_change f0 = day then lf_text f0 else [] | None \<Rightarrow> []"
  have "\<exists>f1. gonggo_log False pid c0 file = Some f1 \<and> lf_change f1 = day \<and> lf_text f1 = ?old @ call_line pid c0"
  proof (cases "file")
    case None
    with assms show ?thesis by (simp add: gonggo_log_def log_flags_def log_open_def call_line_def Let_def)
  next
    case (Some f0)
    with assms show ?thesis
      by (cases "lf_change f0 = day")
        (simp_all add: gonggo_log_def log_flags_def log_open_def birthtime_def call_line_def Let_def)
  qed
  then obtain f1 where f1: "gonggo_log False pid c0 file = Some f1" "lf_change f1 = day"
    "lf_text f1 = ?old @ call_line pid c0" by blast
  have "\<forall>c \<in> set cs. lc_now c = day \<and> lc_readable c \<and> lc_open c" using assms(1) by simp
  from log_same_day [OF this, of False f1 pid] f1 show ?thesis by (simp add: birthtime_def)
qed

theorem log_holds_last_date_witness:
  "\<exists>f. fold (gonggo_log False 7)
     [\<lparr>lc_now = (125, 0, 8), lc_readable = True, lc_open = True, lc_tmstr = ''t'', lc_level = ''INFO'', lc_buf = ''a''\<rparr>,
      \<lparr>lc_now = (125, 0, 8), lc_readable = True, lc_open = True, lc_tmstr = ''u'', lc_level = ''INFO'', lc_buf = ''b''\<rparr>]
     (Some \<lparr>lf_birth = (125, 0, 1), lf_change = (125, 0, 1), lf_text = ''old''\<rparr>) = Some f \<and>
   lf_text f = log_line ''t'' 7 ''INFO'' ''a'' @ log_line ''u'' 7 ''INFO'' ''b''"
  using log_holds_last_date [of "\<lparr>lc_now = (125, 0, 8), lc_readable = True, lc_open = True, lc_tmstr = ''t'',
        lc_level = ''INFO'', lc_buf = ''a''\<rparr>"
      "[\<lparr>lc_now = (125, 0, 8), lc_readable = True, lc_open = True, lc_tmstr = ''u'', lc_level = ''INFO'', lc_buf = ''b''\<rparr>]"
      "(125, 0, 8)" 7 "Some \<lparr>lf_birth = (125, 0, 1), lf_change = (125, 0, 1), lf_text = ''old''\<rparr>"]
  by (auto simp: call_line_def)

text \<open>Where \<open>st_birthtime\<close> is used instead, truncating the file does not change its birth: from the
  second week on every message erases all earlier ones, and only the last one of a date is left.\<close>

theorem birthtime_keeps_last_line_only:
  assumes "\<forall>c \<in> set cs. lc_now c \<noteq> lf_birth f \<and> lc_readable c \<and> lc_open c" "cs \<noteq> []"
  shows "\<exists>g. fold (gonggo_log True pid) cs (Some f) = Some g \<and> lf_text g = call_line pid (last cs)"
proof -
  have step: "\<exists>g. gonggo_log True pid c (Some h) = Some g \<and> lf_text g = call_line pid c \<and> lf_birth g = lf_birth h"
    if "lc_now c \<noteq> lf_birth h" "lc_readable c" "lc_open c" for c h
    using that by (simp add: gonggo_log_def log_flags_def log_open_def birthtime_def call_line_def)
  show ?thesis using assms
  proof (induction cs arbitrary: f)
    case (Cons c cs)
    obtain g where g: "gonggo_log True pid c (Some f) = Some g" "lf_text g = call_line pid c" "lf_birth g = lf_birth f"
      using step [of c f] Cons.prems(1) by auto
    show ?case
    proof (cases "cs = []")
      case True
      with g show ?thesis by simp
    next
      case False
      with Cons.IH [of g] Cons.prems(1) g show ?thesis by simp
    qed
  qed simp
qed

text \<open>The path of the log file overflows its buffer exactly if the log path and the name of the server
  together have more than 90 characters (with a three-letter weekday), which no check of the
  configuration prevents.\<close>

theorem log_path_overflows_iff:
  "length tmstr = 3 \<Longrightarrow> log_filepath path name tmstr = None \<longleftrightarrow> 90 < length path + length name"
  by (simp add: log_filepath_def Let_def)

end
