(* ===== verification/Main_Program.thy ===== *)
theory Main_Program
  imports Startup_Guarantees Log_File
begin

text \<open>
  \<open>main/main.c\<close>: the command line, the start of the background process and its stop through the file that
  holds its process id.  \<open>getopt_long\<close> is the C library's: \<open>main\<close> gets the list of what it returns.
\<close>

datatype option_arg = LongConf string | LongHelp | LongStop | ShortConf string | ShortHelp | OtherOption

text \<open>\<open>help\<close>, \<open>stop\<close> and \<open>confpath\<close> after the loop.\<close>

fun read_options :: "option_arg list \<Rightarrow> bool \<times> bool \<times> string option \<Rightarrow> bool \<times> bool \<times> string option" where
  "read_options [] v = v"
| "read_options (LongConf optarg # args) (help, stop, confpath) = read_options args (help, stop, Some optarg)"
| "read_options (LongHelp # args) (help, stop, confpath) = read_options args (True, stop, confpath)"
| "read_options (LongStop # args) (help, stop, confpath) = read_options args (help, True, confpath)"
| "read_options (ShortConf optarg # args) (help, stop, confpath) = read_options args (help, stop, Some optarg)"
| "read_options (ShortHelp # args) (help, stop, confpath) = read_options args (True, stop, confpath)"
| "read_options (OtherOption # args) v = read_options args v"

definition BUFLEN :: nat where "BUFLEN = 50"

text \<open>The file of the process id: its text, and whether a process holds the lock on it.\<close>

record pid_file =
  pf_text :: string
  pf_locked :: bool

record main_env =
  me_file :: "string \<Rightarrow> string option"    \<comment> \<open>the text of a configuration file\<close>
  me_errno :: int
  me_readable :: bool                      \<comment> \<open>whether the pid file can be opened for reading\<close>
  me_fork :: int                           \<comment> \<open>what \<open>fork\<close> returns\<close>
  me_getpid :: int
  me_open :: bool                          \<comment> \<open>whether the pid file can be opened for writing\<close>
  me_write :: bool
  me_work :: work_env
  me_db :: "db_table option"
  me_segments :: "(string, segment) table"

section \<open>Stopping\<close>

text \<open>\<open>fgets\<close> reads up to the end of a line or \<open>BUFLEN - 1\<close> characters; at the end of the file it leaves the
  buffer as it is.\<close>

definition fgets :: "nat \<Rightarrow> string \<Rightarrow> string option" where
  "fgets n s = (case getlines s of [] \<Rightarrow> None | l # _ \<Rightarrow> Some (take (n - 1) l))"

text \<open>\<open>atoi\<close> is \<open>strtol\<close> cut to 32 bits.\<close>

definition atoi :: "string \<Rightarrow> int" where
  "atoi s = sint (word_of_int (fst (strtol s)) :: 32 word)"

text \<open>The exit code and the process that is signalled; the outer \<open>None\<close> is the use of an unset buffer.\<close>

definition stop_server :: "main_env \<Rightarrow> pid_file option \<Rightarrow> (int \<times> int option) option" where
  "stop_server env file =
     (case file of
        None \<Rightarrow> Some (2, None)
      | Some f \<Rightarrow>
          if \<not> me_readable env then Some (2, None)
          else case fgets BUFLEN (pf_text f) of
                 None \<Rightarrow> None
               | Some buff \<Rightarrow> Some (0, Some (atoi (c_string buff))))"

section \<open>Starting\<close>

text \<open>The child up to \<open>work\<close>: an exit code, or the pid file while the server runs.  The file is emptied when
  it is opened, before the lock is tried.\<close>

definition claim_pid_file :: "main_env \<Rightarrow> pid_file option \<Rightarrow> (int + unit) \<times> pid_file option" where
  "claim_pid_file env file =
     (if \<not> me_open env then (Inl 3, file)
      else let f = \<lparr>pf_text = [], pf_locked = (case file of None \<Rightarrow> False | Some g \<Rightarrow> pf_locked g)\<rparr> in
        if pf_locked f then (Inl 3, Some f)
        else if \<not> me_write env then (Inl 3, Some f)
        else (Inr (), Some \<lparr>pf_text = take (BUFLEN - 1) (number_text (me_getpid env)), pf_locked = True\<rparr>))"

text \<open>The child: its exit code, the pid file while the server runs and when it has ended.\<close>

definition child_process ::
    "main_env \<Rightarrow> ConfVar list \<Rightarrow> pid_file option \<Rightarrow> int blocking \<times> pid_file option \<times> pid_file option" where
  "child_process env cv file =
     (case claim_pid_file env file of
        (Inl ret, f) \<Rightarrow> (Done ret, f, f)
      | (Inr _, f) \<Rightarrow>
          (case work (me_getpid env) cv (me_work env) (me_db env) (boot (me_segments env)) of
             Blocked \<Rightarrow> (Blocked, f, f)
           | Done (ret, _) \<Rightarrow> (Done ret, f, None)))"

datatype main_end =
    MainReturns int                        \<comment> \<open>the exit code, nothing else done\<close>
  | MainSignals int "int option"           \<comment> \<open>\<open>--stop\<close>: the exit code and the signalled process\<close>
  | MainChild "int blocking" "pid_file option" "pid_file option"

definition main_program :: "main_env \<Rightarrow> option_arg list \<Rightarrow> (string \<Rightarrow> pid_file option) \<Rightarrow> main_end option" where
  "main_program env args files =
     (let (help, stop, confpath) = read_options args (False, False, None) in
      if help then Some (MainReturns 0)
      else case confpath of
        None \<Rightarrow> Some (MainReturns 1)
      | Some path \<Rightarrow>
          (case confvar_validate (me_file env path) (me_errno env) of
             Inl error \<Rightarrow> Some (MainReturns 2)
           | Inr cv \<Rightarrow>
               let file = files (the (confvar_value cv CONF_PIDFILE)) in
               if stop
               then map_option (\<lambda>(ret, pid). MainSignals ret pid) (stop_server env file)
               else if me_fork env = - 1 then Some (MainReturns 3)
               else if me_fork env = 0
               then (case child_process env cv file of (ret, running, afterwards) \<Rightarrow> Some (MainChild ret running afterwards))
               else Some (MainReturns 0)))"

section \<open>Properties\<close>

lemma decimal_length: "n < 10 ^ k \<Longrightarrow> 0 < k \<Longrightarrow> length (decimal n) \<le> k"
proof (induction k arbitrary: n)
  case (Suc k)
  show ?case
  proof (cases "n < 10")
    case True
    then show ?thesis by (subst decimal.simps) simp
  next
    case False
    then have "n div 10 < 10 ^ k" using Suc.prems by (simp add: less_mult_imp_div_less mult.commute)
    moreover from this False have "0 < k" by (cases k) auto
    ultimately show ?thesis using Suc.IH [of "n div 10"] False by (subst decimal.simps) simp
  qed
qed simp

lemma number_digits: "0 \<le> i \<Longrightarrow> number_text i = decimal (nat i)"
  by (simp add: number_text_def)

lemma digit_not_special: "is_digit c \<Longrightarrow> c \<noteq> CHR 0x0A \<and> c \<noteq> CHR 0x00"
  by (auto simp: is_digit_def)

lemma getlines_no_newline: "CHR 0x0A \<notin> set s \<Longrightarrow> s \<noteq> [] \<Longrightarrow> getlines s = [s]"
proof (induction s)
  case (Cons c s)
  then show ?case by (cases "s = []") auto
qed simp

lemma sint_32: "- (2 ^ 31) \<le> i \<Longrightarrow> i < 2 ^ 31 \<Longrightarrow> sint (word_of_int i :: 32 word) = i"
  using signed_take_bit_int_eq_self [of 31 i] by (simp add: sint_sbintrunc')

lemma atoi_decimal: "int n < 2 ^ 31 \<Longrightarrow> atoi (decimal n) = int n"
proof -
  assume n: "int n < 2 ^ 31"
  have "fst (strtol (decimal n)) = int n" using strtol_decimal [of n] n by (simp add: LONG_MAX_def)
  moreover have "sint (word_of_int (int n) :: 32 word) = int n" using n by (intro sint_32) simp_all
  ultimately show ?thesis by (simp only: atoi_def)
qed

text \<open>Stop undoes start: the process id that the server writes when it starts is the one that a later
  \<open>--stop\<close> reads and signals, for every process id of the system.\<close>

theorem stop_signals_started_server:
  assumes "0 \<le> me_getpid env" "me_getpid env < 2 ^ 31" "me_readable env'"
    and "claim_pid_file env file = (Inr (), f)"
  shows "stop_server env' f = Some (0, Some (me_getpid env))"
proof -
  let ?s = "decimal (nat (me_getpid env))"
  have "nat (me_getpid env) < 10 ^ 10" using assms(2) by simp
  then have "length ?s \<le> 10" by (rule decimal_length) simp
  then have t: "take 49 ?s = ?s" by simp
  have d: "?s \<noteq> []" "\<forall>c \<in> set ?s. is_digit c" using decimal_digits by auto
  then have n: "CHR 0x0A \<notin> set ?s" "CHR 0x00 \<notin> set ?s" using digit_not_special by blast+
  have "f = Some \<lparr>pf_text = ?s, pf_locked = True\<rparr>"
    using assms(1,4) t by (auto simp: claim_pid_file_def Let_def BUFLEN_def number_digits split: if_splits)
  then show ?thesis
    using assms(1-3) t d(1) n atoi_decimal [of "nat (me_getpid env)"]
    by (simp add: stop_server_def fgets_def BUFLEN_def getlines_no_newline c_string_id)
qed

definition sample_main_env :: main_env where
  "sample_main_env = \<lparr>me_file = Map.empty, me_errno = 0, me_readable = True, me_fork = 0, me_getpid = 4711,
     me_open = True, me_write = True, me_work = sample_work_env, me_db = None, me_segments = []\<rparr>"

theorem stop_signals_started_server_witness:
  "\<exists>f. claim_pid_file sample_main_env None = (Inr (), f) \<and> stop_server sample_main_env f = Some (0, Some 4711)"
proof -
  obtain f where f: "claim_pid_file sample_main_env None = (Inr (), f)"
    by (simp add: claim_pid_file_def sample_main_env_def)
  have "0 \<le> me_getpid sample_main_env" "me_getpid sample_main_env < 2 ^ 31" "me_readable sample_main_env"
    by (simp_all add: sample_main_env_def)
  from stop_signals_started_server [OF this f] f show ?thesis by (simp add: sample_main_env_def)
qed

text \<open>A second start against a running server fails with code 3 but has emptied the pid file by then, and
  the next \<open>--stop\<close> passes a buffer that nobody has written to \<open>kill\<close>.\<close>

theorem second_start_loses_pid:
  assumes "me_open env" "me_readable env'"
  shows "child_process env cv (Some \<lparr>pf_text = s, pf_locked = True\<rparr>) =
      (Done 3, Some \<lparr>pf_text = [], pf_locked = True\<rparr>, Some \<lparr>pf_text = [], pf_locked = True\<rparr>) \<and>
    stop_server env' (Some \<lparr>pf_text = [], pf_locked = True\<rparr>) = None"
  using assms by (simp add: child_process_def claim_pid_file_def stop_server_def fgets_def)

end
