(* ===== verification/Glib_Shim.thy ===== *)
theory Glib_Shim
  imports Gonggo_Prelude
begin

unbundle bit_operations_syntax

text \<open>
  \<open>gear/glibshim.c\<close>: \<open>g_ptr_array_copy\<close> for versions of GLib that lack it, at the widths of the
  code: \<open>gsize\<close> has 64 bits, \<open>guint\<close> 32, a pointer 8 bytes.  A failed assertion and \<open>g_error\<close> end
  the program: the value \<open>None\<close>.
\<close>

type_synonym gsize = "64 word"
type_synonym guint = "32 word"

definition G_MAXSIZE :: gsize where "G_MAXSIZE = 0xFFFFFFFFFFFFFFFF"
definition G_MAXUINT :: guint where "G_MAXUINT = 0xFFFFFFFF"
definition MIN_ARRAY_SIZE :: gsize where "MIN_ARRAY_SIZE = 16"
definition sizeof_gpointer :: gsize where "sizeof_gpointer = 8"

section \<open>The next power of two\<close>

definition smear :: "nat \<Rightarrow> gsize \<Rightarrow> gsize" where
  "smear s n = n OR drop_bit s n"

definition g_nearest_pow :: "gsize \<Rightarrow> gsize option" where
  "g_nearest_pow num =
     (let n = num - 1 in
      if \<not> (num > 0 \<and> num \<le> G_MAXSIZE div 2) then None
      else Some (smear 32 (smear 16 (smear 8 (smear 4 (smear 2 (smear 1 n))))) + 1))"

section \<open>Pointer arrays\<close>

text \<open>A slot of the allocated memory: not yet written, the null pointer, or an element.\<close>

datatype 'a slot = Garbage | Null | Elem 'a

record 'a GRealPtrArray =
  pdata :: "'a slot list"
  pa_len :: guint
  pa_alloc :: guint
  null_terminated :: bool

definition null_bit :: "bool \<Rightarrow> guint" where
  "null_bit b = (if b then 1 else 0)"

definition g_ptr_array_maybe_expand :: "'a GRealPtrArray \<Rightarrow> guint \<Rightarrow> 'a GRealPtrArray option" where
  "g_ptr_array_maybe_expand array len =
     (let max_len = (if G_MAXSIZE div 2 div sizeof_gpointer < ucast G_MAXUINT
                     then ucast (G_MAXSIZE div 2 div sizeof_gpointer) else G_MAXUINT) in
      if max_len - pa_len array < len then None
      else if pa_len array + len > pa_alloc array
      then (case g_nearest_pow (sizeof_gpointer * ucast (pa_len array + len)) of
              None \<Rightarrow> None
            | Some want \<Rightarrow>
                (let want_alloc = max want MIN_ARRAY_SIZE;
                     alloc = (if want_alloc div sizeof_gpointer < ucast G_MAXUINT
                              then ucast (want_alloc div sizeof_gpointer) else G_MAXUINT)
                 in Some (array\<lparr>pa_alloc := alloc,
                      pdata := take (unat alloc) (pdata array) @
                               replicate (unat alloc - length (pdata array)) Garbage\<rparr>)))
      else Some array)"

definition ptr_array_new :: "guint \<Rightarrow> bool \<Rightarrow> 'a GRealPtrArray option" where
  "ptr_array_new reserved_size nt =
     (let array = \<lparr>pdata = [], pa_len = 0, pa_alloc = 0, null_terminated = nt\<rparr> in
      if reserved_size \<noteq> 0
      then (case g_ptr_array_maybe_expand array
                   (if reserved_size < G_MAXUINT \<and> nt then reserved_size + 1 else reserved_size) of
              None \<Rightarrow> None
            | Some a \<Rightarrow> Some (if nt then a\<lparr>pdata := (pdata a)[0 := Null]\<rparr> else a))
      else Some array)"

definition ptr_array_maybe_null_terminate :: "'a GRealPtrArray \<Rightarrow> 'a GRealPtrArray" where
  "ptr_array_maybe_null_terminate rarray =
     (if null_terminated rarray then rarray\<lparr>pdata := (pdata rarray)[unat (pa_len rarray) := Null]\<rparr>
      else rarray)"

text \<open>The loop of calls of \<open>func\<close>, and the \<open>memcpy\<close> where there is none: slot by slot.\<close>

fun map_slot :: "('a \<Rightarrow> 'a) option \<Rightarrow> 'a slot \<Rightarrow> 'a slot" where
  "map_slot (Some f) (Elem x) = Elem (f x)"
| "map_slot _ s = s"

definition g_ptr_array_copy :: "'a GRealPtrArray \<Rightarrow> ('a \<Rightarrow> 'a) option \<Rightarrow> 'a GRealPtrArray option" where
  "g_ptr_array_copy array func =
     (case ptr_array_new 0 (null_terminated array) of
        None \<Rightarrow> None
      | Some new_array \<Rightarrow>
          if pa_alloc array > 0
          then (case g_ptr_array_maybe_expand new_array
                       (pa_len array + null_bit (null_terminated array)) of
                  None \<Rightarrow> None
                | Some a1 \<Rightarrow>
                    (let n = unat (pa_len array);
                         a2 = (if n > 0
                               then a1\<lparr>pdata := map (map_slot func) (take n (pdata array)) @ drop n (pdata a1),
                                       pa_len := pa_len array\<rparr>
                               else a1)
                     in Some (ptr_array_maybe_null_terminate a2)))
          else Some new_array)"

section \<open>The smearing of the bits\<close>

lemma bit_smear: "bit (smear s n) i \<longleftrightarrow> bit n i \<or> bit n (i + s)"
  by (simp add: smear_def bit_or_iff bit_drop_bit_eq add.commute)

lemma smear_double:
  assumes "\<And>i. bit y i \<longleftrightarrow> (\<exists>j < k. bit x (i + j))" "l = 2 * k"
  shows "bit (smear k y) i \<longleftrightarrow> (\<exists>j < l. bit x (i + j))"
  unfolding assms(2)
proof
  assume "bit (smear k y) i"
  then consider "\<exists>j < k. bit x (i + j)" | "\<exists>j < k. bit x (i + k + j)"
    using assms(1) by (auto simp: bit_smear)
  then show "\<exists>j < 2 * k. bit x (i + j)"
  proof cases
    case 1
    then obtain j where "j < k" "bit x (i + j)" by blast
    then show ?thesis by (intro exI [of _ j]) simp
  next
    case 2
    then obtain j where "j < k" "bit x (i + (k + j))" by (auto simp: add.assoc)
    then show ?thesis by (intro exI [of _ "k + j"]) simp
  qed
next
  assume "\<exists>j < 2 * k. bit x (i + j)"
  then obtain j where j: "j < 2 * k" "bit x (i + j)" by blast
  show "bit (smear k y) i"
  proof (cases "j < k")
    case True
    with j assms(1) show ?thesis by (auto simp: bit_smear)
  next
    case False
    then have "j - k < k" "i + j = i + k + (j - k)" using j(1) by auto
    with j(2) have "\<exists>l < k. bit x (i + k + l)" by metis
    then show ?thesis using assms(1) by (simp add: bit_smear)
  qed
qed

lemma bit_smear_all:
  "bit (smear 32 (smear 16 (smear 8 (smear 4 (smear 2 (smear 1 n)))))) i \<longleftrightarrow>
     (\<exists>j < 64. bit n (i + j))"
proof -
  have 0: "bit n i \<longleftrightarrow> (\<exists>j < 1. bit n (i + j))" for i by simp
  note d = smear_double [OF 0, of 2] 
  note d2 = smear_double [of "smear 1 n" 2, OF d, of 4]
  note d3 = smear_double [of _ 4, OF d2, of 8]
  note d4 = smear_double [of _ 8, OF d3, of 16]
  note d5 = smear_double [of _ 16, OF d4, of 32]
  show ?thesis by (rule smear_double [of _ 32, OF d5]) simp_all
qed

lemma top_bit:
  fixes x :: gsize
  assumes "x \<noteq> 0"
  obtains m where "m < 64" "bit x m" "\<And>i. m < i \<Longrightarrow> \<not> bit x i"
proof -
  have fin: "finite {i. bit x i}"
    by (rule finite_subset [of _ "{..< 64}"]) (auto dest: bit_imp_le_length)
  have ne: "{i. bit x i} \<noteq> {}" using assms by (auto simp: bit_eq_iff)
  let ?m = "Max {i. bit x i}"
  have "bit x ?m" using Max_in [OF fin ne] by simp
  moreover from this have "?m < 64" by (auto dest: bit_imp_le_length)
  moreover have "\<not> bit x i" if "?m < i" for i using Max_ge [OF fin, of i] that by (auto simp del: Max_ge)
  ultimately show thesis using that by blast
qed

lemma top_bit_bounds:
  fixes x :: gsize
  assumes "bit x m" "\<And>i. m < i \<Longrightarrow> \<not> bit x i"
  shows "2 ^ m \<le> unat x" "unat x < 2 ^ Suc m"
proof -
  have "bit (unat x) m" using assms(1) by (simp add: bit_unsigned_iff)
  then have "odd (unat x div 2 ^ m)" by (simp add: bit_iff_odd)
  then have "unat x div 2 ^ m \<noteq> 0" by (metis even_zero)
  then show "2 ^ m \<le> unat x" by (metis div_less linorder_not_le)
  have "take_bit (Suc m) (unat x) = unat x"
    by (rule bit_eqI) (use assms(2) in \<open>auto simp: bit_take_bit_iff bit_unsigned_iff intro: ccontr\<close>)
  then show "unat x < 2 ^ Suc m" by (metis take_bit_nat_less_exp)
qed

lemma smear_mask:
  fixes x :: gsize
  assumes "m < 64" "bit x m" "\<And>i. m < i \<Longrightarrow> \<not> bit x i"
  shows "smear 32 (smear 16 (smear 8 (smear 4 (smear 2 (smear 1 x))))) = mask (Suc m)"
proof (rule bit_word_eqI)
  fix i assume "i < LENGTH(64)"
  have "(\<exists>j < 64. bit x (i + j)) \<longleftrightarrow> i \<le> m"
  proof
    assume "i \<le> m"
    then show "\<exists>j < 64. bit x (i + j)" using assms by (intro exI [of _ "m - i"]) simp
  qed (use assms(3) not_less in \<open>auto intro: ccontr le_add1 [THEN order_trans]\<close>)
  with assms(1) show "bit (smear 32 (smear 16 (smear 8 (smear 4 (smear 2 (smear 1 x)))))) i =
      bit (mask (Suc m) :: gsize) i"
    unfolding bit_smear_all by (auto simp: bit_mask_iff)
qed

lemma nearest_pow:
  assumes "0 < num" "unat num \<le> 2 ^ 63 - 1"
  obtains k where "g_nearest_pow num = Some (2 ^ k)" "k \<le> 63" "unat num \<le> 2 ^ k" "2 ^ k < 2 * unat num"
proof -
  have half: "num \<le> G_MAXSIZE div 2"
    using assms(2) by (simp add: word_le_nat_alt G_MAXSIZE_def unat_div)
  have u: "unat (num - 1) = unat num - 1"
    using assms(1) by (simp add: unat_minus_one unat_gt_0)
  have pos: "0 < unat num" using assms(1) by (simp add: unat_gt_0)
  show thesis
  proof (cases "num - 1 = 0")
    case True
    then have "num = 1" by simp
    then show thesis by (intro that [of 0]) (simp_all add: g_nearest_pow_def smear_def G_MAXSIZE_def)
  next
    case False
    obtain m where m: "m < 64" "bit (num - 1) m" "\<And>i. m < i \<Longrightarrow> \<not> bit (num - 1) i"
      using top_bit [OF False] by blast
    note b = top_bit_bounds [OF m(2,3)]
    have "2 ^ m < (2 :: nat) ^ 63" using b(1) u assms(2) pos by simp
    then have m62: "m \<le> 62" using power_less_imp_less_exp [of "2 :: nat" m 63] by simp
    have "g_nearest_pow num = Some (mask (Suc m) + 1)"
      using assms(1) half smear_mask [OF m] by (simp add: g_nearest_pow_def Let_def)
    also have "mask (Suc m) + 1 = (2 ^ Suc m :: gsize)" by (simp add: mask_eq_exp_minus_1)
    finally show thesis
      by (rule that) (use b u pos m62 in simp_all)
  qed
qed

section \<open>Growing and copying\<close>

lemma unat_up: "unat (ucast (n :: guint) :: gsize) = unat n"
proof -
  have "unat n < 2 ^ 64" by (rule less_trans [OF unsigned_less [where 'a = nat, of n]]) simp
  then show ?thesis by (simp add: unsigned_ucast_eq take_bit_nat_eq_self)
qed

lemma unat_down: "unat (w :: gsize) < 2 ^ 32 \<Longrightarrow> unat (ucast w :: guint) = unat w"
  by (simp add: unsigned_ucast_eq take_bit_nat_eq_self)

lemma unat_bound: "unat (n :: guint) \<le> 4294967295"
  using unsigned_less [where 'a = nat, of n] by simp

lemma want_alloc_div:
  fixes want :: gsize
  defines "alloc \<equiv> (if want div sizeof_gpointer < ucast G_MAXUINT
      then ucast (want div sizeof_gpointer) else G_MAXUINT)"
  assumes "8 * unat (len :: guint) \<le> unat want"
  shows "unat len \<le> unat alloc"
proof -
  have d: "unat (want div sizeof_gpointer) = unat want div 8"
    by (simp add: unat_div sizeof_gpointer_def)
  have m: "unat (ucast G_MAXUINT :: gsize) = 4294967295" by (simp add: unat_up G_MAXUINT_def)
  show ?thesis
  proof (cases "want div sizeof_gpointer < ucast G_MAXUINT")
    case True
    then have "unat (want div sizeof_gpointer) < 4294967295"
      using m by (simp add: word_less_nat_alt)
    then show ?thesis using True assms(2) d by (simp add: alloc_def unat_down)
  next
    case False
    then show ?thesis using unat_bound [of len] by (simp add: alloc_def G_MAXUINT_def)
  qed
qed

lemma expand_fresh:
  "\<exists>a. g_ptr_array_maybe_expand \<lparr>pdata = [], pa_len = 0, pa_alloc = 0, null_terminated = nt\<rparr> len = Some a \<and>
     length (pdata a) = unat (pa_alloc a) \<and> unat len \<le> unat (pa_alloc a) \<and> pa_len a = 0 \<and>
     null_terminated a = nt"
proof (cases "len = 0")
  case False
  have max: "\<not> (if G_MAXSIZE div 2 div sizeof_gpointer < ucast G_MAXUINT
      then ucast (G_MAXSIZE div 2 div sizeof_gpointer) else G_MAXUINT) < len"
  proof -
    have "\<not> G_MAXSIZE div 2 div sizeof_gpointer < ucast G_MAXUINT"
      by (simp add: word_less_nat_alt unat_div G_MAXSIZE_def sizeof_gpointer_def unat_up G_MAXUINT_def)
    moreover have "\<not> G_MAXUINT < len"
      using unat_bound [of len] by (simp add: word_less_nat_alt G_MAXUINT_def)
    ultimately show ?thesis by simp
  qed
  have num: "unat (sizeof_gpointer * ucast len) = 8 * unat len"
    using unat_bound [of len]
    by (simp add: unat_word_ariths sizeof_gpointer_def unat_up)
  then have "0 < sizeof_gpointer * (ucast len :: gsize)" "unat (sizeof_gpointer * ucast len :: gsize) \<le> 2 ^ 63 - 1"
    using False unat_bound [of len] by (simp_all add: word_less_nat_alt unat_gt_0)
  then obtain k where k: "g_nearest_pow (sizeof_gpointer * ucast len) = Some (2 ^ k)" "k \<le> 63"
    "8 * unat len \<le> 2 ^ k"
    using nearest_pow num by (metis (no_types, lifting))
  have "(2 :: nat) ^ k < 2 ^ 64" using k(2) by (intro power_strict_increasing) simp_all
  then have "unat (2 ^ k :: gsize) = 2 ^ k"
    using unat_of_nat [where 'a = 64, of "2 ^ k"] by (simp add: take_bit_nat_eq_self)
  then have "8 * unat len \<le> unat (max (2 ^ k :: gsize) MIN_ARRAY_SIZE)"
    using k(3) by (auto simp: max_def word_le_nat_alt)
  from want_alloc_div [OF this] False k(1) max show ?thesis
    by (simp add: g_ptr_array_maybe_expand_def Let_def word_gt_0)
qed (simp add: g_ptr_array_maybe_expand_def Let_def)

text \<open>The elements of a well-formed array.\<close>

definition holds_elements :: "'a GRealPtrArray \<Rightarrow> 'a list \<Rightarrow> bool" where
  "holds_elements array xs \<longleftrightarrow>
     length (pdata array) = unat (pa_alloc array) \<and> length xs = unat (pa_len array) \<and>
     take (length xs) (pdata array) = map Elem xs \<and>
     (0 < pa_alloc array \<and> null_terminated array \<longrightarrow>
        length xs < unat (pa_alloc array) \<and> pdata array ! length xs = Null)"

lemma map_slot_Elem: "map (map_slot (Some f)) (map Elem xs) = map Elem (map f xs)"
  by simp

lemma copy_elements:
  fixes array :: "'a GRealPtrArray"
  assumes "holds_elements array xs" "length xs < 4294967295"
  shows "\<exists>b. g_ptr_array_copy array (Some f) = Some b \<and> holds_elements b (map f xs) \<and>
    null_terminated b = null_terminated array"
proof (cases "0 < pa_alloc array")
  case False
  then have z: "pa_alloc array = 0" by (simp add: word_gt_0)
  with assms(1) have e: "pdata array = []" by (simp add: holds_elements_def)
  have "take (length xs) (pdata array) = map Elem xs" using assms(1) unfolding holds_elements_def by blast
  with e have "xs = []" by simp
  with False assms(1) show ?thesis
    by (simp add: g_ptr_array_copy_def ptr_array_new_def Let_def holds_elements_def)
next
  case True
  let ?nt = "null_terminated array"
  let ?len = "pa_len array + null_bit ?nt"
  have len: "unat ?len = length xs + (if ?nt then 1 else 0)"
    using assms by (simp add: holds_elements_def null_bit_def unat_word_ariths)
  obtain a :: "'a GRealPtrArray" where a: "g_ptr_array_maybe_expand \<lparr>pdata = [], pa_len = 0, pa_alloc = 0, null_terminated = ?nt\<rparr> ?len
      = Some a" "length (pdata a) = unat (pa_alloc a)" "unat ?len \<le> unat (pa_alloc a)"
    "pa_len a = 0" "null_terminated a = ?nt"
    using expand_fresh by blast
  let ?n = "unat (pa_len array)"
  let ?a2 = "if 0 < ?n then a\<lparr>pdata := map (map_slot (Some f)) (take ?n (pdata array)) @ drop ?n (pdata a),
      pa_len := pa_len array\<rparr> else a"
  have c: "g_ptr_array_copy array (Some f) = Some (ptr_array_maybe_null_terminate ?a2)"
    using True a(1) by (simp add: g_ptr_array_copy_def ptr_array_new_def Let_def)
  have n: "?n = length xs" "take ?n (pdata array) = map Elem xs" using assms(1) by (auto simp: holds_elements_def)
  have a2: "pdata ?a2 = map Elem (map f xs) @ drop (length xs) (pdata a)" "unat (pa_len ?a2) = length xs"
    "pa_alloc ?a2 = pa_alloc a" "null_terminated ?a2 = ?nt"
    using n a(4,5) by auto
  have fits: "length xs + (if ?nt then 1 else 0) \<le> length (pdata a)" using len a(2,3) by simp
  have "holds_elements (ptr_array_maybe_null_terminate ?a2) (map f xs)"
  proof (cases ?nt)
    case nt: True
    then have "drop (length xs) (pdata a) \<noteq> []" using fits by simp
    then show ?thesis
      using nt a2 fits a(2)
      by (simp add: holds_elements_def ptr_array_maybe_null_terminate_def list_update_append nth_append)
  next
    case False
    then show ?thesis
      using a2 fits a(2) by (simp add: holds_elements_def ptr_array_maybe_null_terminate_def)
  qed
  moreover have "null_terminated (ptr_array_maybe_null_terminate ?a2) = ?nt"
    using a2(4) by (simp add: ptr_array_maybe_null_terminate_def)
  ultimately show ?thesis using c by blast
qed

section \<open>Properties\<close>

text \<open>For every size from 1 to \<open>G_MAXSIZE / 2\<close> the bit smearing gives the smallest power of two that is
  not below it, and for every other size the assertion fails.\<close>

theorem nearest_pow_is_smallest_power:
  assumes "g_nearest_pow num = Some p"
  shows "0 < unat num \<and> (\<exists>k \<le> 63. p = 2 ^ k \<and> unat num \<le> 2 ^ k \<and> 2 ^ k < 2 * unat num)"
proof -
  from assms have n: "0 < num" "num \<le> G_MAXSIZE div 2" by (auto simp: g_nearest_pow_def Let_def split: if_splits)
  then have "unat num \<le> 2 ^ 63 - 1" by (simp add: word_le_nat_alt G_MAXSIZE_def unat_div)
  from nearest_pow [OF n(1) this] obtain k where
    "g_nearest_pow num = Some (2 ^ k)" "k \<le> 63" "unat num \<le> 2 ^ k" "2 ^ k < 2 * unat num" .
  with assms n(1) show ?thesis by (auto simp: unat_gt_0 intro!: exI [of _ k])
qed

theorem nearest_pow_is_smallest_power_witness:
  "g_nearest_pow 9 = Some 16 \<and> (\<exists>k \<le> 63. (16 :: gsize) = 2 ^ k \<and> (9 :: nat) \<le> 2 ^ k)"
proof -
  have "g_nearest_pow 9 = Some 16"
    by (simp add: g_nearest_pow_def smear_def G_MAXSIZE_def word_le_nat_alt)
  with nearest_pow_is_smallest_power [OF this] show ?thesis by auto
qed

text \<open>The copy of an array with fewer than 2\<open>^\<close>32 - 1 elements never fails and holds the image of each
  element in order, with room for the terminating null pointer, which is there if the original has
  one.\<close>

theorem ptr_array_copy_maps:
  assumes "holds_elements array xs" "length xs < 4294967295"
  shows "\<exists>b. g_ptr_array_copy array (Some f) = Some b \<and> holds_elements b (map f xs) \<and>
    null_terminated b = null_terminated array"
  using assms by (rule copy_elements)

theorem ptr_array_copy_maps_witness:
  "\<exists>b. g_ptr_array_copy \<lparr>pdata = [Elem 3, Elem (4 :: nat), Garbage], pa_len = 2, pa_alloc = 3,
       null_terminated = False\<rparr> (Some Suc) = Some b \<and> holds_elements b [4, 5]"
  using ptr_array_copy_maps [of "\<lparr>pdata = [Elem 3, Elem (4 :: nat), Garbage], pa_len = 2, pa_alloc = 3,
      null_terminated = False\<rparr>" "[3, 4]" Suc]
  by (auto simp: holds_elements_def)

end
