(* ===== verification/Utilities.thy ===== *)
theory Utilities
  imports Glib_Shim
begin

text \<open>
  \<open>gear/util.c\<close>: the functions that the tables pass to GLib, and why arrays of ids can be lists: looking an id
  up is \<open>ptr_find\<close>, and the copy of an array that \<open>client_connection_table_request_dup\<close> and
  \<open>client_proxyname_table_request_dup\<close> make holds the same ids.
\<close>

text \<open>Of \<open>strcmp\<close> only the sign is specified.\<close>

fun strcmp :: "string \<Rightarrow> string \<Rightarrow> int" where
  "strcmp [] [] = 0"
| "strcmp [] (y # ys) = -1"
| "strcmp (x # xs) [] = 1"
| "strcmp (x # xs) (y # ys) =
     (if x = y then strcmp xs ys else if (of_char x :: nat) < of_char y then -1 else 1)"

definition str_equal :: "string \<Rightarrow> string \<Rightarrow> bool" where
  "str_equal s1 s2 \<longleftrightarrow> strcmp s1 s2 = 0"

definition str_dup :: "string option \<Rightarrow> string option" where
  "str_dup s = (case s of Some t \<Rightarrow> Some t | None \<Rightarrow> None)"

text \<open>The counter of waiting threads that the C library keeps in a condition variable.\<close>

record pthread_cond = wrefs :: "32 word"

definition gonggo_cond_reset :: "pthread_cond \<Rightarrow> pthread_cond" where
  "gonggo_cond_reset cond = cond\<lparr>wrefs := 0\<rparr>"

lemma str_equal_iff: "str_equal s t \<longleftrightarrow> s = t"
  unfolding str_equal_def by (induction s t rule: strcmp.induct) auto

fun find_with_equal_func :: "('a \<Rightarrow> 'a \<Rightarrow> bool) \<Rightarrow> 'a \<Rightarrow> 'a list \<Rightarrow> nat option" where
  "find_with_equal_func equal needle [] = None"
| "find_with_equal_func equal needle (y # ys) =
     (if equal y needle then Some 0 else map_option Suc (find_with_equal_func equal needle ys))"

lemma find_str_equal: "find_with_equal_func str_equal x xs = ptr_find x xs"
  by (induction xs) (simp_all add: str_equal_iff)

lemma copy_str_dup:
  assumes "holds_elements array (map Some xs)" "length xs < 4294967295"
  shows "\<exists>b. g_ptr_array_copy array (Some str_dup) = Some b \<and> holds_elements b (map Some xs)"
proof -
  have "map str_dup (map Some xs) = map Some xs" by (simp add: str_dup_def)
  with copy_elements [OF assms(1), of str_dup] assms(2) show ?thesis by (metis length_map)
qed

end
