(* ===== verification/Lock_Model.thy ===== *)
theory Lock_Model
  imports Gonggo_Prelude
begin

text \<open>
  Threads that take and give mutexes, wait on condition variables and join each other.  A thread is the
  list of the blocking operations it has still to do; \<open>thread_step\<close> does the next one.  The locale
  \<open>lock_hierarchy\<close> shows that threads which take their mutexes in the order of a rank never wait for each
  other in a circle; \<open>stuck\<close> describes threads that wait for each other for ever.
\<close>

section \<open>Operations and states\<close>

datatype ('m, 't, 'c) lock_op =
    Take 'm        \<comment> \<open>\<open>pthread_mutex_lock\<close>\<close>
  | Give 'm        \<comment> \<open>\<open>pthread_mutex_unlock\<close>\<close>
  | Join 't        \<comment> \<open>\<open>pthread_join\<close>\<close>
  | Sleep 'c 'm    \<comment> \<open>\<open>pthread_cond_wait\<close> is called\<close>
  | Asleep 'c 'm   \<comment> \<open>and has not been signalled yet\<close>
  | Signal 'c      \<comment> \<open>\<open>pthread_cond_signal\<close>\<close>

record ('m, 't, 'c) locking =
  lk_code :: "'t \<Rightarrow> ('m, 't, 'c) lock_op list"
  lk_owner :: "'m \<Rightarrow> 't option"
  lk_waiting :: "'c \<Rightarrow> 't list"

text \<open>A thread that is woken has to take the mutex again.\<close>

fun wake :: "'c \<Rightarrow> ('m, 't, 'c) lock_op list \<Rightarrow> ('m, 't, 'c) lock_op list" where
  "wake cv (Asleep cv' m # k) = (if cv' = cv then Take m # k else Asleep cv' m # k)"
| "wake cv k = k"

text \<open>The next operation of thread \<open>t\<close>; \<open>n\<close> says which of the waiting threads a signal wakes.\<close>

definition thread_step ::
    "'t \<Rightarrow> nat \<Rightarrow> ('m, 't, 'c) locking \<Rightarrow> ('m, 't, 'c) locking option" where
  "thread_step t n c =
     (case lk_code c t of
        [] \<Rightarrow> None
      | op # k \<Rightarrow>
          (let c' = c\<lparr>lk_code := (lk_code c)(t := k)\<rparr> in
           case op of
             Take m \<Rightarrow>
               if lk_owner c m = None then Some (c'\<lparr>lk_owner := (lk_owner c)(m := Some t)\<rparr>) else None
           | Give m \<Rightarrow>
               if lk_owner c m = Some t then Some (c'\<lparr>lk_owner := (lk_owner c)(m := None)\<rparr>) else None
           | Join b \<Rightarrow> if lk_code c b = [] then Some c' else None
           | Sleep cv m \<Rightarrow>
               if lk_owner c m = Some t
               then Some (c\<lparr>lk_code := (lk_code c)(t := Asleep cv m # k),
                            lk_owner := (lk_owner c)(m := None),
                            lk_waiting := (lk_waiting c)(cv := lk_waiting c cv @ [t])\<rparr>)
               else None
           | Asleep cv m \<Rightarrow> None
           | Signal cv \<Rightarrow>
               if lk_waiting c cv = [] then Some c'
               else if n < length (lk_waiting c cv)
               then (let u = lk_waiting c cv ! n in
                     Some (c\<lparr>lk_code := (lk_code c')(u := wake cv (lk_code c' u)),
                             lk_waiting := (lk_waiting c)(cv := remove_nth n (lk_waiting c cv))\<rparr>))
               else None))"

definition lock_step :: "('m, 't, 'c) locking \<Rightarrow> ('m, 't, 'c) locking \<Rightarrow> bool" where
  "lock_step c c' \<longleftrightarrow> (\<exists>t n. thread_step t n c = Some c')"

definition held :: "('m, 't, 'c) locking \<Rightarrow> 't \<Rightarrow> 'm set" where
  "held c t = {m. lk_owner c m = Some t}"

definition asleep :: "('m, 't, 'c) locking \<Rightarrow> 't \<Rightarrow> bool" where
  "asleep c t \<longleftrightarrow> (\<exists>cv m k. lk_code c t = Asleep cv m # k)"

definition can_step :: "('m, 't, 'c) locking \<Rightarrow> 't \<Rightarrow> bool" where
  "can_step c t \<longleftrightarrow> (\<exists>n c'. thread_step t n c = Some c')"

text \<open>Thread \<open>t\<close> waits for \<open>u\<close>: for a mutex \<open>u\<close> owns, or for \<open>u\<close> to end.\<close>

inductive waits_for :: "('m, 't, 'c) locking \<Rightarrow> 't \<Rightarrow> 't \<Rightarrow> bool" for c where
  for_mutex: "lk_code c t = Take m # k \<Longrightarrow> lk_owner c m = Some u \<Longrightarrow> waits_for c t u"
| for_end: "lk_code c t = Join u # k \<Longrightarrow> lk_code c u \<noteq> [] \<Longrightarrow> waits_for c t u"

inductive_cases waits_forE: "waits_for c t u"

lemma thread_step_cases:
  assumes "thread_step t n c = Some c'"
  obtains
    (Take) m k where "lk_code c t = Take m # k" "lk_owner c m = None"
      "c' = c\<lparr>lk_code := (lk_code c)(t := k), lk_owner := (lk_owner c)(m := Some t)\<rparr>"
  | (Give) m k where "lk_code c t = Give m # k" "lk_owner c m = Some t"
      "c' = c\<lparr>lk_code := (lk_code c)(t := k), lk_owner := (lk_owner c)(m := None)\<rparr>"
  | (Join) b k where "lk_code c t = Join b # k" "lk_code c b = []" "c' = c\<lparr>lk_code := (lk_code c)(t := k)\<rparr>"
  | (Sleep) cv m k where "lk_code c t = Sleep cv m # k" "lk_owner c m = Some t"
      "c' = c\<lparr>lk_code := (lk_code c)(t := Asleep cv m # k), lk_owner := (lk_owner c)(m := None),
              lk_waiting := (lk_waiting c)(cv := lk_waiting c cv @ [t])\<rparr>"
  | (Signal) cv k u w where "lk_code c t = Signal cv # k"
      "c' = c\<lparr>lk_code := ((lk_code c)(t := k))(u := wake cv (((lk_code c)(t := k)) u)), lk_waiting := w\<rparr>"
  | (Lost) cv k where "lk_code c t = Signal cv # k" "c' = c\<lparr>lk_code := (lk_code c)(t := k)\<rparr>"
  using assms
  by (fastforce simp: thread_step_def Let_def split: list.splits lock_op.splits if_splits)

section \<open>A rank of the mutexes\<close>

text \<open>
  A thread that holds the mutexes \<open>H\<close> takes only mutexes of a higher rank, none below its own base, and
  joins only threads whose base is above all it holds and above its own.  It ends without a mutex.
\<close>

fun disciplined ::
    "('m \<Rightarrow> nat) \<Rightarrow> ('t \<Rightarrow> nat) \<Rightarrow> 't \<Rightarrow> 'm set \<Rightarrow> ('m, 't, 'c) lock_op list \<Rightarrow> bool" where
  "disciplined rank base t H [] \<longleftrightarrow> H = {}"
| "disciplined rank base t H (Take m # k) \<longleftrightarrow>
     (\<forall>h\<in>H. rank h < rank m) \<and> base t \<le> rank m \<and> disciplined rank base t (insert m H) k"
| "disciplined rank base t H (Give m # k) \<longleftrightarrow> m \<in> H \<and> disciplined rank base t (H - {m}) k"
| "disciplined rank base t H (Join b # k) \<longleftrightarrow>
     (\<forall>h\<in>H. rank h < base b) \<and> base t < base b \<and> disciplined rank base t H k"
| "disciplined rank base t H (Sleep cv m # k) \<longleftrightarrow>
     m \<in> H \<and> (\<forall>h\<in>H - {m}. rank h < rank m) \<and> base t \<le> rank m \<and> disciplined rank base t H k"
| "disciplined rank base t H (Asleep cv m # k) \<longleftrightarrow>
     (\<forall>h\<in>H. rank h < rank m) \<and> base t \<le> rank m \<and> disciplined rank base t (insert m H) k"
| "disciplined rank base t H (Signal cv # k) \<longleftrightarrow> disciplined rank base t H k"

lemma disciplined_wake [simp]:
  "disciplined rank base t H (wake cv k) = disciplined rank base t H k"
  by (cases "(cv, k)" rule: wake.cases) simp_all

definition well_ordered :: "('m \<Rightarrow> nat) \<Rightarrow> ('t \<Rightarrow> nat) \<Rightarrow> ('m, 't, 'c) locking \<Rightarrow> bool" where
  "well_ordered rank base c \<longleftrightarrow> (\<forall>t. disciplined rank base t (held c t) (lk_code c t))"

lemma held_cong: "lk_owner c' = lk_owner c \<Longrightarrow> held c' = held c"
  by (simp add: held_def fun_eq_iff)

lemma held_take:
  "lk_owner c m = None \<Longrightarrow> lk_owner c' = (lk_owner c)(m := Some t) \<Longrightarrow>
     held c' u = (if u = t then insert m (held c t) else held c u)"
  by (auto simp: held_def)

lemma held_give:
  "lk_owner c m = Some t \<Longrightarrow> lk_owner c' = (lk_owner c)(m := None) \<Longrightarrow>
     held c' u = (if u = t then held c t - {m} else held c u)"
  by (auto simp: held_def)

lemma well_ordered_step:
  assumes w: "well_ordered rank base c" and "lock_step c c'"
  shows "well_ordered rank base c'"
proof -
  from assms obtain t n where s: "thread_step t n c = Some c'" by (auto simp: lock_step_def)
  have d: "disciplined rank base v (held c v) (lk_code c v)" for v using w by (simp add: well_ordered_def)
  have "disciplined rank base u (held c' u) (lk_code c' u)" for u
    using s
  proof (cases rule: thread_step_cases)
    case (Take m k)
    with d [of t] d [of u] held_take [of c m c' t u] show ?thesis by simp
  next
    case (Give m k)
    with d [of t] d [of u] held_give [of c m t c' u] show ?thesis by simp
  next
    case (Join b k)
    with d [of t] d [of u] held_cong [of c' c] show ?thesis by simp
  next
    case (Sleep cv m k)
    with d [of t] d [of u] held_give [of c m t c' u] show ?thesis by (simp add: insert_absorb)
  next
    case (Signal cv k v ws)
    with d [of t] d [of u] held_cong [of c' c] show ?thesis by (cases "u = v") simp_all
  next
    case (Lost cv k)
    with d [of t] d [of u] held_cong [of c' c] show ?thesis by simp
  qed
  then show ?thesis by (simp add: well_ordered_def)
qed

text \<open>How far up the ranks a thread waits.\<close>

definition level :: "('m \<Rightarrow> nat) \<Rightarrow> ('t \<Rightarrow> nat) \<Rightarrow> nat \<Rightarrow> ('m, 't, 'c) lock_op list \<Rightarrow> nat" where
  "level rank base bound k =
     (case k of Take m # _ \<Rightarrow> 2 * rank m + 1 | Join b # _ \<Rightarrow> 2 * base b | _ \<Rightarrow> 2 * bound + 2)"

lemma level_bound:
  assumes "\<And>m. rank m \<le> bound" "\<And>t. base t \<le> bound"
  shows "level rank base bound k \<le> 2 * bound + 2"
proof -
  have "2 * rank m + 1 \<le> 2 * bound + 2" "2 * base t \<le> 2 * bound + 2" for m t
    using assms(1) [of m] assms(2) [of t] by simp_all
  then show ?thesis by (simp add: level_def split: list.split lock_op.split)
qed

lemma waits_up:
  assumes w: "well_ordered rank base c" and f: "waits_for c t u"
    and b: "\<And>m. rank m \<le> bound" "\<And>t. base t \<le> bound"
  shows "lk_code c u \<noteq> [] \<and>
    level rank base bound (lk_code c t) < level rank base bound (lk_code c u)"
  using f
proof cases
  case (for_mutex m k)
  then have m: "m \<in> held c u" by (simp add: held_def)
  with w [unfolded well_ordered_def, rule_format, of u] b(1) [of m] for_mutex(1) show ?thesis
    by (cases "lk_code c u"; cases "hd (lk_code c u)") (auto simp: level_def)
next
  case (for_end k)
  with w [unfolded well_ordered_def, rule_format, of t] w [unfolded well_ordered_def, rule_format, of u]
    b(2) [of u]
  show ?thesis
    by (cases "lk_code c u"; cases "hd (lk_code c u)") (auto simp: level_def)
qed

lemma blocked_waits:
  assumes w: "well_ordered rank base c" and "lk_code c t \<noteq> []" "\<not> can_step c t" "\<not> asleep c t"
  shows "\<exists>u. waits_for c t u"
proof -
  from assms(2) obtain op k where c: "lk_code c t = op # k" by (cases "lk_code c t") auto
  have own: "m \<in> held c t \<Longrightarrow> lk_owner c m = Some t" for m by (simp add: held_def)
  have d: "disciplined rank base t (held c t) (op # k)" using w c by (simp add: well_ordered_def flip: c)
  have step: "thread_step t n c = None" for n using assms(3) by (auto simp: can_step_def)
  show ?thesis
  proof (cases op)
    case (Take m)
    with step [of 0] c obtain u where "lk_owner c m = Some u"
      by (auto simp: thread_step_def Let_def split: if_splits)
    with Take c show ?thesis by (auto intro: waits_for.for_mutex)
  next
    case (Join b)
    with step [of 0] c have "lk_code c b \<noteq> []"
      by (auto simp: thread_step_def Let_def split: if_splits)
    with Join c show ?thesis by (auto intro: waits_for.for_end)
  next
    case (Signal cv)
    with step [of 0] c show ?thesis by (auto simp: thread_step_def Let_def split: if_splits)
  qed (use d c step [of 0] own assms(4) in \<open>auto simp: thread_step_def Let_def asleep_def\<close>)
qed

text \<open>A hierarchy: a rank for every mutex and a base for every thread, and initial states that keep to
  them.\<close>

locale lock_hierarchy = invariant_system init lock_step "well_ordered rank base"
  for init :: "('m, 't, 'c) locking \<Rightarrow> bool" and rank :: "'m \<Rightarrow> nat" and base :: "'t \<Rightarrow> nat" +
  fixes bound :: nat
  assumes rank_bound: "rank m \<le> bound"
    and base_bound: "base t \<le> bound"
begin

lemma wait_ends:
  assumes "well_ordered rank base c" "lk_code c t \<noteq> []"
  shows "\<exists>u. (waits_for c)\<^sup>*\<^sup>* t u \<and> (can_step c u \<or> asleep c u)"
  using assms(2)
proof (induction "2 * bound + 2 - level rank base bound (lk_code c t)" arbitrary: t rule: less_induct)
  case less
  show ?case
  proof (cases "can_step c t \<or> asleep c t")
    case False
    then obtain u where u: "waits_for c t u" using blocked_waits [OF assms(1) less.prems] by blast
    note up = waits_up [OF assms(1) u rank_bound base_bound]
    have "level rank base bound (lk_code c u) \<le> 2 * bound + 2"
      using rank_bound base_bound by (rule level_bound)
    with up less.hyps [of u] obtain v where "(waits_for c)\<^sup>*\<^sup>* u v" "can_step c v \<or> asleep c v"
      by (meson diff_less_mono2 order.strict_trans2)
    with u show ?thesis by (meson converse_rtranclp_into_rtranclp)
  qed blast
qed

text \<open>Every thread that has not ended can go on, or waits, over other threads, for one that can, or for
  one that waits to be signalled.\<close>

lemma no_circle:
  "init c0 \<Longrightarrow> lock_step\<^sup>*\<^sup>* c0 c \<Longrightarrow> lk_code c t \<noteq> [] \<Longrightarrow>
     \<exists>u. (waits_for c)\<^sup>*\<^sup>* t u \<and> (can_step c u \<or> asleep c u)"
  by (rule wait_ends [OF inv_reachable])

end

section \<open>Threads that wait for ever\<close>

definition releases :: "'m \<Rightarrow> ('m, 't, 'c) lock_op list \<Rightarrow> bool" where
  "releases m k \<longleftrightarrow> Give m \<in> set k \<or> (\<exists>cv. Sleep cv m \<in> set k)"

text \<open>Each thread of \<open>S\<close> waits for a mutex that a thread of \<open>S\<close> owns or nobody will give back, for the
  end of a thread of \<open>S\<close>, or for a signal that only threads of \<open>S\<close> would send.\<close>

definition stuck :: "'t set \<Rightarrow> ('m, 't, 'c) locking \<Rightarrow> bool" where
  "stuck S c \<longleftrightarrow> (\<forall>t\<in>S.
     (\<exists>m k u. lk_code c t = Take m # k \<and> lk_owner c m = Some u \<and>
        (u \<in> S \<or> \<not> releases m (lk_code c u))) \<or>
     (\<exists>b k. lk_code c t = Join b # k \<and> b \<in> S) \<or>
     (\<exists>cv m k. lk_code c t = Asleep cv m # k \<and> (\<forall>u. u \<notin> S \<longrightarrow> Signal cv \<notin> set (lk_code c u))))"

lemma stuck_code: "stuck S c \<Longrightarrow> t \<in> S \<Longrightarrow> lk_code c t \<noteq> []"
  by (fastforce simp: stuck_def)

lemma set_wake: "set (wake cv k) \<subseteq> set k \<union> range Take"
  by (cases "(cv, k)" rule: wake.cases) auto

lemma releases_wake [simp]: "releases m (wake cv k) = releases m k"
  by (cases "(cv, k)" rule: wake.cases) (auto simp: releases_def)

lemma wake_other: "(\<And>m k'. k \<noteq> Asleep cv m # k') \<Longrightarrow> wake cv k = k"
  by (cases "(cv, k)" rule: wake.cases) auto

lemma stuck_no_step:
  assumes "stuck S c" "t \<in> S"
  shows "thread_step t n c = None"
proof -
  consider m k u where "lk_code c t = Take m # k" "lk_owner c m = Some u"
    | b k where "lk_code c t = Join b # k" "b \<in> S"
    | cv m k where "lk_code c t = Asleep cv m # k"
    using assms by (fastforce simp: stuck_def)
  then show ?thesis
    by cases (use stuck_code [OF assms(1)] in \<open>auto simp: thread_step_def Let_def\<close>)
qed

lemma set_code_step:
  assumes "thread_step t n c = Some c'"
  shows "Signal cv \<in> set (lk_code c' u) \<Longrightarrow> Signal cv \<in> set (lk_code c u)"
    and "releases m (lk_code c' u) \<Longrightarrow> releases m (lk_code c u)"
  using assms set_wake
  by (cases rule: thread_step_cases; fastforce simp: releases_def split: if_splits)+

lemma stuck_step:
  assumes st: "stuck S c" and "lock_step c c'"
  shows "stuck S c'"
proof -
  from assms obtain t n where s: "thread_step t n c = Some c'" by (auto simp: lock_step_def)
  have out: "t \<notin> S" using stuck_no_step [OF st] s by force
  have "lk_code c' v = lk_code c v" if "v \<in> S" for v
  proof -
    have "\<not> (\<exists>cv m k. lk_code c v = Asleep cv m # k \<and> Signal cv \<in> set (lk_code c t))"
      using st that out by (fastforce simp: stuck_def)
    with s that out show ?thesis
      by (cases rule: thread_step_cases)
        (auto split: if_splits intro!: wake_other)
  qed
  moreover have "lk_owner c' m = Some u"
    if "lk_owner c m = Some u" "u \<in> S \<or> \<not> releases m (lk_code c u)" for m u
    using s that out by (cases rule: thread_step_cases) (auto simp: releases_def)
  ultimately show ?thesis
    using st set_code_step [OF s] unfolding stuck_def by (metis (no_types, lifting))
qed

lemma stuck_for_ever:
  assumes "stuck S c" "lock_step\<^sup>*\<^sup>* c c'" "t \<in> S"
  shows "lk_code c' t \<noteq> []"
proof -
  have "stuck S c'" using assms(2,1) by (induction rule: rtranclp_induct) (auto intro: stuck_step)
  then show ?thesis using assms(3) by (rule stuck_code)
qed

section \<open>Runs\<close>

text \<open>
  A run of few threads, for states in which the mutexes \<open>l\<close> are owned on top of \<open>own\<close>.  \<open>quiet\<close> does \<open>n\<close>
  operations of one thread that wait for nobody and wake nobody; a schedule is a list of such stretches, of
  threads that fall asleep, of signals that wake the only sleeper, and of joins.
\<close>

definition owned :: "('m \<Rightarrow> 't option) \<Rightarrow> ('m \<times> 't) list \<Rightarrow> 'm \<Rightarrow> 't option" where
  "owned own l m = (case map_of l m of None \<Rightarrow> own m | Some t \<Rightarrow> Some t)"

fun quiet ::
    "('m \<Rightarrow> 't option) \<Rightarrow> ('c \<Rightarrow> 't list) \<Rightarrow> 't \<Rightarrow> nat \<Rightarrow> ('m \<times> 't) list \<Rightarrow>
     ('m, 't, 'c) lock_op list \<Rightarrow> (('m \<times> 't) list \<times> ('m, 't, 'c) lock_op list) option" where
  "quiet own w t 0 l k = Some (l, k)"
| "quiet own w t (Suc n) l (Take m # k) =
     (if own m = None \<and> map_of l m = None then quiet own w t n ((m, t) # l) k else None)"
| "quiet own w t (Suc n) l (Give m # k) =
     (if own m = None \<and> map_of l m = Some t then quiet own w t n (filter (\<lambda>(m', _). m' \<noteq> m) l) k else None)"
| "quiet own w t (Suc n) l (Signal cv # k) = (if w cv = [] then quiet own w t n l k else None)"
| "quiet own w t (Suc n) l k = None"

datatype 't move = Quiet 't nat | Doze 't | Rouse 't | Joined 't

fun do_move ::
    "('m \<Rightarrow> 't option) \<Rightarrow> 't move \<Rightarrow>
     ('t \<Rightarrow> ('m, 't, 'c) lock_op list) \<times> ('m \<times> 't) list \<times> ('c \<Rightarrow> 't list) \<Rightarrow>
     (('t \<Rightarrow> ('m, 't, 'c) lock_op list) \<times> ('m \<times> 't) list \<times> ('c \<Rightarrow> 't list)) option" where
  "do_move own (Quiet t n) (f, l, w) =
     (case quiet own w t n l (f t) of None \<Rightarrow> None | Some (l', k) \<Rightarrow> Some (f(t := k), l', w))"
| "do_move own (Doze t) (f, l, w) =
     (case f t of
        Sleep cv m # k \<Rightarrow>
          if own m = None \<and> map_of l m = Some t
          then Some (f(t := Asleep cv m # k), filter (\<lambda>(m', _). m' \<noteq> m) l, w(cv := w cv @ [t])) else None
      | _ \<Rightarrow> None)"
| "do_move own (Rouse t) (f, l, w) =
     (case f t of
        Signal cv # k \<Rightarrow>
          (case w cv of
             [u] \<Rightarrow> if u = t then None else Some (f(t := k, u := wake cv (f u)), l, w(cv := []))
           | _ \<Rightarrow> None)
      | _ \<Rightarrow> None)"
| "do_move own (Joined t) (f, l, w) =
     (case f t of Join b # k \<Rightarrow> if f b = [] then Some (f(t := k), l, w) else None | _ \<Rightarrow> None)"

fun do_moves where
  "do_moves own [] s = Some s"
| "do_moves own (x # xs) s = (case do_move own x s of None \<Rightarrow> None | Some s' \<Rightarrow> do_moves own xs s')"

abbreviation state_of where
  "state_of own f l w \<equiv> \<lparr>lk_code = f, lk_owner = owned own l, lk_waiting = w\<rparr>"

lemma owned_Cons: "owned own ((m, t) # l) = (owned own l)(m := Some t)"
  by (auto simp: owned_def)

lemma map_of_filter_key: "map_of (filter (\<lambda>(m', _). m' \<noteq> m) l) x = (if x = m then None else map_of l x)"
  by (induction l) auto

lemma owned_filter: "own m = None \<Longrightarrow> owned own (filter (\<lambda>(m', _). m' \<noteq> m) l) = (owned own l)(m := None)"
  by (auto simp: owned_def map_of_filter_key)

lemma one_step: "thread_step t n c = Some c' \<Longrightarrow> lock_step\<^sup>*\<^sup>* c' c'' \<Longrightarrow> lock_step\<^sup>*\<^sup>* c c''"
  by (meson converse_rtranclp_into_rtranclp lock_step_def)

lemma quiet_steps:
  "quiet own w t n l k = Some (l', k') \<Longrightarrow> f t = k \<Longrightarrow>
     lock_step\<^sup>*\<^sup>* (state_of own f l w) (state_of own (f(t := k')) l' w)"
proof (induction own w t n l k arbitrary: f rule: quiet.induct)
  case (1 own w t l k)
  then show ?case by (simp add: fun_upd_idem)
next
  case (2 own w t n l m k)
  then have "thread_step t 0 (state_of own f l w) = Some (state_of own (f(t := k)) ((m, t) # l) w)"
    by (simp add: thread_step_def owned_Cons split: if_splits) (simp add: owned_def)
  moreover from "2.prems" have q: "own m = None \<and> map_of l m = None" "quiet own w t n ((m, t) # l) k = Some (l', k')"
    by (auto split: if_splits)
  from "2.IH" [OF q, of "f(t := k)"]
  have "lock_step\<^sup>*\<^sup>* (state_of own (f(t := k)) ((m, t) # l) w) (state_of own (f(t := k')) l' w)"
    by (simp only: fun_upd_same fun_upd_upd)
  ultimately show ?case by (rule one_step)
next
  case (3 own w t n l m k)
  then have "thread_step t 0 (state_of own f l w) =
      Some (state_of own (f(t := k)) (filter (\<lambda>(m', _). m' \<noteq> m) l) w)"
    by (simp add: thread_step_def owned_filter split: if_splits) (simp add: owned_def)
  moreover from "3.prems" have q: "own m = None \<and> map_of l m = Some t"
    "quiet own w t n (filter (\<lambda>(m', _). m' \<noteq> m) l) k = Some (l', k')"
    by (auto split: if_splits)
  from "3.IH" [OF q, of "f(t := k)"]
  have "lock_step\<^sup>*\<^sup>* (state_of own (f(t := k)) (filter (\<lambda>(m', _). m' \<noteq> m) l) w) (state_of own (f(t := k')) l' w)"
    by (simp only: fun_upd_same fun_upd_upd)
  ultimately show ?case by (rule one_step)
next
  case (4 own w t n l cv k)
  then have "thread_step t 0 (state_of own f l w) = Some (state_of own (f(t := k)) l w)"
    by (simp add: thread_step_def split: if_splits)
  moreover from "4.prems" have q: "w cv = []" "quiet own w t n l k = Some (l', k')"
    by (auto split: if_splits)
  from "4.IH" [OF q, of "f(t := k)"]
  have "lock_step\<^sup>*\<^sup>* (state_of own (f(t := k)) l w) (state_of own (f(t := k')) l' w)"
    by (simp only: fun_upd_same fun_upd_upd)
  ultimately show ?case by (rule one_step)
qed simp_all

lemma do_move_steps:
  "do_move own x (f, l, w) = Some (f', l', w') \<Longrightarrow>
     lock_step\<^sup>*\<^sup>* (state_of own f l w) (state_of own f' l' w')"
proof (cases x)
  case (Quiet t n)
  assume "do_move own x (f, l, w) = Some (f', l', w')"
  with Quiet show ?thesis by (auto split: option.splits intro: quiet_steps)
next
  case (Doze t)
  assume "do_move own x (f, l, w) = Some (f', l', w')"
  with Doze have "thread_step t 0 (state_of own f l w) = Some (state_of own f' l' w')"
    by (auto simp: thread_step_def owned_filter split: list.splits lock_op.splits if_splits)
      (auto simp: owned_def)
  then show ?thesis by (rule one_step) simp
next
  case (Rouse t)
  assume "do_move own x (f, l, w) = Some (f', l', w')"
  with Rouse have "thread_step t 0 (state_of own f l w) = Some (state_of own f' l' w')"
    by (auto simp: thread_step_def remove_nth_def split: list.splits lock_op.splits if_splits)
  then show ?thesis by (rule one_step) simp
next
  case (Joined t)
  assume "do_move own x (f, l, w) = Some (f', l', w')"
  with Joined have "thread_step t 0 (state_of own f l w) = Some (state_of own f' l' w')"
    by (auto simp: thread_step_def split: list.splits lock_op.splits if_splits)
  then show ?thesis by (rule one_step) simp
qed

lemma do_moves_steps:
  "do_moves own xs (f, l, w) = Some (f', l', w') \<Longrightarrow>
     lock_step\<^sup>*\<^sup>* (state_of own f l w) (state_of own f' l' w')"
proof (induction xs arbitrary: f l w)
  case (Cons x xs)
  then obtain f1 l1 w1 where
    "do_move own x (f, l, w) = Some (f1, l1, w1)" "do_moves own xs (f1, l1, w1) = Some (f', l', w')"
    by (auto split: option.splits)
  with Cons.IH do_move_steps show ?case by (meson rtranclp_trans)
qed simp

end
