(* ===== verification/Lock_Programs.thy ===== *)
theory Lock_Programs
  imports Lock_Model Proxy_Types
begin

text \<open>
  The blocking operations of every thread of gonggo, in the order of the code: which mutexes it takes and
  gives, where it waits and what it joins.  What the data decide (a table has an entry, the proxy was idle,
  how many requests there are) is an argument, so that one definition covers all runs through a function.

  \<open>pthread_cond_timedwait\<close> gives the mutex and takes it again without a signal.  The mutex of \<open>log.c\<close> is left
  out: nothing blocks under it.  The robust mutex of a segment that a thread of gonggo still holds when it ends
  is given then.  The proxies are processes of their own: a proxy holds the mutex of its alive segment until
  it dies, and does nothing else here.
\<close>

section \<open>Mutexes, condition variables and threads\<close>

datatype mutex =
    ActivatorShm              \<comment> \<open>\<open>proxy_activator_shm->lock\<close>\<close>
  | TerminatorMutex           \<comment> \<open>\<open>proxy_terminator_lock\<close>\<close>
  | TimeoutMutex | DrainMutex
  | KillMutex                 \<comment> \<open>\<open>proxy_thread_kill_lock\<close>\<close>
  | ZombieMutex | TerminateArray
  | ChannelTable | SubscribeTable | AliveTable
  | RequestTable | ConnectionTable | ServiceTable | ProxynameTable
  | DbMutex | UuidMutex
  | ChannelCtx pname          \<comment> \<open>\<open>ctx->lock\<close> of the channel thread\<close>
  | ChannelShm pname | SubscribeShm pname | AliveShm pname

datatype cond =
    ActivatorDispatcherWakeup | ActivatorProxyWakeup
  | TerminatorWakeup | TimeoutWakeup | DrainWakeup
  | ChannelWakeup pname       \<comment> \<open>\<open>ctx->wakeup\<close>\<close>
  | ChannelIdle pname | ChannelDispatcherWakeup pname | ChannelProxyWakeup pname
  | SubscribeDispatcherWakeup pname | SubscribeProxyWakeup pname

datatype thread =
    MainThread | ActivatorThread | TerminatorThread | TimeoutThread | DrainThread
  | WebThread nat
  | SubscribeThread pname | ChannelThread pname | AliveThread pname
  | ProxyProcess pname

type_synonym ops = "(mutex, thread, cond) lock_op list"

definition locked :: "mutex \<Rightarrow> ops" where
  "locked m = [Take m, Give m]"

definition signalled :: "mutex \<Rightarrow> cond \<Rightarrow> ops" where
  "signalled m cv = [Take m, Signal cv, Give m]"

definition timed_wait :: "mutex \<Rightarrow> ops" where
  "timed_wait m = [Give m, Take m]"

abbreviation guard :: "bool \<Rightarrow> ops \<Rightarrow> ops" where
  "guard b ops \<equiv> (if b then ops else [])"

abbreviation repeated :: "('a \<Rightarrow> ops) \<Rightarrow> 'a list \<Rightarrow> ops" where
  "repeated f xs \<equiv> concat (map f xs)"

section \<open>Tables and notices\<close>

text \<open>\<open>drop_all\<close> reads the keys and then tries \<open>k\<close> proxies.\<close>

definition drop_all_locks :: "nat \<Rightarrow> ops" where
  "drop_all_locks k = concat (replicate (Suc k) (locked ProxynameTable))"

text \<open>A notice to the clients of a proxy with \<open>n\<close> pending requests.\<close>

definition alive_notification_locks :: "nat \<Rightarrow> ops" where
  "alive_notification_locks n = locked ProxynameTable @ concat (replicate n (locked RequestTable))"

section \<open>Web server threads\<close>

text \<open>How a REST call ends: before the table lock, at the idle wait (\<open>w\<close>: the channel was not idle and
  the call waited), without a segment for the payload, or after the wait for the proxy (\<open>r\<close>: with an answer).\<close>

datatype rest_course =
    RestUnavailable
  | RestRefused bool
  | RestNoSegment bool
  | RestWaited bool bool

datatype web_job =
    StoreRequest pname bool
  | AskTest
  | AskResponseDump
  | CloseIdleConnection
  | CloseConnection "nat list" "(pname \<times> nat option) list"
  | RestCall pname rest_course

definition idle_wait_locks :: "pname \<Rightarrow> bool \<Rightarrow> ops" where
  "idle_wait_locks p w = Take (ChannelShm p) # guard w [Sleep (ChannelIdle p) (ChannelShm p)]"

text \<open>An accepted message; \<open>found\<close>: the proxy has a channel thread.\<close>

definition route_locks :: "pname \<Rightarrow> bool \<Rightarrow> ops" where
  "route_locks p found =
     locked RequestTable @ locked ConnectionTable @ locked ServiceTable @ locked ProxynameTable @
     [Take ChannelTable] @ guard found (signalled (ChannelCtx p) (ChannelWakeup p)) @ [Give ChannelTable]"

text \<open>A closed connection: for each of its requests the number of proxies \<open>drop_all\<close> tries; then the
  proxies, with the number of their requests where the channel thread exists.\<close>

definition drop_conn_locks :: "nat list \<Rightarrow> (pname \<times> nat option) list \<Rightarrow> ops" where
  "drop_conn_locks requests proxies =
     locked ConnectionTable @
     repeated (\<lambda>k. locked ProxynameTable @ locked RequestTable @ locked ServiceTable @ drop_all_locks k)
       requests @
     [Take ChannelTable] @
     repeated (\<lambda>(p, found). case found of
         None \<Rightarrow> []
       | Some n \<Rightarrow>
           concat (replicate n (locked UuidMutex @ locked ServiceTable @ locked ProxynameTable)) @
           signalled (ChannelCtx p) (ChannelWakeup p))
       proxies @
     [Give ChannelTable] @ locked ConnectionTable"

fun channel_rest_locks :: "pname \<Rightarrow> rest_course \<Rightarrow> ops" where
  "channel_rest_locks p RestUnavailable = []"
| "channel_rest_locks p (RestRefused w) = idle_wait_locks p w"
| "channel_rest_locks p (RestNoSegment w) = idle_wait_locks p w @ locked UuidMutex @ [Give (ChannelShm p)]"
| "channel_rest_locks p (RestWaited w r) =
     idle_wait_locks p w @ locked UuidMutex @
     [Signal (ChannelProxyWakeup p), Sleep (ChannelDispatcherWakeup p) (ChannelShm p)] @
     guard r [Signal (ChannelProxyWakeup p)] @ [Give (ChannelShm p)]"

definition rest_handler_locks :: "pname \<Rightarrow> rest_course \<Rightarrow> ops" where
  "rest_handler_locks p c = [Take ChannelTable] @ channel_rest_locks p c @ [Give ChannelTable]"

fun web_job_locks :: "web_job \<Rightarrow> ops" where
  "web_job_locks (StoreRequest p found) = route_locks p found"
| "web_job_locks AskTest = locked AliveTable @ locked DbMutex"
| "web_job_locks AskResponseDump = locked DbMutex"
| "web_job_locks CloseIdleConnection = locked ConnectionTable"
| "web_job_locks (CloseConnection requests proxies) = drop_conn_locks requests proxies"
| "web_job_locks (RestCall p c) = rest_handler_locks p c"

section \<open>Timeout and drain threads\<close>

text \<open>A sweep has one entry per expired request: whether the reply is stored, and the proxies tried.\<close>

definition client_timeout_locks :: "(bool \<times> nat) list list \<Rightarrow> ops" where
  "client_timeout_locks sweeps =
     [Take TimeoutMutex] @
     repeated (\<lambda>expired.
         locked RequestTable @
         repeated (\<lambda>(saved, k).
             locked RequestTable @ guard saved (locked DbMutex) @ locked RequestTable @
             locked ConnectionTable @ locked ServiceTable @ drop_all_locks k) expired @
         timed_wait TimeoutMutex) sweeps @
     [Give TimeoutMutex]"

definition respond_drain_locks :: "nat \<Rightarrow> ops" where
  "respond_drain_locks n =
     [Take DrainMutex] @ concat (replicate n (locked DbMutex @ timed_wait DrainMutex)) @ [Give DrainMutex]"

section \<open>The threads of a proxy\<close>

text \<open>A reply to one requester: is the request forgotten, had it a connection, is the reply stored.\<close>

datatype subscribe_reply = SubscribeReply bool bool bool

fun subscribe_reply_locks :: "subscribe_reply \<Rightarrow> ops" where
  "subscribe_reply_locks (SubscribeReply remove conn saved) =
     locked RequestTable @
     guard remove (guard conn (locked ConnectionTable) @ locked ProxynameTable @ locked ServiceTable) @
     guard saved (locked DbMutex)"

definition subscribe_purge_locks :: "bool \<times> nat \<Rightarrow> ops" where
  "subscribe_purge_locks =
     (\<lambda>(conn, k). locked RequestTable @ guard conn (locked ConnectionTable) @ drop_all_locks k @
        locked ServiceTable)"

type_synonym subscribe_answer = "(bool \<times> nat) option \<times> subscribe_reply list"

definition subscribe_exchange_locks :: "subscribe_answer \<Rightarrow> ops" where
  "subscribe_exchange_locks =
     (\<lambda>(purge, replies). (case purge of None \<Rightarrow> [] | Some x \<Rightarrow> subscribe_purge_locks x) @
        repeated subscribe_reply_locks replies)"

text \<open>One entry per wakeup; \<open>None\<close> where there is no answer, at the stop for one.\<close>

definition proxy_subscribe_locks :: "pname \<Rightarrow> subscribe_answer option list \<Rightarrow> ops" where
  "proxy_subscribe_locks p wakeups =
     [Take (SubscribeShm p)] @
     repeated (\<lambda>a. Sleep (SubscribeDispatcherWakeup p) (SubscribeShm p) #
         (case a of
            None \<Rightarrow> []
          | Some answer \<Rightarrow> subscribe_exchange_locks answer @ [Signal (SubscribeProxyWakeup p)])) wakeups @
     [Give (SubscribeShm p)]"

text \<open>A request of the channel thread's list, up to the next one: its text is gone, no segment, or handed
  over (\<open>w\<close>: the channel was not idle; \<open>acked\<close>: the proxy acknowledged or failed).\<close>

datatype hand_over = NoText | NoSegment bool | HandedOver bool bool

fun hand_over_locks :: "pname \<Rightarrow> hand_over \<Rightarrow> ops" where
  "hand_over_locks p NoText = locked ServiceTable"
| "hand_over_locks p (NoSegment w) = locked ServiceTable @ idle_wait_locks p w @ [Give (ChannelShm p)]"
| "hand_over_locks p (HandedOver w acked) =
     locked ServiceTable @ idle_wait_locks p w @
     [Signal (ChannelProxyWakeup p), Sleep (ChannelDispatcherWakeup p) (ChannelShm p)] @
     guard acked (Signal (ChannelProxyWakeup p) # locked ProxynameTable) @ [Give (ChannelShm p)]"

text \<open>A pass that looks at the array of proxies to be terminated and then hands over the requests.\<close>

definition exchange_locks :: "pname \<Rightarrow> hand_over list \<Rightarrow> ops" where
  "exchange_locks p reqs = locked TerminateArray @ locked ProxynameTable @ repeated (hand_over_locks p) reqs"

text \<open>How the channel thread ends: it sees the stop flag; it finds its proxy marked (and the idle wait
  succeeded or not); the idle wait of a later request fails; the proxy dies or the segment is in the state
  of termination after a request was posted.\<close>

datatype channel_end =
    SawStop
  | SawMark bool bool
  | IdleFailed "hand_over list" bool
  | ProxyGone "hand_over list" bool

fun channel_end_locks :: "pname \<Rightarrow> channel_end \<Rightarrow> ops" where
  "channel_end_locks p SawStop = [Give (ChannelCtx p)]"
| "channel_end_locks p (SawMark w idle) =
     locked TerminateArray @ idle_wait_locks p w @
     guard idle [Signal (ChannelProxyWakeup p), Give (ChannelShm p)] @
     locked TerminateArray @ [Give (ChannelCtx p)] @ guard (\<not> idle) [Give (ChannelShm p)]"
| "channel_end_locks p (IdleFailed reqs w) =
     exchange_locks p reqs @ locked ServiceTable @ idle_wait_locks p w @
     [Give (ChannelCtx p), Give (ChannelShm p)]"
| "channel_end_locks p (ProxyGone reqs w) =
     exchange_locks p reqs @ locked ServiceTable @ idle_wait_locks p w @
     [Signal (ChannelProxyWakeup p), Sleep (ChannelDispatcherWakeup p) (ChannelShm p),
      Give (ChannelShm p), Give (ChannelCtx p)]"

definition proxy_channel_locks :: "pname \<Rightarrow> hand_over list list \<Rightarrow> channel_end \<Rightarrow> ops" where
  "proxy_channel_locks p passes e =
     [Take (ChannelCtx p)] @
     repeated (\<lambda>reqs. exchange_locks p reqs @ [Sleep (ChannelWakeup p) (ChannelCtx p)]) passes @
     channel_end_locks p e"

text \<open>The alive thread finds the proxy alive \<open>n\<close> times, then dead.\<close>

definition terminator_awake_locks :: ops where
  "terminator_awake_locks = signalled TerminatorMutex TerminatorWakeup"

definition proxy_alive_locks :: "pname \<Rightarrow> nat \<Rightarrow> nat \<Rightarrow> ops" where
  "proxy_alive_locks p n pending =
     concat (replicate n (locked (AliveShm p))) @
     [Take (AliveShm p)] @ locked ZombieMutex @ terminator_awake_locks @
     alive_notification_locks pending @ [Give (AliveShm p)]"

section \<open>Stopping and killing\<close>

definition subscribe_stop_locks :: "pname \<Rightarrow> ops" where
  "subscribe_stop_locks p = signalled (SubscribeShm p) (SubscribeDispatcherWakeup p)"

definition channel_stop_locks :: "pname \<Rightarrow> ops" where
  "channel_stop_locks p =
     [Take (ChannelShm p), Signal (ChannelIdle p), Signal (ChannelDispatcherWakeup p),
      Give (ChannelShm p)] @ signalled (ChannelCtx p) (ChannelWakeup p)"

text \<open>A kill; the flags say which of the three tables have the proxy.\<close>

type_synonym kill = "pname \<times> bool \<times> bool \<times> bool"

fun proxy_thread_kill_locks :: "kill \<Rightarrow> ops" where
  "proxy_thread_kill_locks (p, s, c, a) =
     [Take KillMutex] @
     locked SubscribeTable @ guard s (subscribe_stop_locks p) @
     [Take ChannelTable] @ guard c (channel_stop_locks p) @ [Give ChannelTable] @
     locked AliveTable @
     guard s (Join (SubscribeThread p) # locked SubscribeTable) @
     guard c (Join (ChannelThread p) # locked ChannelTable) @
     guard a (Join (AliveThread p) # locked AliveTable) @
     [Give KillMutex]"

text \<open>A round of the terminator: woken, it buries the proxies of the queue.\<close>

definition proxy_terminator_locks :: "kill list list \<Rightarrow> ops" where
  "proxy_terminator_locks rounds =
     [Take TerminatorMutex] @
     repeated (\<lambda>ks. Sleep TerminatorWakeup TerminatorMutex #
         repeated (\<lambda>k. locked ProxynameTable @ proxy_thread_kill_locks k @ locked ZombieMutex) ks) rounds @
     [Give TerminatorMutex]"

section \<open>The activator\<close>

text \<open>An activation: the proxy is a zombie; its segments are missing; or its threads are started (as far as
  the flags \<open>c\<close> and \<open>a\<close> say) and the activation succeeds, with \<open>n\<close> pending requests, or is undone, after a
  time-out or not.  \<open>w\<close>: the answer of the proxy was waited for.\<close>

datatype activation_end =
    Confirmed nat
  | Undone bool bool bool

datatype activation_course =
    ZombieRefused bool
  | SegmentsMissing kill
  | Started kill bool activation_end

definition await_proxy_locks :: "bool \<Rightarrow> ops" where
  "await_proxy_locks w =
     [Signal ActivatorProxyWakeup, Give ActivatorShm, Take ActivatorShm] @ guard w (timed_wait ActivatorShm)"

fun activation_end_locks :: "pname \<Rightarrow> activation_end \<Rightarrow> ops" where
  "activation_end_locks p (Confirmed n) =
     locked SubscribeTable @ locked ChannelTable @ locked AliveTable @
     signalled (ChannelCtx p) (ChannelWakeup p) @ alive_notification_locks n"
| "activation_end_locks p (Undone timeout c a) =
     guard (timeout \<and> c) (locked TerminateArray @ signalled (ChannelCtx p) (ChannelWakeup p)) @
     subscribe_stop_locks p @ guard c (channel_stop_locks p) @
     [Join (SubscribeThread p)] @ guard c [Join (ChannelThread p)] @ guard a [Join (AliveThread p)]"

fun activation_locks :: "activation_course \<Rightarrow> ops" where
  "activation_locks (ZombieRefused w) = locked ZombieMutex @ await_proxy_locks w"
| "activation_locks (SegmentsMissing k) = locked ZombieMutex @ proxy_thread_kill_locks k"
| "activation_locks (Started k w e) =
     locked ZombieMutex @ proxy_thread_kill_locks k @ await_proxy_locks w @
     activation_end_locks (fst k) e"

definition proxy_activator_locks :: "activation_course option list \<Rightarrow> ops" where
  "proxy_activator_locks wakeups =
     [Take ActivatorShm] @
     repeated (\<lambda>r. [Signal ActivatorProxyWakeup, Sleep ActivatorDispatcherWakeup ActivatorShm] @
         (case r of None \<Rightarrow> [] | Some a \<Rightarrow> activation_locks a)) wakeups @
     [Give ActivatorShm]"

section \<open>Shut-down\<close>

definition kill_all_locks :: "kill list \<Rightarrow> ops" where
  "kill_all_locks ks =
     locked AliveTable @
     repeated (\<lambda>k. locked ZombieMutex @ proxy_thread_kill_locks k @ locked ZombieMutex) ks"

definition threads_stop_locks :: ops where
  "threads_stop_locks =
     signalled ActivatorShm ActivatorDispatcherWakeup @ signalled DrainMutex DrainWakeup @
     signalled TimeoutMutex TimeoutWakeup @ signalled TerminatorMutex TerminatorWakeup @
     [Join ActivatorThread, Join DrainThread, Join TimeoutThread, Join TerminatorThread]"

definition shut_down_locks :: "kill list \<Rightarrow> ops" where
  "shut_down_locks ks = kill_all_locks ks @ threads_stop_locks"

section \<open>The whole process\<close>

text \<open>A plan says what each thread will do.  \<open>pl_buried\<close>: the alive threads that have handed their dead proxy
  to the terminator already; they hold the mutex of their segment and have the notice to send.\<close>

record plan =
  pl_kills :: "kill list"
  pl_rounds :: "kill list list"
  pl_activations :: "activation_course option list"
  pl_web :: "nat \<Rightarrow> web_job list"
  pl_sweeps :: "(bool \<times> nat) list list"
  pl_purges :: nat
  pl_answers :: "pname \<Rightarrow> subscribe_answer option list"
  pl_channel :: "pname \<Rightarrow> hand_over list list \<times> channel_end"
  pl_alive :: "pname \<Rightarrow> nat \<times> nat"
  pl_buried :: "pname \<Rightarrow> bool"

fun program :: "plan \<Rightarrow> thread \<Rightarrow> ops" where
  "program pl MainThread = shut_down_locks (pl_kills pl)"
| "program pl ActivatorThread = proxy_activator_locks (pl_activations pl)"
| "program pl TerminatorThread = proxy_terminator_locks (pl_rounds pl)"
| "program pl TimeoutThread = client_timeout_locks (pl_sweeps pl)"
| "program pl DrainThread = respond_drain_locks (pl_purges pl)"
| "program pl (WebThread n) = repeated web_job_locks (pl_web pl n)"
| "program pl (SubscribeThread p) = proxy_subscribe_locks p (pl_answers pl p)"
| "program pl (ChannelThread p) =
     (case pl_channel pl p of (passes, e) \<Rightarrow> proxy_channel_locks p passes e)"
| "program pl (AliveThread p) =
     (if pl_buried pl p then alive_notification_locks (snd (pl_alive pl p)) @ [Give (AliveShm p)]
      else proxy_alive_locks p (fst (pl_alive pl p)) (snd (pl_alive pl p)))"
| "program pl (ProxyProcess p) = guard (\<not> pl_buried pl p) [Give (AliveShm p)]"

fun first_owner :: "plan \<Rightarrow> mutex \<Rightarrow> thread option" where
  "first_owner pl (AliveShm p) = Some (if pl_buried pl p then AliveThread p else ProxyProcess p)"
| "first_owner pl _ = None"

definition system :: "plan \<Rightarrow> (mutex, thread, cond) locking" where
  "system pl = \<lparr>lk_code = program pl, lk_owner = first_owner pl, lk_waiting = (\<lambda>_. [])\<rparr>"

end
