(* ===== verification/Lock_Order.thy ===== *)
theory Lock_Order
  imports Lock_Programs
begin

text \<open>
  The order in which gonggo takes its mutexes, and what follows: apart from two situations (a thread that
  holds the kill mutex joins the alive thread of a proxy whose death is not yet with the terminator, and a
  REST call that is refused and keeps the mutex of the channel) no threads wait for each other in a circle.
\<close>

section \<open>Ranks\<close>

fun mutex_rank :: "mutex \<Rightarrow> nat" where
  "mutex_rank ActivatorShm = 1"
| "mutex_rank (AliveShm p) = 2"
| "mutex_rank TerminatorMutex = 3"
| "mutex_rank TimeoutMutex = 3"
| "mutex_rank DrainMutex = 3"
| "mutex_rank KillMutex = 4"
| "mutex_rank ChannelTable = 5"
| "mutex_rank (ChannelCtx p) = 6"
| "mutex_rank (ChannelShm p) = 7"
| "mutex_rank (SubscribeShm p) = 7"
| "mutex_rank m = 8"

text \<open>An alive thread that has woken the terminator takes only mutexes of tables.\<close>

fun thread_base :: "(pname \<Rightarrow> bool) \<Rightarrow> thread \<Rightarrow> nat" where
  "thread_base buried MainThread = 0"
| "thread_base buried ActivatorThread = 1"
| "thread_base buried (AliveThread p) = (if buried p then 8 else 2)"
| "thread_base buried (ProxyProcess p) = 2"
| "thread_base buried TerminatorThread = 3"
| "thread_base buried TimeoutThread = 3"
| "thread_base buried DrainThread = 3"
| "thread_base buried (WebThread n) = 5"
| "thread_base buried (ChannelThread p) = 6"
| "thread_base buried (SubscribeThread p) = 7"

lemma rank_le: "mutex_rank m \<le> 8"
  by (cases m) simp_all

lemma base_le: "thread_base buried t \<le> 8"
  by (cases t) simp_all

abbreviation in_order :: "(pname \<Rightarrow> bool) \<Rightarrow> thread \<Rightarrow> mutex set \<Rightarrow> ops \<Rightarrow> bool" where
  "in_order buried t H k \<equiv> disciplined mutex_rank (thread_base buried) t H k"

section \<open>Stretches of code that end with the mutexes they begin with\<close>

definition keeps :: "(pname \<Rightarrow> bool) \<Rightarrow> thread \<Rightarrow> mutex set \<Rightarrow> ops \<Rightarrow> bool" where
  "keeps buried t H ops \<longleftrightarrow> (\<forall>k. in_order buried t H k \<longrightarrow> in_order buried t H (ops @ k))"

named_theorems keeps

lemma keeps_append [keeps]: "keeps b t H xs \<Longrightarrow> keeps b t H ys \<Longrightarrow> keeps b t H (xs @ ys)"
  by (simp add: keeps_def)

lemma keeps_Nil [keeps]: "keeps b t H []"
  by (simp add: keeps_def)

lemma keeps_repeated [keeps]: "(\<And>x. x \<in> set xs \<Longrightarrow> keeps b t H (f x)) \<Longrightarrow> keeps b t H (repeated f xs)"
  by (induction xs) (auto intro: keeps_append keeps_Nil)

lemma keeps_replicate [keeps]: "keeps b t H ops \<Longrightarrow> keeps b t H (concat (replicate n ops))"
  by (induction n) (auto intro: keeps_append keeps_Nil)

lemma keeps_guard [keeps]: "(c \<Longrightarrow> keeps b t H ops) \<Longrightarrow> keeps b t H (guard c ops)"
  by (simp add: keeps_Nil)

text \<open>The mutexes a thread may hold when it takes \<open>m\<close>.\<close>

definition below :: "(pname \<Rightarrow> bool) \<Rightarrow> thread \<Rightarrow> mutex set \<Rightarrow> mutex \<Rightarrow> bool" where
  "below b t H m \<longleftrightarrow> (\<forall>h\<in>H. mutex_rank h < mutex_rank m) \<and> thread_base b t \<le> mutex_rank m"

lemma below_not_in: "below b t H m \<Longrightarrow> insert m H - {m} = H"
  by (auto simp: below_def)

lemma keeps_locked [keeps]: "below b t H m \<Longrightarrow> keeps b t H (locked m)"
  using below_not_in [of b t H m] by (simp add: keeps_def locked_def below_def)

lemma keeps_signalled [keeps]: "below b t H m \<Longrightarrow> keeps b t H (signalled m cv)"
  using below_not_in [of b t H m] by (simp add: keeps_def signalled_def below_def)

lemma keeps_timed_wait [keeps]:
  "m \<in> H \<Longrightarrow> below b t (H - {m}) m \<Longrightarrow> keeps b t H (timed_wait m)"
  by (simp add: keeps_def timed_wait_def below_def insert_absorb)

lemma keeps_Sleep [keeps]:
  "m \<in> H \<Longrightarrow> below b t (H - {m}) m \<Longrightarrow> keeps b t H ops \<Longrightarrow> keeps b t H (Sleep cv m # ops)"
  by (simp add: keeps_def below_def)

lemma keeps_Signal [keeps]: "keeps b t H ops \<Longrightarrow> keeps b t H (Signal cv # ops)"
  by (simp add: keeps_def)

lemma keeps_Join [keeps]:
  "\<forall>h\<in>H. mutex_rank h < thread_base b u \<Longrightarrow> thread_base b t < thread_base b u \<Longrightarrow>
     keeps b t H ops \<Longrightarrow> keeps b t H (Join u # ops)"
  by (simp add: keeps_def)

text \<open>A mutex that is held over a stretch.\<close>

lemma keeps_around [keeps]:
  assumes "below b t H m" "keeps b t (insert m H) ops"
  shows "keeps b t H ([Take m] @ ops @ [Give m])"
  using assms below_not_in [OF assms(1)] by (simp add: keeps_def below_def)

lemma in_order_program: "keeps b t H ops \<Longrightarrow> in_order b t H k \<Longrightarrow> in_order b t H (ops @ k)"
  by (simp add: keeps_def)

section \<open>Tables, handlers and the threads without proxies\<close>

definition under_tables :: "(pname \<Rightarrow> bool) \<Rightarrow> thread \<Rightarrow> mutex set \<Rightarrow> bool" where
  "under_tables b t H \<longleftrightarrow> (\<forall>h\<in>H. mutex_rank h < 8)"

lemma below_tables:
  assumes "under_tables b t H" "mutex_rank m = 8"
  shows "below b t H m"
  using assms base_le [of b t] by (simp add: under_tables_def below_def)

lemmas table_locks = keeps below_tables

lemma keeps_drop_all [keeps]: "under_tables b t H \<Longrightarrow> keeps b t H (drop_all_locks k)"
  unfolding drop_all_locks_def by (intro table_locks) simp_all

lemma keeps_notification [keeps]: "under_tables b t H \<Longrightarrow> keeps b t H (alive_notification_locks n)"
  unfolding alive_notification_locks_def by (intro table_locks) simp_all

lemma keeps_channel_exchange:
  assumes "below b t H (ChannelShm p)" "keeps b t (insert (ChannelShm p) H) ops"
  shows "keeps b t H (idle_wait_locks p w @ ops @ [Give (ChannelShm p)])"
  using assms below_not_in [OF assms(1)]
  by (simp add: keeps_def idle_wait_locks_def below_def insert_absorb)

lemma below_insert: "below b t (insert h H) m \<longleftrightarrow> mutex_rank h < mutex_rank m \<and> below b t H m"
  by (auto simp: below_def)

lemma below_empty: "below b t {} m \<longleftrightarrow> thread_base b t \<le> mutex_rank m"
  by (simp add: below_def)

lemma under_tables_insert:
  "under_tables b t {}" "under_tables b t (insert h H) \<longleftrightarrow> mutex_rank h < 8 \<and> under_tables b t H"
  by (auto simp: under_tables_def)

lemmas ranks = below_insert below_empty under_tables_insert

text \<open>The web server.\<close>

fun refused :: "web_job \<Rightarrow> bool" where
  "refused (RestCall p (RestRefused w)) = True"
| "refused _ = False"

lemma keeps_rest:
  assumes "\<not> refused (RestCall p c)"
  shows "keeps b (WebThread n) {ChannelTable} (channel_rest_locks p c)"
proof -
  have t: "below b (WebThread n) {ChannelTable} (ChannelShm p)" by (simp add: ranks)
  have uuid: "keeps b (WebThread n) {ChannelShm p, ChannelTable} (locked UuidMutex)"
    by (intro keeps) (simp add: ranks)
  show ?thesis
  proof (cases c)
    case (RestNoSegment w)
    with keeps_channel_exchange [OF t uuid] show ?thesis by simp
  next
    case (RestWaited w r)
    have "keeps b (WebThread n) {ChannelShm p, ChannelTable}
        (locked UuidMutex @ [Signal (ChannelProxyWakeup p), Sleep (ChannelDispatcherWakeup p) (ChannelShm p)] @
         guard r [Signal (ChannelProxyWakeup p)])"
      by (intro keeps uuid) (simp_all add: ranks)
    from keeps_channel_exchange [OF t this] RestWaited show ?thesis by simp
  qed (use assms in \<open>simp_all add: keeps\<close>)
qed

lemma keeps_web_job:
  assumes "\<not> refused j"
  shows "keeps b (WebThread n) {} (web_job_locks j)"
proof (cases j)
  case (StoreRequest p found)
  have "keeps b (WebThread n) {}
      (([Take ChannelTable] @ guard found (signalled (ChannelCtx p) (ChannelWakeup p)) @ [Give ChannelTable]))"
    by (intro keeps) (simp_all add: ranks)
  then show ?thesis unfolding StoreRequest web_job_locks.simps route_locks_def
    by (intro keeps) (simp_all add: ranks)
next
  case (CloseConnection requests proxies)
  have notify: "keeps b (WebThread n) {} ([Take ChannelTable] @
     repeated (\<lambda>(p, found). case found of
         None \<Rightarrow> []
       | Some n \<Rightarrow>
           concat (replicate n (locked UuidMutex @ locked ServiceTable @ locked ProxynameTable)) @
           signalled (ChannelCtx p) (ChannelWakeup p))
       proxies @ [Give ChannelTable])"
    by (intro keeps) (auto split: option.split intro!: keeps simp: ranks)
  have forget: "keeps b (WebThread n) {}
     (locked ConnectionTable @ repeated (\<lambda>k. locked ProxynameTable @ locked RequestTable @
        locked ServiceTable @ drop_all_locks k) requests)"
    by (intro keeps) (simp_all add: ranks)
  show ?thesis
    using keeps_append [OF forget keeps_append [OF notify keeps_locked [of b "WebThread n" "{}" ConnectionTable]]]
    unfolding CloseConnection web_job_locks.simps drop_conn_locks_def append_assoc by (simp add: ranks)
next
  case (RestCall p c)
  with keeps_rest [of p c b n] assms show ?thesis
    unfolding RestCall web_job_locks.simps rest_handler_locks_def by (intro keeps) (simp_all add: ranks)
qed (auto intro!: keeps simp: ranks)

lemma in_order_web:
  "\<forall>j \<in> set jobs. \<not> refused j \<Longrightarrow> in_order b (WebThread n) {} (repeated web_job_locks jobs)"
  using in_order_program [of b "WebThread n" "{}" "repeated web_job_locks jobs" "[]"]
  by (simp add: keeps_repeated keeps_web_job)

text \<open>The timeout and drain threads.\<close>

lemma in_order_timeout: "in_order b TimeoutThread {} (client_timeout_locks sweeps)"
proof -
  have "keeps b TimeoutThread {} (client_timeout_locks sweeps)"
    unfolding client_timeout_locks_def
    by (intro keeps) (auto intro!: keeps simp: ranks)
  from in_order_program [OF this, of "[]"] show ?thesis by simp
qed

lemma in_order_drain: "in_order b DrainThread {} (respond_drain_locks n)"
proof -
  have "keeps b DrainThread {} (respond_drain_locks n)"
    unfolding respond_drain_locks_def by (intro keeps) (simp_all add: ranks)
  from in_order_program [OF this, of "[]"] show ?thesis by simp
qed

section \<open>The threads of a proxy\<close>

lemma keeps_reply [keeps]: "under_tables b t H \<Longrightarrow> keeps b t H (subscribe_reply_locks r)"
  by (cases r) (auto intro!: keeps below_tables)

lemma keeps_answer [keeps]: "under_tables b t H \<Longrightarrow> keeps b t H (subscribe_exchange_locks a)"
  by (auto simp: subscribe_exchange_locks_def subscribe_purge_locks_def
      split: prod.split option.split intro!: keeps below_tables)

lemma in_order_subscribe: "in_order b (SubscribeThread p) {} (proxy_subscribe_locks p wakeups)"
proof -
  have "keeps b (SubscribeThread p) {} (proxy_subscribe_locks p wakeups)"
    unfolding proxy_subscribe_locks_def
    by (intro keeps) (auto split: option.split intro!: keeps simp: ranks)
  from in_order_program [OF this, of "[]"] show ?thesis by simp
qed

lemma keeps_hand_over:
  "keeps b (ChannelThread p) {ChannelCtx p} (hand_over_locks p r)"
proof -
  have shm: "below b (ChannelThread p) {ChannelCtx p} (ChannelShm p)" by (simp add: ranks)
  have service: "keeps b (ChannelThread p) {ChannelCtx p} (locked ServiceTable)"
    by (intro keeps) (simp add: ranks)
  show ?thesis
  proof (cases r)
    case NoText
    with service show ?thesis by simp
  next
    case (NoSegment w)
    from keeps_append [OF service keeps_channel_exchange [OF shm keeps_Nil]] NoSegment show ?thesis
      by simp
  next
    case (HandedOver w acked)
    have "keeps b (ChannelThread p) (insert (ChannelShm p) {ChannelCtx p})
        ([Signal (ChannelProxyWakeup p), Sleep (ChannelDispatcherWakeup p) (ChannelShm p)] @
         guard acked (Signal (ChannelProxyWakeup p) # locked ProxynameTable))"
      by (intro keeps) (auto intro!: keeps simp: ranks)
    from keeps_append [OF service keeps_channel_exchange [OF shm this]] HandedOver show ?thesis
      by simp
  qed
qed

lemma keeps_exchange [keeps]:
  "keeps b (ChannelThread p) {ChannelCtx p} (exchange_locks p reqs)"
  unfolding exchange_locks_def by (intro keeps keeps_hand_over) (simp_all add: ranks)

lemma in_order_channel_end:
  "in_order b (ChannelThread p) {ChannelCtx p} (channel_end_locks p e)"
proof -
  have table: "in_order b (ChannelThread p) {ChannelCtx p} (locked m @ k)"
    if "mutex_rank m = 8" "in_order b (ChannelThread p) {ChannelCtx p} k" for m k
    using that by (intro in_order_program keeps) (simp_all add: ranks)
  show ?thesis
  proof (cases e)
    case (SawMark w idle)
    then show ?thesis
      by (auto simp: idle_wait_locks_def locked_def insert_commute insert_Diff_if)
  next
    case (IdleFailed reqs w)
    then show ?thesis
      by (auto intro!: in_order_program [OF keeps_exchange] table
          simp: idle_wait_locks_def insert_commute insert_Diff_if)
  next
    case (ProxyGone reqs w)
    then show ?thesis
      by (auto intro!: in_order_program [OF keeps_exchange] table
          simp: idle_wait_locks_def insert_commute insert_Diff_if)
  qed simp
qed

lemma in_order_channel: "in_order b (ChannelThread p) {} (proxy_channel_locks p passes e)"
proof -
  have "keeps b (ChannelThread p) {ChannelCtx p}
      (repeated (\<lambda>reqs. exchange_locks p reqs @ [Sleep (ChannelWakeup p) (ChannelCtx p)]) passes)"
    by (intro keeps) (auto intro!: keeps simp: ranks)
  from in_order_program [OF this in_order_channel_end] show ?thesis
    by (simp add: proxy_channel_locks_def)
qed

lemma in_order_alive:
  "\<not> b p \<Longrightarrow> in_order b (AliveThread p) {} (proxy_alive_locks p n pending)"
  "in_order b (AliveThread p) {AliveShm p} (alive_notification_locks pending @ [Give (AliveShm p)])"
proof -
  show "in_order b (AliveThread p) {AliveShm p} (alive_notification_locks pending @ [Give (AliveShm p)])"
    by (intro in_order_program keeps) (simp_all add: ranks)
  assume b: "\<not> b p"
  have "keeps b (AliveThread p) {} (concat (replicate n (locked (AliveShm p))))"
    using b by (intro keeps) (simp add: ranks)
  moreover have "keeps b (AliveThread p) {} ([Take (AliveShm p)] @
      (locked ZombieMutex @ terminator_awake_locks @ alive_notification_locks pending) @ [Give (AliveShm p)])"
    unfolding terminator_awake_locks_def using b by (intro keeps) (auto simp: ranks)
  ultimately have "keeps b (AliveThread p) {} (proxy_alive_locks p n pending)"
    unfolding proxy_alive_locks_def by (metis keeps_append append_assoc)
  from in_order_program [OF this, of "[]"] show "in_order b (AliveThread p) {} (proxy_alive_locks p n pending)"
    by simp
qed

section \<open>Kills\<close>

text \<open>A kill joins the alive thread only of a proxy whose death is with the terminator.\<close>

fun joins_buried :: "(pname \<Rightarrow> bool) \<Rightarrow> kill \<Rightarrow> bool" where
  "joins_buried b (p, s, c, a) \<longleftrightarrow> (a \<longrightarrow> b p)"

lemma keeps_stops [keeps]:
  "below b t H (SubscribeShm p) \<Longrightarrow> keeps b t H (subscribe_stop_locks p)"
  "below b t H (ChannelShm p) \<Longrightarrow> below b t H (ChannelCtx p) \<Longrightarrow> keeps b t H (channel_stop_locks p)"
proof -
  show "below b t H (SubscribeShm p) \<Longrightarrow> keeps b t H (subscribe_stop_locks p)"
    unfolding subscribe_stop_locks_def by (rule keeps_signalled)
  assume shm: "below b t H (ChannelShm p)" and ctx: "below b t H (ChannelCtx p)"
  have "keeps b t (insert (ChannelShm p) H) [Signal (ChannelIdle p), Signal (ChannelDispatcherWakeup p)]"
    by (intro keeps)
  from keeps_append [OF keeps_around [OF shm this] keeps_signalled [OF ctx]]
  show "keeps b t H (channel_stop_locks p)" by (simp add: channel_stop_locks_def)
qed

lemma keeps_kill [keeps]:
  assumes "joins_buried b k" "\<forall>h\<in>H. mutex_rank h < 4" "thread_base b t \<le> 4"
  shows "keeps b t H (proxy_thread_kill_locks k)"
proof -
  obtain p s c a where k: "k = (p, s, c, a)" by (cases k)
  let ?H = "insert KillMutex H"
  have H: "\<And>m. mutex_rank m > 4 \<Longrightarrow> below b t ?H m" using assms(2,3) by (auto simp: below_def)
  have H2: "\<And>m. mutex_rank m > 5 \<Longrightarrow> below b t (insert ChannelTable ?H) m"
    using assms(2,3) by (auto simp: below_def)
  have join: "keeps b t ?H (Join u # locked m)" if "thread_base b u > 4" "mutex_rank m > 4" for u m
  proof (rule keeps_Join)
    show "\<forall>h\<in>?H. mutex_rank h < thread_base b u" "thread_base b t < thread_base b u"
      using that assms(2,3) by auto
    show "keeps b t ?H (locked m)" using that H by (intro keeps) simp
  qed
  define middle where "middle = [Take ChannelTable] @ guard c (channel_stop_locks p) @ [Give ChannelTable]"
  have stop: "keeps b t ?H middle"
    unfolding middle_def by (intro keeps H H2) simp_all
  have "keeps b t ?H
     (locked SubscribeTable @ guard s (subscribe_stop_locks p) @ middle @
      locked AliveTable @
      guard s (Join (SubscribeThread p) # locked SubscribeTable) @
      guard c (Join (ChannelThread p) # locked ChannelTable) @
      guard a (Join (AliveThread p) # locked AliveTable))"
    by (intro keeps_append keeps_guard keeps_locked keeps_stops stop join H)
      (use assms(1) k in \<open>simp_all split: if_splits\<close>)
  from keeps_around [OF _ this] show ?thesis
    using assms(2,3) by (simp add: k middle_def below_def)
qed

lemma in_order_terminator:
  assumes "\<forall>ks \<in> set rounds. \<forall>k \<in> set ks. joins_buried b k"
  shows "in_order b TerminatorThread {} (proxy_terminator_locks rounds)"
proof -
  have "keeps b TerminatorThread {} (proxy_terminator_locks rounds)"
    unfolding proxy_terminator_locks_def using assms
    by (intro keeps) (auto intro!: keeps simp: ranks)
  from in_order_program [OF this, of "[]"] show ?thesis by simp
qed

section \<open>The activator and the end\<close>

fun activation_kill :: "activation_course \<Rightarrow> kill option" where
  "activation_kill (ZombieRefused w) = None"
| "activation_kill (SegmentsMissing k) = Some k"
| "activation_kill (Started k w e) = Some k"

lemma keeps_await: "keeps b ActivatorThread {ActivatorShm} (await_proxy_locks w)"
  by (simp add: keeps_def await_proxy_locks_def timed_wait_def)

lemma keeps_activation_end:
  "keeps b ActivatorThread {ActivatorShm} (activation_end_locks p e)"
  by (cases e) (auto intro!: keeps simp: ranks)

lemma keeps_activation:
  assumes "\<forall>k. activation_kill a = Some k \<longrightarrow> joins_buried b k"
  shows "keeps b ActivatorThread {ActivatorShm} (activation_locks a)"
  using assms
  by (cases a) (auto intro!: keeps keeps_await keeps_activation_end simp: ranks)

lemma in_order_activator:
  assumes "\<forall>a k. Some a \<in> set wakeups \<and> activation_kill a = Some k \<longrightarrow> joins_buried b k"
  shows "in_order b ActivatorThread {} (proxy_activator_locks wakeups)"
proof -
  have "keeps b ActivatorThread {} (proxy_activator_locks wakeups)"
    unfolding proxy_activator_locks_def using assms
    by (intro keeps) (auto intro!: keeps keeps_activation split: option.split simp: ranks)
  from in_order_program [OF this, of "[]"] show ?thesis by simp
qed

lemma in_order_shut_down:
  assumes "\<forall>k \<in> set ks. joins_buried b k"
  shows "in_order b MainThread {} (shut_down_locks ks)"
proof -
  have "keeps b MainThread {} (shut_down_locks ks)"
    unfolding shut_down_locks_def kill_all_locks_def threads_stop_locks_def using assms
    by (intro keeps) (auto intro!: keeps simp: ranks)
  from in_order_program [OF this, of "[]"] show ?thesis by simp
qed

end
