(* ===== verification/Lock_Guarantees.thy ===== *)
theory Lock_Guarantees
  imports Lock_Order
begin

text \<open>
  Which threads of gonggo can wait for each other for ever, and which cannot.
\<close>

section \<open>The process as a lock hierarchy\<close>

definition kills_of :: "plan \<Rightarrow> kill set" where
  "kills_of pl =
     set (pl_kills pl) \<union> (\<Union>ks \<in> set (pl_rounds pl). set ks) \<union>
     {k. \<exists>a. Some a \<in> set (pl_activations pl) \<and> activation_kill a = Some k}"

text \<open>Each alive thread that is joined by a kill has handed its dead proxy to the terminator.\<close>

definition kills_join_buried :: "plan \<Rightarrow> bool" where
  "kills_join_buried pl \<longleftrightarrow> (\<forall>k \<in> kills_of pl. joins_buried (pl_buried pl) k)"

definition no_call_refused :: "plan \<Rightarrow> bool" where
  "no_call_refused pl \<longleftrightarrow> (\<forall>n. \<forall>j \<in> set (pl_web pl n). \<not> refused j)"

lemma first_owner_iff:
  "first_owner pl m = Some t \<longleftrightarrow>
     (\<exists>p. m = AliveShm p \<and> t = (if pl_buried pl p then AliveThread p else ProxyProcess p))"
  by (cases m) auto

lemma held_system:
  "held (system pl) t =
     (case t of AliveThread p \<Rightarrow> if pl_buried pl p then {AliveShm p} else {}
      | ProxyProcess p \<Rightarrow> if pl_buried pl p then {} else {AliveShm p}
      | _ \<Rightarrow> {})"
  by (auto simp: held_def system_def first_owner_iff split: thread.split)

lemma well_ordered_system:
  assumes "kills_join_buried pl" "no_call_refused pl"
  shows "well_ordered mutex_rank (thread_base (pl_buried pl)) (system pl)"
proof -
  have "in_order (pl_buried pl) t (held (system pl) t) (program pl t)" for t
    using assms
    by (cases t)
      (auto simp: held_system kills_join_buried_def kills_of_def no_call_refused_def split: prod.split
        intro!: in_order_shut_down in_order_activator in_order_terminator in_order_timeout
          in_order_drain in_order_web in_order_subscribe in_order_channel in_order_alive)
  then show ?thesis by (simp add: well_ordered_def system_def)
qed

definition starts :: "(pname \<Rightarrow> bool) \<Rightarrow> (mutex, thread, cond) locking \<Rightarrow> bool" where
  "starts buried c \<longleftrightarrow>
     (\<exists>pl. c = system pl \<and> pl_buried pl = buried \<and> kills_join_buried pl \<and> no_call_refused pl)"

interpretation gonggo_locks: lock_hierarchy "starts buried" mutex_rank "thread_base buried" 8
  for buried
proof unfold_locales
  show "well_ordered mutex_rank (thread_base buried) c" if "starts buried c" for c
    using that well_ordered_system by (auto simp: starts_def)
  show "well_ordered mutex_rank (thread_base buried) c'"
    if "well_ordered mutex_rank (thread_base buried) c" "lock_step c c'" for c c'
    using that by (rule well_ordered_step)
qed (rule rank_le base_le)+


definition sample_plan :: plan where
  "sample_plan = \<lparr>pl_kills = [], pl_rounds = [[(''p'', True, True, True)]], pl_activations = [None],
     pl_web = (\<lambda>n. if n = 0 then [StoreRequest ''p'' True] else []), pl_sweeps = [], pl_purges = 0,
     pl_answers = (\<lambda>_. []), pl_channel = (\<lambda>_. ([], SawStop)), pl_alive = (\<lambda>_. (0, 0)),
     pl_buried = (\<lambda>p. p = ''p'')\<rparr>"


section \<open>Circles that do occur\<close>

text \<open>A proxy dies and gives the mutex of its alive segment.\<close>

definition dead :: "pname set \<Rightarrow> plan \<Rightarrow> mutex \<Rightarrow> thread option" where
  "dead ps pl m = (case m of AliveShm p \<Rightarrow> if p \<in> ps then None else first_owner pl m | _ \<Rightarrow> None)"

lemma dead_simps [simp]:
  "p \<in> ps \<Longrightarrow> dead ps pl (AliveShm p) = None"
  "(\<And>p. m \<noteq> AliveShm p) \<Longrightarrow> dead ps pl m = None"
  by (auto simp: dead_def split: mutex.split)

definition programs_left :: "pname set \<Rightarrow> plan \<Rightarrow> thread \<Rightarrow> ops" where
  "programs_left ps pl t =
     (case t of ProxyProcess p \<Rightarrow> if p \<in> ps then [] else program pl t | _ \<Rightarrow> program pl t)"

lemma programs_left_other: "(\<And>p. t \<noteq> ProxyProcess p) \<Longrightarrow> programs_left ps pl t = program pl t"
  by (auto simp: programs_left_def split: thread.split)

lemma proxies_die:
  assumes "finite ps" "\<forall>p\<in>ps. \<not> pl_buried pl p"
  shows "lock_step\<^sup>*\<^sup>* (system pl) (state_of (dead ps pl) (programs_left ps pl) [] (\<lambda>_. []))"
  using assms
proof (induction ps rule: finite_induct)
  case empty
  have "owned (dead {} pl) [] = first_owner pl" "programs_left {} pl = program pl"
    by (auto simp: owned_def dead_def programs_left_def fun_eq_iff split: mutex.split thread.split)
  then show ?case by (simp add: system_def)
next
  case (insert p ps)
  let ?c = "\<lambda>ps. state_of (dead ps pl) (programs_left ps pl) [] (\<lambda>_. [])"
  have own: "owned (dead (insert p ps) pl) [] = (owned (dead ps pl) [])(AliveShm p := None)"
    by (auto simp: owned_def dead_def fun_eq_iff split: mutex.split)
  have code: "programs_left (insert p ps) pl = (programs_left ps pl)(ProxyProcess p := [])"
    by (auto simp: programs_left_def fun_eq_iff split: thread.split)
  have "thread_step (ProxyProcess p) 0 (?c ps) = Some (?c (insert p ps))"
    unfolding own code using insert by (simp add: thread_step_def owned_def dead_def programs_left_def)
  then have "lock_step (?c ps) (?c (insert p ps))" by (auto simp: lock_step_def)
  with insert show ?case by (meson insert_iff rtranclp.rtrancl_into_rtrancl)
qed

lemma hangs:
  assumes "finite ps" "\<forall>p\<in>ps. \<not> pl_buried pl p"
    and r: "do_moves (dead ps pl) moves (programs_left ps pl, [], \<lambda>_. []) = Some (f', l, w)"
    and s: "stuck S (state_of (dead ps pl) f' l w)"
  shows "\<exists>c. lock_step\<^sup>*\<^sup>* (system pl) c \<and> lk_code c = f' \<and>
    (\<forall>c' t. lock_step\<^sup>*\<^sup>* c c' \<and> t \<in> S \<longrightarrow> lk_code c' t \<noteq> [])"
proof -
  from proxies_die [OF assms(1,2)] do_moves_steps [OF r]
  have "lock_step\<^sup>*\<^sup>* (system pl) (state_of (dead ps pl) f' l w)" by (rule rtranclp_trans)
  with stuck_for_ever [OF s] show ?thesis
    by (intro exI [of _ "state_of (dead ps pl) f' l w"]) auto
qed

lemmas lock_program_defs = locked_def signalled_def terminator_awake_locks_def subscribe_stop_locks_def
  channel_stop_locks_def proxy_alive_locks_def proxy_terminator_locks_def proxy_subscribe_locks_def
  proxy_channel_locks_def exchange_locks_def shut_down_locks_def kill_all_locks_def

text \<open>The first of them, at the end of the server: the terminator, with its own mutex, waits for the kill
  mutex; \<open>proxy_thread_kill_all\<close>, with the kill mutex, joins the alive thread of \<open>q\<close>; that thread, whose proxy
  has died as well, waits for the terminator's mutex.\<close>

definition shut_down_moves :: "pname \<Rightarrow> pname \<Rightarrow> thread move list" where
  "shut_down_moves p q =
     [Quiet (SubscribeThread q) 1, Doze (SubscribeThread q), Quiet (ChannelThread q) 5,
      Doze (ChannelThread q), Quiet TerminatorThread 1, Doze TerminatorThread,
      Quiet (AliveThread p) 4, Rouse (AliveThread p), Quiet (AliveThread p) 1, Quiet TerminatorThread 3,
      Quiet MainThread 8, Rouse MainThread, Quiet MainThread 7, Rouse MainThread, Quiet MainThread 4,
      Quiet (SubscribeThread q) 2, Quiet (ChannelThread q) 2,
      Joined MainThread, Quiet MainThread 2, Joined MainThread, Quiet MainThread 2,
      Quiet (AliveThread q) 3]"

text \<open>C25: the end of the server can hang.  When two proxies die while gonggo shuts down (they do, as each of
  them looks at gonggo's alive mutex), the main thread, which kills the threads of one of them, and the
  terminator, which buries the other, can come to wait for each other for ever, so that neither ends.\<close>

theorem shut_down_can_hang:
  assumes "p \<noteq> q" "\<not> pl_buried pl p" "\<not> pl_buried pl q"
    "pl_kills pl = (q, True, True, True) # kills" "pl_rounds pl = ((p, flags) # queue) # rounds"
    "fst (pl_alive pl p) = 0" "fst (pl_alive pl q) = 0"
    "pl_answers pl q = [None]" "pl_channel pl q = ([[]], SawStop)"
  shows "\<exists>c. lock_step\<^sup>*\<^sup>* (system pl) c \<and>
    (\<forall>c' t. lock_step\<^sup>*\<^sup>* c c' \<and> t \<in> {MainThread, TerminatorThread, AliveThread q} \<longrightarrow> lk_code c' t \<noteq> [])"
proof -
  obtain fs fc fa where flags: "flags = (fs, fc, fa)" by (cases flags)
  have f: "programs_left {p, q} pl t = program pl t" if "\<And>p. t \<noteq> ProxyProcess p" for t
    using that by (rule programs_left_other)
  have "\<exists>f' l w. do_moves (dead {p, q} pl) (shut_down_moves p q)
        (programs_left {p, q} pl, [], \<lambda>_. []) = Some (f', l, w) \<and>
      stuck {MainThread, TerminatorThread, AliveThread q} (state_of (dead {p, q} pl) f' l w)"
    using assms(1)
    by (simp add: shut_down_moves_def f assms(2-) flags lock_program_defs numeral_eq_Suc stuck_def owned_def)
  then show ?thesis using hangs [of "{p, q}" pl] assms(2,3) by blast
qed

definition dying_plan :: plan where
  "dying_plan = sample_plan\<lparr>pl_buried := (\<lambda>_. False), pl_activations := []\<rparr>"

theorem shut_down_can_hang_witness:
  "\<exists>pl c. lock_step\<^sup>*\<^sup>* (system pl) c \<and> (\<forall>c'. lock_step\<^sup>*\<^sup>* c c' \<longrightarrow> lk_code c' MainThread \<noteq> [])"
proof -
  let ?pl = "dying_plan\<lparr>pl_kills := [(''q'', True, True, True)], pl_answers := (\<lambda>_. [None]),
    pl_channel := (\<lambda>_. ([[]], SawStop))\<rparr>"
  have "\<exists>c. lock_step\<^sup>*\<^sup>* (system ?pl) c \<and> (\<forall>c' t. lock_step\<^sup>*\<^sup>* c c' \<and>
      t \<in> {MainThread, TerminatorThread, AliveThread ''q''} \<longrightarrow> lk_code c' t \<noteq> [])"
    by (rule shut_down_can_hang [of "''p''" "''q''" ?pl "[]" "(True, True, True)" "[]" "[]"])
      (simp_all add: dying_plan_def sample_plan_def)
  then show ?thesis by blast
qed

text \<open>The second: a REST call waits, with the table lock, for the answer of a proxy that has died; the
  terminator, which would tell it, waits for the table lock.\<close>

definition unanswered_moves :: "pname \<Rightarrow> nat \<Rightarrow> nat \<Rightarrow> thread move list" where
  "unanswered_moves p i j =
     [Quiet (WebThread i) 5, Doze (WebThread i), Quiet TerminatorThread 1, Doze TerminatorThread,
      Quiet (AliveThread p) 4, Rouse (AliveThread p), Quiet (AliveThread p) 1,
      Quiet TerminatorThread 9, Quiet (WebThread j) 8]"

lemma no_signal_ops [simp]:
  "Signal cv \<notin> set (locked m)" "Signal cv \<in> set (signalled m cv') \<longleftrightarrow> cv = cv'"
  "Signal cv \<notin> set (timed_wait m)"
  by (auto simp: locked_def signalled_def timed_wait_def)

lemma no_signal_tables [simp]:
  "Signal cv \<notin> set (drop_all_locks k)" "Signal cv \<notin> set (alive_notification_locks n)"
  "Signal cv \<notin> set (idle_wait_locks p w)" "Signal cv \<notin> set (subscribe_exchange_locks a)"
proof -
  show tables: "Signal cv \<notin> set (drop_all_locks k)" for k
    by (simp add: drop_all_locks_def)
  show "Signal cv \<notin> set (alive_notification_locks n)" "Signal cv \<notin> set (idle_wait_locks p w)"
    by (auto simp: alive_notification_locks_def idle_wait_locks_def)
  have "Signal cv \<notin> set (subscribe_reply_locks r)" for r by (cases r) auto
  with tables show "Signal cv \<notin> set (subscribe_exchange_locks a)"
    by (auto simp: subscribe_exchange_locks_def subscribe_purge_locks_def split: prod.split option.split)
qed

text \<open>Only a stop of the channel signals its dispatcher.\<close>

lemma only_stop_signals:
  assumes "pl_kills pl = []" "pl_activations pl = []" "u \<noteq> TerminatorThread"
  shows "Signal (ChannelDispatcherWakeup p) \<notin> set (program pl u)"
proof -
  let ?s = "Signal (ChannelDispatcherWakeup p) :: (mutex, thread, cond) lock_op"
  have job: "?s \<notin> set (web_job_locks j)" for j
  proof (cases j)
    case (RestCall q c)
    then show ?thesis by (cases c) (auto simp: rest_handler_locks_def)
  qed (auto simp: route_locks_def drop_conn_locks_def split: prod.split option.split)
  have hand: "?s \<notin> set (hand_over_locks q r)" for q r by (cases r) auto
  have finish: "?s \<notin> set (channel_end_locks q e)" for q e
    using hand by (cases e) (auto simp: exchange_locks_def)
  show ?thesis
    using assms job hand finish
    by (cases u)
      (auto simp: shut_down_locks_def kill_all_locks_def threads_stop_locks_def proxy_activator_locks_def
        client_timeout_locks_def respond_drain_locks_def proxy_subscribe_locks_def proxy_channel_locks_def
        exchange_locks_def proxy_alive_locks_def terminator_awake_locks_def
        split: option.split_asm)
qed



text \<open>The third: a refused REST call has kept the mutex of the channel segment.\<close>

definition refused_moves :: "pname \<Rightarrow> nat \<Rightarrow> nat \<Rightarrow> thread move list" where
  "refused_moves p i j =
     [Quiet (WebThread i) 3, Quiet TerminatorThread 1, Doze TerminatorThread,
      Quiet (AliveThread p) 4, Rouse (AliveThread p), Quiet (AliveThread p) 1,
      Quiet TerminatorThread 10, Quiet (WebThread j) 8]"

text \<open>C28: after one REST call that was refused because its proxy died with the mutex of the channel, the
  burial of that proxy and every later message to any proxy wait for ever: the call has returned without
  giving the mutex, the terminator waits for it with the lock of the channel table.\<close>

theorem refused_call_blocks_server:
  assumes "i \<noteq> j" "\<not> pl_buried pl p" "fst (pl_alive pl p) = 0"
    "pl_rounds pl = ((p, True, True, True) # queue) # rounds"
    "pl_web pl i = [RestCall p (RestRefused False)]"
    "pl_web pl j = StoreRequest q found # jobs"
  shows "\<exists>c. lock_step\<^sup>*\<^sup>* (system pl) c \<and> lk_code c (WebThread i) = [] \<and>
    (\<forall>c' t. lock_step\<^sup>*\<^sup>* c c' \<and> t \<in> {TerminatorThread, WebThread j} \<longrightarrow> lk_code c' t \<noteq> [])"
proof -
  have f: "programs_left {p} pl t = program pl t" if "\<And>p. t \<noteq> ProxyProcess p" for t
    using that by (rule programs_left_other)
  have "\<exists>f' l w. do_moves (dead {p} pl) (refused_moves p i j)
        (programs_left {p} pl, [], \<lambda>_. []) = Some (f', l, w) \<and> f' (WebThread i) = [] \<and>
      stuck {TerminatorThread, WebThread j} (state_of (dead {p} pl) f' l w)"
    by (simp add: refused_moves_def f assms lock_program_defs route_locks_def rest_handler_locks_def
        idle_wait_locks_def numeral_eq_Suc stuck_def owned_def releases_def assms(1) [symmetric])
  then show ?thesis using hangs [of "{p}" pl] assms(2) by blast
qed

theorem refused_call_blocks_server_witness:
  "\<exists>pl c. lock_step\<^sup>*\<^sup>* (system pl) c \<and> (\<forall>c'. lock_step\<^sup>*\<^sup>* c c' \<longrightarrow> lk_code c' (WebThread 1) \<noteq> [])"
proof -
  let ?pl = "dying_plan\<lparr>pl_web := (\<lambda>n. if n = 0 then [RestCall ''p'' (RestRefused False)]
    else [StoreRequest ''q'' True])\<rparr>"
  have "\<exists>c. lock_step\<^sup>*\<^sup>* (system ?pl) c \<and> lk_code c (WebThread 0) = [] \<and>
      (\<forall>c' t. lock_step\<^sup>*\<^sup>* c c' \<and> t \<in> {TerminatorThread, WebThread 1} \<longrightarrow> lk_code c' t \<noteq> [])"
    by (rule refused_call_blocks_server [of 0 1 ?pl "''p''" "[]" "[]" "''q''" True "[]"])
      (simp_all add: dying_plan_def sample_plan_def)
  then show ?thesis by blast
qed

end
