(* ===== verification/Operation_Runs.thy ===== *)
theory Operation_Runs
  imports Gonggo_Prelude
begin

text \<open>
  A handler or thread as the list of the operations it still has to do.  \<open>exec\<close> does one operation on the
  local variables of the thread and the shared state and gives the operations to put in front of the rest;
  \<open>ok\<close> says whether the operation returns at all.  \<open>Table_Steps\<close> and \<open>Thread_Steps\<close> give the operations.
\<close>

section \<open>A thread that runs alone\<close>

text \<open>The operations done, and what remains.\<close>

inductive runs ::
    "('x \<Rightarrow> 'l \<Rightarrow> 's \<Rightarrow> bool) \<Rightarrow> ('x \<Rightarrow> 'l \<Rightarrow> 's \<Rightarrow> 'l \<times> 'x list \<times> 's) \<Rightarrow>
     'l \<times> 'x list \<times> 's \<Rightarrow> 'l \<times> 'x list \<times> 's \<Rightarrow> bool"
  for ok exec where
  stop: "runs ok exec s s"
| step: "exec x l st = (l', new, st') \<Longrightarrow> ok x l st \<Longrightarrow> runs ok exec (l', new @ k, st') s \<Longrightarrow>
    runs ok exec (l, x # k, st) s"

inductive_cases runsE: "runs ok exec (l, k, st) s"

abbreviation completes ::
    "('x \<Rightarrow> 'l \<Rightarrow> 's \<Rightarrow> bool) \<Rightarrow> ('x \<Rightarrow> 'l \<Rightarrow> 's \<Rightarrow> 'l \<times> 'x list \<times> 's) \<Rightarrow>
     'l \<Rightarrow> 'x list \<Rightarrow> 's \<Rightarrow> 'l \<Rightarrow> 's \<Rightarrow> bool" where
  "completes ok exec l k st l' st' \<equiv> runs ok exec (l, k, st) (l', [], st')"

lemma completes_Nil [simp]: "completes ok exec l [] st l' st' \<longleftrightarrow> l' = l \<and> st' = st"
  by (auto elim: runsE intro: runs.stop)

lemma completes_Cons:
  "completes ok exec l (x # k) st l' st' \<longleftrightarrow> ok x l st \<and>
     (case exec x l st of (l1, new, st1) \<Rightarrow> completes ok exec l1 (new @ k) st1 l' st')"
  by (cases "exec x l st") (auto elim: runsE intro: runs.step)

lemma completes_appendI:
  assumes "runs ok exec a b" "a = (l, xs, st)" "b = (l1, [], st1)" "completes ok exec l1 ys st1 l' st'"
  shows "completes ok exec l (xs @ ys) st l' st'"
  using assms
proof (induction arbitrary: l xs st rule: runs.induct)
  case (step x l0 st0 l2 new st2 k s)
  then show ?case by (auto simp: completes_Cons)
qed simp

lemma completes_appendD:
  assumes "runs ok exec a b" "a = (l, xs @ ys, st)" "b = (l', [], st')"
  shows "\<exists>l1 st1. completes ok exec l xs st l1 st1 \<and> completes ok exec l1 ys st1 l' st'"
  using assms
proof (induction arbitrary: l xs st rule: runs.induct)
  case (step x l0 st0 l2 new st2 k s)
  show ?case
  proof (cases xs)
    case Nil
    with step show ?thesis by (auto simp: completes_Cons)
  next
    case (Cons y xs')
    with step.prems step.hyps step.IH [of l2 "new @ xs'" st2] show ?thesis
      by (auto simp: completes_Cons)
  qed
qed (auto intro: runs.stop)

lemma completes_append:
  "completes ok exec l (xs @ ys) st l' st' \<longleftrightarrow>
     (\<exists>l1 st1. completes ok exec l xs st l1 st1 \<and> completes ok exec l1 ys st1 l' st')"
  by (blast intro: completes_appendI completes_appendD)

lemma completes_quiet:
  "fst (snd (exec x l st)) = [] \<Longrightarrow>
     completes ok exec l (x # k) st l' st' \<longleftrightarrow>
     ok x l st \<and> completes ok exec (fst (exec x l st)) k (snd (snd (exec x l st))) l' st'"
  by (simp add: completes_Cons split_beta)

lemma runs_trans: "runs ok exec a b \<Longrightarrow> runs ok exec b c \<Longrightarrow> runs ok exec a c"
  by (induction rule: runs.induct) (auto intro: runs.step)

end
