(* ===== verification/Table_Steps.thy ===== *)
theory Table_Steps
  imports Operation_Runs Table_Invariant
begin

text \<open>
  The handlers and threads that use the client tables, as sequences of the operations that hold one mutex:
  one \<open>table_op\<close> is one such operation, or one write to a connection, of the function that its list is named
  after, in the order of the code.  Between two operations of a thread those of others may come.  An operation
  whose result decides what follows puts the operations that follow in front of the rest.

  \<open>handler_local\<close> has the local variables: the connection that was looked up, the private tables of
  \<open>client_service_drop_conn\<close> and of \<open>client_proxy_alive_notification\<close>, and the number of ids generated.
\<close>

section \<open>Operations\<close>

datatype table_op =
    SetRequest uuid conn time_t
  | SetConnection conn uuid
  | SetService uuid string "json option"
  | SetProxyname pname uuid
  | GetConn uuid bool bool
  | RemoveRequest uuid
  | DropKnown uuid               \<comment> \<open>\<open>if(conn!=NULL)\<close> drop the id from its array\<close>
  | DropConnection uuid
  | RemoveService uuid
  | DropProxyname pname uuid
  | DropAll uuid                 \<comment> \<open>the keys of \<open>client_proxyname_table_drop_all\<close>\<close>
  | TryDrop uuid "pname list"    \<comment> \<open>its loop\<close>
  | InsertResponse uuid string
  | WriteReply string            \<comment> \<open>\<open>mg_websocket_write\<close> to the connection found, if any\<close>
  | ReadExpired
  | DupRequests conn
  | FindProxy uuid
  | TellProxies
  | TellProxy pname
  | NewId
  | HoldChannels bool
  | WakeChannel pname
  | RemoveConnection conn
  | ListUnsent pname
  | HandOver pname uuid
  | PostRequest pname uuid string
  | MarkSent pname uuid
  | MarkUnsent pname
  | ListPending pname bool
  | PeekConn uuid
  | Notify pname bool
  | WriteNotice conn string

record handler_local =
  hl_conn :: "conn option"
  hl_proxies :: proxyname_table
  hl_groups :: connection_table
  hl_ids :: nat

definition no_local :: handler_local where
  "no_local = \<lparr>hl_conn = None, hl_proxies = [], hl_groups = [], hl_ids = 0\<rparr>"

text \<open>The first part of \<open>client_service_route\<close>'s storing, and what wakes the channel thread.\<close>

definition route_ops :: "conn \<Rightarrow> uuid \<Rightarrow> pname \<Rightarrow> string \<Rightarrow> json option \<Rightarrow> time_t \<Rightarrow> table_op list" where
  "route_ops conn rid proxy_name service_name payload timeout =
     [SetRequest rid conn timeout, SetConnection conn rid, SetService rid service_name payload,
      SetProxyname proxy_name rid, HoldChannels True, WakeChannel proxy_name, HoldChannels False]"

definition reply_ops :: "world \<Rightarrow> pname \<Rightarrow> uuid \<Rightarrow> json \<Rightarrow> json option \<Rightarrow> bool \<Rightarrow> table_op list" where
  "reply_ops w proxy_name rid headers payload remove_request =
     (let s = cJSON_PrintUnformatted (w_json w) (service_reply_tree (w_json w) rid headers payload) in
      GetConn rid True remove_request #
      (if remove_request then [DropKnown rid, DropProxyname proxy_name rid, RemoveService rid] else []) @
      (if 0 < length rid then [InsertResponse rid s] else []) @ [WriteReply s])"

definition purge_ops :: "uuid \<Rightarrow> table_op list" where
  "purge_ops rid = [GetConn rid False True, DropKnown rid, DropAll rid, RemoveService rid]"

definition expire_ops :: "world \<Rightarrow> uuid \<Rightarrow> table_op list" where
  "expire_ops w rid =
     (let s = cJSON_PrintUnformatted (w_json w) (expired_reply_tree rid) in
      GetConn rid False False # (if 0 < length rid then [InsertResponse rid s] else []) @
      [WriteReply s, RemoveRequest rid, DropConnection rid, RemoveService rid, DropAll rid])"

definition forget_ops :: "uuid \<Rightarrow> table_op list" where
  "forget_ops rid = [FindProxy rid, RemoveRequest rid, RemoveService rid, DropAll rid]"

definition close_ops :: "conn \<Rightarrow> uuid list \<Rightarrow> table_op list" where
  "close_ops conn arr =
     concat (map forget_ops arr) @
     [HoldChannels True, TellProxies, HoldChannels False, RemoveConnection conn]"

definition drop_payload :: "uuid \<Rightarrow> json option" where
  "drop_payload r = Some (JObject [(''rid'', JString r)])"

fun tell_ops :: "world \<Rightarrow> pname \<Rightarrow> uuid list \<Rightarrow> nat \<Rightarrow> table_op list" where
  "tell_ops w p [] n = [WakeChannel p]"
| "tell_ops w p (r # rs) n =
     NewId # SetService (w_uuid w n) GONGGOSERVICE_REQUEST_DROP (drop_payload r) #
     SetProxyname p (w_uuid w n) # tell_ops w p rs (Suc n)"

section \<open>Doing one operation\<close>

definition on_requests :: "(request_table \<Rightarrow> request_table) \<Rightarrow> gonggo \<Rightarrow> gonggo" where
  "on_requests f st = st\<lparr>g_requests := f (g_requests st)\<rparr>"

definition on_connections :: "(connection_table \<Rightarrow> connection_table) \<Rightarrow> gonggo \<Rightarrow> gonggo" where
  "on_connections f st = st\<lparr>g_connections := f (g_connections st)\<rparr>"

definition on_services :: "(service_table \<Rightarrow> service_table) \<Rightarrow> gonggo \<Rightarrow> gonggo" where
  "on_services f st = st\<lparr>g_services := f (g_services st)\<rparr>"

definition on_proxynames :: "(proxyname_table \<Rightarrow> proxyname_table) \<Rightarrow> gonggo \<Rightarrow> gonggo" where
  "on_proxynames f st = st\<lparr>g_proxynames := f (g_proxynames st)\<rparr>"

fun do_op ::
    "world \<Rightarrow> table_op \<Rightarrow> handler_local \<Rightarrow> gonggo \<Rightarrow> handler_local \<times> table_op list \<times> gonggo" where
  "do_op w (SetRequest r c tmo) l st = (l, [], on_requests (client_request_table_set (w_now w) r c tmo) st)"
| "do_op w (SetConnection c r) l st = (l, [], on_connections (client_connection_table_set c r) st)"
| "do_op w (SetService r s p) l st = (l, [], on_services (client_service_table_set (w_json w) r s p) st)"
| "do_op w (SetProxyname p r) l st = (l, [], on_proxynames (client_proxyname_table_set p r) st)"
| "do_op w (GetConn r u d) l st =
     (l\<lparr>hl_conn := fst (client_request_table_get_conn (w_now w) r u d (g_requests st))\<rparr>, [],
      on_requests (\<lambda>t. snd (client_request_table_get_conn (w_now w) r u d t)) st)"
| "do_op w (RemoveRequest r) l st = (l, [], on_requests (client_request_table_remove r) st)"
| "do_op w (DropKnown r) l st = (l, if hl_conn l = None then [] else [DropConnection r], st)"
| "do_op w (DropConnection r) l st = (l, [], on_connections (connection_drop_ptr (hl_conn l) r) st)"
| "do_op w (RemoveService r) l st = (l, [], on_services (client_service_table_remove r) st)"
| "do_op w (DropProxyname p r) l st =
     (l, [], on_proxynames (\<lambda>t. snd (client_proxyname_table_drop p r t)) st)"
| "do_op w (DropAll r) l st = (l, [TryDrop r (w_names w (ht_keys (g_proxynames st)))], st)"
| "do_op w (TryDrop r []) l st = (l, [], st)"
| "do_op w (TryDrop r (p # ps)) l st =
     (l, if fst (client_proxyname_table_drop p r (g_proxynames st)) then [] else [TryDrop r ps],
      on_proxynames (\<lambda>t. snd (client_proxyname_table_drop p r t)) st)"
| "do_op w (InsertResponse r s) l st = (l, [], g_db_insert w r s st)"
| "do_op w (WriteReply s) l st =
     (l, [], case hl_conn l of None \<Rightarrow> st | Some c \<Rightarrow> mg_websocket_write c s st)"
| "do_op w ReadExpired l st =
     (l, concat (map (expire_ops w) (client_request_table_expired (w_names w) (w_now w) (g_requests st))),
      st)"
| "do_op w (DupRequests c) l st =
     (l\<lparr>hl_proxies := [], hl_ids := 0\<rparr>,
      case client_connection_table_request_dup c (g_connections st) of
        None \<Rightarrow> [] | Some arr \<Rightarrow> close_ops c arr, st)"
| "do_op w (FindProxy r) l st =
     (case client_proxyname_table_proxy_name_dup (w_names w) r (g_proxynames st) of
        None \<Rightarrow> (l, [], st)
      | Some p \<Rightarrow> (l\<lparr>hl_proxies := client_proxyname_table_set p r (hl_proxies l)\<rparr>, [], st))"
| "do_op w TellProxies l st = (l, map TellProxy (w_names w (ht_keys (hl_proxies l))), st)"
| "do_op w (TellProxy p) l st =
     (case (proxy_channel_thread_table_get p (g_channels st), ht_lookup (hl_proxies l) p) of
        (Some _, Some value) \<Rightarrow>
          (l\<lparr>hl_ids := hl_ids l + length (request_uuids value)\<rparr>,
           tell_ops w p (request_uuids value) (hl_ids l), st)
      | _ \<Rightarrow> (l, [], st))"
| "do_op w NewId l st = (l, [], st)"
| "do_op w (HoldChannels b) l st = (l, [], st)"
| "do_op w (WakeChannel p) l st =
     (l, [], case proxy_channel_thread_table_get p (g_channels st) of
               None \<Rightarrow> st | Some _ \<Rightarrow> channel_wakeup p st)"
| "do_op w (RemoveConnection c) l st = (l, [], on_connections (client_connection_table_remove c) st)"
| "do_op w (ListUnsent p) l st =
     (l, case client_proxyname_table_request_dup p True (g_proxynames st) of
           None \<Rightarrow> [] | Some arr \<Rightarrow> map (HandOver p) arr, st)"
| "do_op w (HandOver p r) l st =
     (l, case client_service_table_dup r (g_services st) of
           None \<Rightarrow> [] | Some s \<Rightarrow> [PostRequest p r s, MarkSent p r], st)"
| "do_op w (PostRequest p r s) l st = (l, [], st\<lparr>g_handed := g_handed st @ [(p, r, s)]\<rparr>)"
| "do_op w (MarkSent p r) l st = (l, [], on_proxynames (client_proxyname_table_request_sent p r) st)"
| "do_op w (MarkUnsent p) l st = (l, [], on_proxynames (client_proxyname_table_request_unsent p) st)"
| "do_op w (ListPending p started) l st =
     (l\<lparr>hl_groups := []\<rparr>,
      (case client_proxyname_table_request_dup p False (g_proxynames st) of
         None \<Rightarrow> [] | Some arr \<Rightarrow> map PeekConn arr) @ [Notify p started], st)"
| "do_op w (PeekConn r) l st =
     (case fst (client_request_table_get_conn (w_now w) r False False (g_requests st)) of
        None \<Rightarrow> (l, [], st)
      | Some c \<Rightarrow> (l\<lparr>hl_groups := client_connection_table_set c r (hl_groups l)\<rparr>, [], st))"
| "do_op w (Notify p started) l st =
     (l, concat (map (\<lambda>c. case ht_lookup (hl_groups l) c of
           None \<Rightarrow> []
         | Some arr \<Rightarrow> [WriteNotice c (cJSON_PrintUnformatted (w_json w)
                                           (alive_notification_tree p arr started))])
         (w_conns w (ht_keys (hl_groups l)))), st)"
| "do_op w (WriteNotice c s) l st = (l, [], mg_websocket_write c s st)"

section \<open>A thread that runs alone\<close>

text \<open>Every operation on the tables returns.\<close>

abbreviation alone ::
    "world \<Rightarrow> handler_local \<times> table_op list \<times> gonggo \<Rightarrow> handler_local \<times> table_op list \<times> gonggo \<Rightarrow> bool" where
  "alone w \<equiv> runs (\<lambda>_ _ _. True) (do_op w)"

abbreviation finishes ::
    "world \<Rightarrow> handler_local \<Rightarrow> table_op list \<Rightarrow> gonggo \<Rightarrow> handler_local \<Rightarrow> gonggo \<Rightarrow> bool" where
  "finishes w l k st l' st' \<equiv> alone w (l, k, st) (l', [], st')"

lemmas alone_step = runs.step [where ok = "\<lambda>_ _ _. True" and exec = "do_op w", OF _ TrueI] for w
lemmas alone_stop = runs.stop [where ok = "\<lambda>_ _ _. True" and exec = "do_op w"] for w
lemmas finishes_Cons = completes_Cons [where ok = "\<lambda>_ _ _. True" and exec = "do_op w", unfolded simp_thms] for w
lemmas finishes_append = completes_append [where ok = "\<lambda>_ _ _. True" and exec = "do_op w"] for w
lemmas run_quiet = completes_quiet [where ok = "\<lambda>_ _ _. True" and exec = "do_op w", unfolded simp_thms] for w

section \<open>The handlers are their operations\<close>

lemmas on_tables = on_requests_def on_connections_def on_services_def on_proxynames_def

lemma route_alone:
  "finishes w l (route_ops c r p svc pl tmo) st l' st' \<longleftrightarrow>
     l' = l \<and> st' = route_save w c r p svc pl tmo st"
  by (auto simp: route_ops_def finishes_Cons route_save_def on_tables Let_def split: option.splits)

lemma try_drop_alone:
  "finishes w l [TryDrop r ps] st l' st' \<longleftrightarrow>
     l' = l \<and> st' = st\<lparr>g_proxynames := drop_all_loop ps r (g_proxynames st)\<rparr>"
proof (induction ps arbitrary: st)
  case (Cons p ps)
  then show ?case
    by (auto simp: finishes_Cons on_tables split_beta Let_def)
qed (simp add: finishes_Cons)

lemma drop_all_alone:
  "finishes w l (DropAll r # k) st l' st' \<longleftrightarrow>
     finishes w l k (on_proxynames (client_proxyname_table_drop_all (w_names w) r) st) l' st'"
  using finishes_append [of w l "[TryDrop r (w_names w (ht_keys (g_proxynames st)))]" k st l' st']
  by (auto simp: finishes_Cons [of _ _ "DropAll r"] try_drop_alone on_tables
      client_proxyname_table_drop_all_def)

lemma on_known:
  "connection_drop_ptr None r t = t"
  by (simp add: connection_drop_ptr_def)

lemma drop_known_alone:
  "finishes w l (DropKnown r # k) st l' st' \<longleftrightarrow>
     finishes w l k (on_connections (connection_drop_ptr (hl_conn l) r) st) l' st'"
  by (auto simp: finishes_Cons on_tables on_known)

lemma do_find_proxy:
  "do_op w (FindProxy r) l st =
     (l\<lparr>hl_proxies := case client_proxyname_table_proxy_name_dup (w_names w) r (g_proxynames st) of
          None \<Rightarrow> hl_proxies l | Some p \<Rightarrow> client_proxyname_table_set p r (hl_proxies l)\<rparr>, [], st)"
  by (simp split: option.split)

declare do_op.simps(18) [simp del] do_find_proxy [simp]

lemmas run_op = run_quiet drop_all_alone drop_known_alone

lemma reply_alone:
  "(\<exists>l'. finishes w l (reply_ops w p r h pl rm) st l' st') \<longleftrightarrow>
     st' = proxy_subscribe_reply w p r h pl rm st"
  by (cases rm; cases "ht_lookup (g_requests st) r")
    (auto simp: reply_ops_def run_op proxy_subscribe_reply_def client_service_reply_def on_tables
      split_beta Let_def)

lemma purge_alone:
  "(\<exists>l'. finishes w l (purge_ops r) st l' st') \<longleftrightarrow> st' = proxy_subscribe_purge_rid w r st"
  by (auto simp: purge_ops_def run_op proxy_subscribe_purge_rid_def on_tables split_beta Let_def)

lemma expire_alone:
  "(\<exists>l'. finishes w l (expire_ops w r) st l' st') \<longleftrightarrow> st' = expire_request w r st"
  by (cases "ht_lookup (g_requests st) r")
    (auto simp: expire_ops_def run_op expire_request_def client_service_expired_reply_def on_tables
      split_beta Let_def)

lemma fold_alone:
  assumes "\<And>r l st l' st'. finishes w l (f r) st l' st' \<Longrightarrow> st' = g r st"
    and "\<And>r l st. \<exists>l'. finishes w l (f r) st l' (g r st)"
  shows "(\<exists>l'. finishes w l (concat (map f rs)) st l' st') \<longleftrightarrow> st' = fold g rs st"
proof (induction rs arbitrary: l st)
  case (Cons r rs)
  show ?case
  proof
    assume "\<exists>l'. finishes w l (concat (map f (r # rs))) st l' st'"
    then obtain l1 st1 l' where one: "finishes w l (f r) st l1 st1"
      and rest: "finishes w l1 (concat (map f rs)) st1 l' st'"
      by (auto simp: finishes_append)
    from rest Cons.IH [of l1 st1] assms(1) [OF one] show "st' = fold g (r # rs) st" by auto
  next
    assume "st' = fold g (r # rs) st"
    moreover obtain l1 where "finishes w l (f r) st l1 (g r st)" using assms(2) by blast
    ultimately show "\<exists>l'. finishes w l (concat (map f (r # rs))) st l' st'"
      using Cons.IH [of l1 "g r st"] by (auto simp: finishes_append)
  qed
qed simp

lemma sweep_alone:
  "(\<exists>l'. finishes w l [ReadExpired] st l' st') \<longleftrightarrow> st' = client_timeout_sweep w st"
proof -
  let ?rs = "client_request_table_expired (w_names w) (w_now w) (g_requests st)"
  have "(\<exists>l'. finishes w l (concat (map (expire_ops w) ?rs)) st l' st') \<longleftrightarrow> st' = fold (expire_request w) ?rs st"
    using expire_alone by (intro fold_alone) blast+
  then show ?thesis by (simp add: finishes_Cons client_timeout_sweep_def)
qed

text \<open>The first loop of the closing, with its private table.\<close>

lemma forget_alone:
  "finishes w l (concat (map forget_ops arr)) st l' st' \<longleftrightarrow>
     (l' = l\<lparr>hl_proxies := fst (drop_conn_forget w arr (hl_proxies l) st)\<rparr> \<and>
      st' = snd (drop_conn_forget w arr (hl_proxies l) st))"
proof (induction arr arbitrary: l st)
  case (Cons r rs)
  then show ?case
    by (auto simp: forget_ops_def run_op on_tables Let_def split: option.splits)
qed auto

lemma tell_alone:
  assumes "proxy_channel_thread_table_get p (g_channels st) \<noteq> None"
  shows "finishes w l (tell_ops w p rs n) st l' st' \<longleftrightarrow>
    l' = l \<and> st' = channel_wakeup p (snd (drop_conn_queue w p rs n st))"
  using assms
proof (induction rs arbitrary: n st)
  case Nil
  then show ?case by (auto simp: finishes_Cons)
next
  case (Cons r rs)
  then show ?case by (auto simp: finishes_Cons on_tables drop_payload_def Let_def)
qed

lemma drop_conn_queue_count: "fst (drop_conn_queue w p rs n st) = n + length rs"
  by (induction rs arbitrary: n st) (auto simp: Let_def)

lemma tell_all_alone:
  "finishes w l (map TellProxy ps) st l' st' \<Longrightarrow> st' = drop_conn_notify w (hl_proxies l) ps (hl_ids l) st"
  "\<exists>l'. finishes w l (map TellProxy ps) st l' (drop_conn_notify w (hl_proxies l) ps (hl_ids l) st)"
proof (induction ps arbitrary: l st)
  case (Cons p ps)
  {
    case 1
    then show ?case
      by (auto simp: finishes_Cons finishes_append tell_alone drop_conn_queue_count split_beta Let_def
          split: option.splits dest!: Cons.IH(1))
  next
    case 2
    show ?case
    proof (cases "proxy_channel_thread_table_get p (g_channels st) = None \<or> ht_lookup (hl_proxies l) p = None")
      case True
      with Cons.IH(2) [of l st] show ?thesis by (auto simp: finishes_Cons split: option.splits)
    next
      case False
      then obtain e v where "proxy_channel_thread_table_get p (g_channels st) = Some e"
        "ht_lookup (hl_proxies l) p = Some v" by auto
      with Cons.IH(2) [of "l\<lparr>hl_ids := hl_ids l + length (request_uuids v)\<rparr>"
          "channel_wakeup p (snd (drop_conn_queue w p (request_uuids v) (hl_ids l) st))"]
      show ?thesis
        by (simp add: finishes_Cons finishes_append tell_alone drop_conn_queue_count split_beta Let_def)
    qed
  }
qed simp_all

lemma close_alone:
  "(\<exists>l'. finishes w l [DupRequests c] st l' st') \<longleftrightarrow> st' = client_service_drop_conn w c st"
proof (cases "client_connection_table_request_dup c (g_connections st)")
  case (Some arr)
  obtain tab st1 where f: "drop_conn_forget w arr [] st = (tab, st1)" by fastforce
  let ?l = "l\<lparr>hl_ids := 0, hl_proxies := tab\<rparr>"
  have hl: "hl_proxies ?l = tab" "hl_ids ?l = 0" by simp_all
  note t = tell_all_alone [of w ?l "w_names w (ht_keys tab)" st1]
  show ?thesis
  proof -
    have "finishes w l [DupRequests c] st l' st' \<longleftrightarrow>
        finishes w ?l (TellProxies # [HoldChannels False, RemoveConnection c]) st1 l' st'" for l'
      using Some f by (simp add: finishes_Cons [of _ _ "DupRequests c"] close_ops_def finishes_append
          forget_alone run_quiet)
    also have "\<dots> l' \<longleftrightarrow> (\<exists>st2. finishes w ?l (map TellProxy (w_names w (ht_keys tab))) st1 l' st2 \<and>
        st' = on_connections (client_connection_table_remove c) st2)" for l'
      by (auto simp: finishes_Cons [of _ _ TellProxies] finishes_append run_quiet)
    finally have "finishes w l [DupRequests c] st l' st' \<longleftrightarrow>
        (\<exists>st2. finishes w ?l (map TellProxy (w_names w (ht_keys tab))) st1 l' st2 \<and>
          st' = on_connections (client_connection_table_remove c) st2)" for l' .
    moreover have "client_service_drop_conn w c st = on_connections (client_connection_table_remove c)
        (drop_conn_notify w tab (w_names w (ht_keys tab)) 0 st1)"
      using Some f by (simp add: client_service_drop_conn_def on_tables Let_def)
    ultimately show ?thesis using t [unfolded hl] by metis
  qed
qed (auto simp: finishes_Cons client_service_drop_conn_def)

lemma peek_alone:
  "finishes w l (map PeekConn rs) st l' st' \<longleftrightarrow>
     l' = l\<lparr>hl_groups := notification_groups (w_now w) (g_requests st) rs (hl_groups l)\<rparr> \<and> st' = st"
proof (induction rs arbitrary: l)
  case (Cons r rs)
  then show ?case by (auto simp: finishes_Cons split: option.splits)
qed auto

lemma notices_alone:
  "finishes w l (concat (map (\<lambda>c. case ht_lookup t c of
        None \<Rightarrow> []
      | Some arr \<Rightarrow> [WriteNotice c (cJSON_PrintUnformatted (w_json w) (alive_notification_tree p arr b))]) cs))
     st l' st' \<longleftrightarrow> l' = l \<and> st' = notification_loop w p b t cs st"
proof (induction cs arbitrary: st)
  case (Cons c cs)
  then show ?case
    by (auto simp: finishes_Cons client_proxy_alive_notification_do_def split: option.splits)
qed auto

lemma no_notices: "concat (map (\<lambda>c. []) cs) = []" "notification_loop w p b [] cs st = st"
  by (induction cs arbitrary: st) simp_all

lemma notification_alone:
  "(\<exists>l'. finishes w l [ListPending p b] st l' st') \<longleftrightarrow> st' = client_proxy_alive_notification w p b st"
  by (cases "client_proxyname_table_request_dup p False (g_proxynames st)")
    (auto simp: finishes_Cons [of _ _ "ListPending p b"] finishes_Cons [of _ _ "Notify p b"] finishes_append
      peek_alone notices_alone no_notices client_proxy_alive_notification_def Let_def)

text \<open>C3: each handler and thread that uses the client tables is its sequence of operations: run without
  others in between, the operations of an accepted message, of a reply, of a cancelled request, of a sweep, of
  a closed connection and of a notice end, and in exactly the state that the definition of the handler as one
  step gives.\<close>

theorem handlers_are_their_operations:
  "((\<exists>l'. finishes w l (route_ops c r p svc pl tmo) st l' st') \<longleftrightarrow> st' = route_save w c r p svc pl tmo st) \<and>
   ((\<exists>l'. finishes w l (reply_ops w p r h pl rm) st l' st') \<longleftrightarrow> st' = proxy_subscribe_reply w p r h pl rm st) \<and>
   ((\<exists>l'. finishes w l (purge_ops r) st l' st') \<longleftrightarrow> st' = proxy_subscribe_purge_rid w r st) \<and>
   ((\<exists>l'. finishes w l [ReadExpired] st l' st') \<longleftrightarrow> st' = client_timeout_sweep w st) \<and>
   ((\<exists>l'. finishes w l [DupRequests c] st l' st') \<longleftrightarrow> st' = client_service_drop_conn w c st) \<and>
   ((\<exists>l'. finishes w l [ListPending p b] st l' st') \<longleftrightarrow> st' = client_proxy_alive_notification w p b st)"
  by (intro conjI reply_alone purge_alone sweep_alone close_alone notification_alone) (simp add: route_alone)

end
