(* ===== verification/Table_Races.thy ===== *)
theory Table_Races
  imports Table_Steps
begin

text \<open>
  The users of the client tables as threads that run at the same time, the operations of \<open>Table_Steps\<close>
  interleaved in any way.
\<close>

section \<open>Threads\<close>

text \<open>\<open>cn_used\<close> has every id that a client has sent or gonggo has generated, \<open>cn_closed\<close> the connections whose
  close handler has been called.\<close>

record concurrent =
  cn_state :: gonggo
  cn_local :: "nat \<Rightarrow> handler_local"
  cn_ops :: "nat \<Rightarrow> table_op list"
  cn_used :: "uuid set"
  cn_closed :: "conn set"

definition begins :: "nat \<Rightarrow> table_op list \<Rightarrow> concurrent \<Rightarrow> concurrent" where
  "begins t ops s = s\<lparr>cn_ops := (cn_ops s)(t := ops)\<rparr>"

definition was_handed :: "gonggo \<Rightarrow> uuid \<Rightarrow> bool" where
  "was_handed st r \<longleftrightarrow> (\<exists>p s. (p, r, s) \<in> set (g_handed st))"

definition generated :: "table_op list \<Rightarrow> uuid set" where
  "generated ops = {r. \<exists>s p. SetService r s p \<in> set ops}"

definition same_client_tables :: "gonggo \<Rightarrow> gonggo \<Rightarrow> bool" where
  "same_client_tables s t \<longleftrightarrow> g_requests s = g_requests t \<and> g_connections s = g_connections t \<and>
     g_services s = g_services t \<and> g_proxynames s = g_proxynames t \<and> g_handed s = g_handed t"

text \<open>
  A thread without operations left begins the next handler.  What the handlers rely on: a client sends each id
  once; the web server calls no other handler of a connection while or after it calls the close handler; a
  proxy answers ids it was handed; generated ids are new and \<open>uuid_unparse_lower\<close> writes 36 characters.  A message
  is stored only if its id has fewer than \<open>UUIDBUFLEN\<close> characters (\<open>client_service_route\<close>).  A request is
  handed over only if its segment can be created, and marked as sent only if the proxy acknowledges it.  Whatever else happens in gonggo leaves the
  client tables alone.
\<close>

inductive conc_step :: "concurrent \<Rightarrow> concurrent \<Rightarrow> bool" where
  message: "cn_ops s t = [] \<Longrightarrow> r \<notin> cn_used s \<Longrightarrow> length r < UUIDBUFLEN \<Longrightarrow> c \<notin> cn_closed s \<Longrightarrow>
    conc_step s ((begins t (route_ops c r p svc pl tmo) s)\<lparr>cn_used := insert r (cn_used s)\<rparr>)"
| close: "cn_ops s t = [] \<Longrightarrow> c \<notin> cn_closed s \<Longrightarrow> \<forall>u r. SetConnection c r \<notin> set (cn_ops s u) \<Longrightarrow>
    conc_step s ((begins t [DupRequests c] s)\<lparr>cn_closed := insert c (cn_closed s)\<rparr>)"
| reply: "cn_ops s t = [] \<Longrightarrow> was_handed (cn_state s) r \<Longrightarrow>
    conc_step s (begins t (reply_ops w p r h pl rm) s)"
| purge: "cn_ops s t = [] \<Longrightarrow> was_handed (cn_state s) r \<Longrightarrow> conc_step s (begins t (purge_ops r) s)"
| sweep: "cn_ops s t = [] \<Longrightarrow> conc_step s (begins t [ReadExpired] s)"
| exchange: "cn_ops s t = [] \<Longrightarrow> conc_step s (begins t [ListUnsent p] s)"
| burial: "cn_ops s t = [] \<Longrightarrow> conc_step s (begins t [MarkUnsent p] s)"
| notice: "cn_ops s t = [] \<Longrightarrow> conc_step s (begins t [ListPending p b] s)"
| operation: "cn_ops s t = x # k \<Longrightarrow> world_ok w \<Longrightarrow>
    do_op w x (cn_local s t) (cn_state s) = (l', new, st') \<Longrightarrow>
    generated new \<inter> cn_used s = {} \<Longrightarrow> \<forall>r \<in> generated new. length r < UUIDBUFLEN \<Longrightarrow>
    conc_step s (s\<lparr>cn_state := st', cn_local := (cn_local s)(t := l'),
                   cn_ops := (cn_ops s)(t := new @ k), cn_used := cn_used s \<union> generated new\<rparr>)"
| not_posted: "cn_ops s t = PostRequest p r x # MarkSent p r # k \<Longrightarrow> conc_step s (begins t k s)"
| not_acknowledged: "cn_ops s t = MarkSent p r # k \<Longrightarrow> conc_step s (begins t k s)"
| elsewhere: "same_client_tables st' (cn_state s) \<Longrightarrow> conc_step s (s\<lparr>cn_state := st'\<rparr>)"

definition conc_init :: "concurrent \<Rightarrow> bool" where
  "conc_init s \<longleftrightarrow> (\<forall>t. cn_ops s t = []) \<and> g_requests (cn_state s) = [] \<and> g_connections (cn_state s) = [] \<and>
     g_services (cn_state s) = [] \<and> g_proxynames (cn_state s) = [] \<and> g_handed (cn_state s) = [] \<and> cn_used s = {}"

section \<open>What one operation does\<close>

definition tables_ok :: "gonggo \<Rightarrow> bool" where
  "tables_ok st \<longleftrightarrow> ht_ok (g_requests st) \<and> connection_ok (g_connections st) \<and> ht_ok (g_services st) \<and>
     proxyname_ok (g_proxynames st)"

fun op_ids :: "table_op \<Rightarrow> uuid set" where
  "op_ids (SetRequest r c tmo) = {r}"
| "op_ids (SetConnection c r) = {r}"
| "op_ids (SetService r s p) = {r}"
| "op_ids (SetProxyname p r) = {r}"
| "op_ids (GetConn r u d) = {r}"
| "op_ids (RemoveRequest r) = {r}"
| "op_ids (DropKnown r) = {r}"
| "op_ids (DropConnection r) = {r}"
| "op_ids (RemoveService r) = {r}"
| "op_ids (DropProxyname p r) = {r}"
| "op_ids (DropAll r) = {r}"
| "op_ids (TryDrop r ps) = {r}"
| "op_ids (FindProxy r) = {r}"
| "op_ids (HandOver p r) = {r}"
| "op_ids (PostRequest p r s) = {r}"
| "op_ids (MarkSent p r) = {r}"
| "op_ids _ = {}"

definition ids_of :: "table_op list \<Rightarrow> uuid set" where
  "ids_of ops = (\<Union>x \<in> set ops. op_ids x)"

lemma ids_of_simps [simp]:
  "ids_of [] = {}" "ids_of (x # k) = op_ids x \<union> ids_of k" "ids_of (j @ k) = ids_of j \<union> ids_of k"
  by (auto simp: ids_of_def)

text \<open>The ids that the tables and the proxies know.\<close>

definition known :: "gonggo \<Rightarrow> uuid set" where
  "known st = {r. ht_lookup (g_requests st) r \<noteq> None} \<union> {r. \<exists>c. r \<in> set (conn_rids (g_connections st) c)} \<union>
     {r. \<exists>p. r \<in> pn_rids (g_proxynames st) p} \<union> {r. was_handed st r}"

lemmas on_tables_fields [simp] = on_requests_def on_connections_def on_services_def on_proxynames_def

text \<open>The effect on each table.\<close>

fun on_conns :: "table_op \<Rightarrow> handler_local \<Rightarrow> connection_table \<Rightarrow> connection_table" where
  "on_conns (SetConnection c r) l t = client_connection_table_set c r t"
| "on_conns (DropConnection r) l t = connection_drop_ptr (hl_conn l) r t"
| "on_conns (RemoveConnection c) l t = client_connection_table_remove c t"
| "on_conns _ l t = t"

fun on_svcs :: "world \<Rightarrow> table_op \<Rightarrow> service_table \<Rightarrow> service_table" where
  "on_svcs w (SetService r s p) t = client_service_table_set (w_json w) r s p t"
| "on_svcs w (RemoveService r) t = client_service_table_remove r t"
| "on_svcs w _ t = t"

fun on_pns :: "table_op \<Rightarrow> proxyname_table \<Rightarrow> proxyname_table" where
  "on_pns (SetProxyname p r) t = client_proxyname_table_set p r t"
| "on_pns (DropProxyname p r) t = snd (client_proxyname_table_drop p r t)"
| "on_pns (TryDrop r (p # ps)) t = snd (client_proxyname_table_drop p r t)"
| "on_pns (MarkSent p r) t = client_proxyname_table_request_sent p r t"
| "on_pns (MarkUnsent p) t = client_proxyname_table_request_unsent p t"
| "on_pns _ t = t"

fun on_reqs :: "world \<Rightarrow> table_op \<Rightarrow> request_table \<Rightarrow> request_table" where
  "on_reqs w (SetRequest r c tmo) t = client_request_table_set (w_now w) r c tmo t"
| "on_reqs w (GetConn r u d) t = snd (client_request_table_get_conn (w_now w) r u d t)"
| "on_reqs w (RemoveRequest r) t = client_request_table_remove r t"
| "on_reqs w _ t = t"

lemma do_op_tables:
  assumes "do_op w x l st = (l', new, st')"
  shows "g_requests st' = on_reqs w x (g_requests st)"
    "g_connections st' = on_conns x l (g_connections st)"
    "g_services st' = on_svcs w x (g_services st)"
    "g_proxynames st' = on_pns x (g_proxynames st)"
    "g_handed st' = g_handed st @ (case x of PostRequest p r s \<Rightarrow> [(p, r, s)] | _ \<Rightarrow> [])"
  using assms
  by (cases "(w, x, l, st)" rule: do_op.cases; auto split: option.splits)+

lemma tables_ok_op:
  assumes "do_op w x l st = (l', new, st')" "tables_ok st"
  shows "tables_ok st'"
  using assms(2) unfolding tables_ok_def do_op_tables [OF assms(1)]
  by (cases x; cases "(x, g_proxynames st)" rule: on_pns.cases) auto

lemma requests_after:
  assumes "ht_lookup (on_reqs w x t) r = Some ctx'"
  shows "(\<exists>ctx. ht_lookup t r = Some ctx \<and> rq_conn ctx = rq_conn ctx' \<and>
       x \<noteq> RemoveRequest r \<and> (\<forall>u. x \<noteq> GetConn r u True)) \<or>
    (\<exists>tmo. x = SetRequest r (rq_conn ctx') tmo)"
  using assms
  by (cases x) (auto simp: client_request_table_get_conn_def split: option.splits if_splits)

lemma connections_after:
  "r \<in> set (conn_rids t c) \<Longrightarrow> x \<noteq> DropConnection r \<Longrightarrow> x \<noteq> RemoveConnection c \<Longrightarrow>
     r \<in> set (conn_rids (on_conns x l t) c)"
  "r \<in> set (conn_rids (on_conns (SetConnection c r) l t) c)"
  "r \<in> set (conn_rids (on_conns x l t) c) \<Longrightarrow> x = SetConnection c r \<or> r \<in> set (conn_rids t c)"
  by (cases x; auto simp: set_array_add array_drop_eq in_set_remove1 split: if_splits
      dest: notin_set_remove1 set_remove1_subset [THEN subsetD])+

lemma services_after:
  "ht_lookup t r \<noteq> None \<Longrightarrow> x \<noteq> RemoveService r \<Longrightarrow> ht_lookup (on_svcs w x t) r \<noteq> None"
  "ht_lookup (on_svcs w (SetService r s p) t) r \<noteq> None"
  by (cases x) auto

lemma proxynames_after:
  assumes "proxyname_ok t"
  shows "r \<in> pn_rids t p \<Longrightarrow> (\<forall>q. x \<noteq> DropProxyname q r) \<Longrightarrow> (\<forall>ps. x \<noteq> TryDrop r ps) \<Longrightarrow>
      r \<in> pn_rids (on_pns x t) p"
    "r \<in> pn_rids (on_pns (SetProxyname p r) t) p"
    "r \<in> pn_rids (on_pns x t) p \<Longrightarrow> x = SetProxyname p r \<or> r \<in> pn_rids t p"
  using assms
  by (cases "(x, t)" rule: on_pns.cases; auto split: if_splits)+

section \<open>The operations that follow\<close>

text \<open>Entries of an id are dropped only by a thread that has seen the request gone: the ids an operation
  needs to be gone, and those it makes so.\<close>

fun needs_gone :: "table_op \<Rightarrow> uuid set" where
  "needs_gone (DropKnown r) = {r}"
| "needs_gone (DropConnection r) = {r}"
| "needs_gone (RemoveService r) = {r}"
| "needs_gone (DropProxyname p r) = {r}"
| "needs_gone (DropAll r) = {r}"
| "needs_gone (TryDrop r ps) = {r}"
| "needs_gone _ = {}"

fun makes_gone :: "table_op \<Rightarrow> uuid set" where
  "makes_gone (GetConn r u True) = {r}"
| "makes_gone (RemoveRequest r) = {r}"
| "makes_gone _ = {}"

fun ends_job :: "table_op \<Rightarrow> bool" where
  "ends_job (RemoveConnection c) = True"
| "ends_job (DupRequests c) = True"
| "ends_job _ = False"

fun safe_ops :: "uuid set \<Rightarrow> table_op list \<Rightarrow> bool" where
  "safe_ops G [] \<longleftrightarrow> True"
| "safe_ops G (x # k) \<longleftrightarrow>
     needs_gone x \<subseteq> G \<and> (ends_job x \<longrightarrow> k = []) \<and> safe_ops (G \<union> makes_gone x) k"

lemma safe_mono: "safe_ops G k \<Longrightarrow> G \<subseteq> H \<Longrightarrow> safe_ops H k"
  by (induction k arbitrary: G H) (auto, metis Un_mono subset_refl)

definition goes_on :: "table_op list \<Rightarrow> bool" where
  "goes_on j \<longleftrightarrow> (\<forall>x \<in> set j. \<not> ends_job x)"

lemma goes_on_simps [simp]:
  "goes_on []" "goes_on (x # j) \<longleftrightarrow> \<not> ends_job x \<and> goes_on j" "goes_on (i @ j) \<longleftrightarrow> goes_on i \<and> goes_on j"
  by (auto simp: goes_on_def)

lemma safe_append: "safe_ops G j \<Longrightarrow> goes_on j \<Longrightarrow> safe_ops G k \<Longrightarrow> safe_ops G (j @ k)"
  by (induction j arbitrary: G) (auto intro: safe_mono)

lemma safe_concat:
  "(\<And>j. j \<in> set js \<Longrightarrow> safe_ops G j \<and> goes_on j) \<Longrightarrow> safe_ops G (concat js) \<and> goes_on (concat js)"
  by (induction js) (auto intro: safe_append)

lemma tell_ops_safe: "safe_ops G (tell_ops w p rs n) \<and> goes_on (tell_ops w p rs n)"
  by (induction rs arbitrary: n) auto

lemma job_ops_safe:
  "safe_ops G (route_ops c r p svc pl tmo)" "safe_ops G (reply_ops w p r h pl rm)" "safe_ops G (purge_ops r)"
  "safe_ops G (expire_ops w r)" "goes_on (expire_ops w r)" "safe_ops G (forget_ops r)"
  "goes_on (forget_ops r)"
  by (auto simp: route_ops_def reply_ops_def purge_ops_def expire_ops_def forget_ops_def Let_def)

lemma close_ops_safe: "safe_ops G (close_ops c arr)"
proof -
  have "safe_ops G (concat (map forget_ops arr)) \<and> goes_on (concat (map forget_ops arr))"
    by (rule safe_concat) (auto simp: job_ops_safe)
  then show ?thesis unfolding close_ops_def by (intro safe_append) simp_all
qed

text \<open>Operations that drop nothing.\<close>

lemma harmless_safe:
  "\<forall>x \<in> set ops. needs_gone x = {} \<and> \<not> ends_job x \<Longrightarrow> safe_ops G ops \<and> goes_on ops"
  by (induction ops arbitrary: G) auto

lemma listed_ops_safe:
  "safe_ops G (map (HandOver p) rs) \<and> goes_on (map (HandOver p) rs)"
  "safe_ops G (map PeekConn rs @ [Notify p b]) \<and> goes_on (map PeekConn rs @ [Notify p b])"
  "safe_ops G (map TellProxy ps) \<and> goes_on (map TellProxy ps)"
  "safe_ops G (concat (map (\<lambda>c. case ht_lookup g c of None \<Rightarrow> [] | Some arr \<Rightarrow> [WriteNotice c (f arr)]) cs)) \<and>
   goes_on (concat (map (\<lambda>c. case ht_lookup g c of None \<Rightarrow> [] | Some arr \<Rightarrow> [WriteNotice c (f arr)]) cs))"
  "safe_ops G (concat (map (expire_ops w) rs)) \<and> goes_on (concat (map (expire_ops w) rs))"
  by (rule harmless_safe safe_concat; auto simp: job_ops_safe split: option.splits)+

text \<open>What is put in front is safe where the operation was.\<close>

lemma safe_new:
  assumes "do_op w x l st = (l', new, st')" "safe_ops G (x # k)"
  shows "safe_ops (G \<union> makes_gone x) (new @ k)"
proof (cases "\<exists>c. x = DupRequests c")
  case True
  with assms show ?thesis by (auto simp: close_ops_safe split: option.splits)
next
  case False
  have "safe_ops (G \<union> makes_gone x) new \<and> goes_on new"
    using assms False listed_ops_safe(2)
    by (cases "(w, x, l, st)" rule: do_op.cases)
      (auto split: option.splits if_splits simp: tell_ops_safe listed_ops_safe [THEN conjunct1]
        listed_ops_safe [THEN conjunct2] simp del: map_concat)
  with assms show ?thesis by (auto intro: safe_append)
qed

lemma ids_of_concat: "ids_of (concat js) = (\<Union>j \<in> set js. ids_of j)"
  by (auto simp: ids_of_def)

lemma job_ids:
  "ids_of (route_ops c r p svc pl tmo) = {r}" "ids_of (reply_ops w p r h pl rm) = {r}"
  "ids_of (purge_ops r) = {r}" "ids_of (expire_ops w r) = {r}" "ids_of (forget_ops r) = {r}"
  by (auto simp: route_ops_def reply_ops_def purge_ops_def expire_ops_def forget_ops_def Let_def)

lemma tell_ids: "ids_of (tell_ops w p rs n) \<subseteq> generated (tell_ops w p rs n)"
  by (induction rs arbitrary: n) (fastforce simp: generated_def)+

lemma listed_ids:
  "ids_of (map (HandOver p) rs) = set rs" "ids_of (map PeekConn rs) = {}" "ids_of (map TellProxy ps) = {}"
  "ids_of (concat (map (\<lambda>c. case ht_lookup g c of None \<Rightarrow> [] | Some arr \<Rightarrow> [WriteNotice c (f arr)]) cs)) = {}"
  "ids_of (concat (map (expire_ops w) rs)) = set rs" "ids_of (close_ops c rs) = set rs"
  by (auto simp: ids_of_concat job_ids close_ops_def split: option.splits) (auto simp: ids_of_def)

text \<open>The ids of the operations that follow come from the operation, the tables or the generator.\<close>

lemma knownI:
  "ht_lookup (g_requests st) r = Some ctx \<Longrightarrow> r \<in> known st"
  "ht_lookup (g_connections st) c = Some arr \<Longrightarrow> r \<in> set arr \<Longrightarrow> r \<in> known st"
  "r \<in> pn_rids (g_proxynames st) p \<Longrightarrow> r \<in> known st"
  "was_handed st r \<Longrightarrow> r \<in> known st"
  by (auto simp: known_def conn_rids_def split: option.splits) (metis option.inject)

lemma dup_rids:
  assumes "proxyname_ok t" "client_proxyname_table_request_dup p b t = Some arr" "r \<in> set arr"
  shows "r \<in> pn_rids t p"
  using assms by (auto simp: request_dup_entries pn_rids_def image_iff split: if_splits) force+

lemma listed_known:
  assumes "world_ok w" "tables_ok st"
  shows "r \<in> set (client_request_table_expired (w_names w) now (g_requests st)) \<Longrightarrow> r \<in> known st"
    "client_connection_table_request_dup c (g_connections st) = Some arr \<Longrightarrow> r \<in> set arr \<Longrightarrow> r \<in> known st"
    "client_proxyname_table_request_dup p b (g_proxynames st) = Some arr \<Longrightarrow> r \<in> set arr \<Longrightarrow> r \<in> known st"
  using assms
  by (auto simp: set_expired world_ok_def request_dup_eq tables_ok_def intro: knownI dup_rids)

lemma ids_new:
  assumes "do_op w x l st = (l', new, st')" "world_ok w" "tables_ok st"
  shows "ids_of new \<subseteq> op_ids x \<union> known st \<union> generated new"
  using assms(1) listed_known [OF assms(2,3)] tell_ids [THEN subsetD]
  by (cases "(w, x, l, st)" rule: do_op.cases)
    (auto split: option.splits if_splits simp: listed_ids)

text \<open>What the operations that follow are not.\<close>

lemma kinds_new:
  assumes "do_op w x l st = (l', new, st')"
  shows "SetRequest r c tmo \<notin> set new" "SetConnection c r \<notin> set new" "DupRequests c \<notin> set new"
    "RemoveConnection c \<in> set new \<Longrightarrow> x = DupRequests c"
    "RemoveConnection c \<in> set new \<Longrightarrow> r \<in> set (conn_rids (g_connections st) c) \<Longrightarrow>
      RemoveRequest r \<in> set new"
proof -
  have tell: "y \<in> set (tell_ops w p rs n) \<Longrightarrow>
      (\<exists>q. y = WakeChannel q) \<or> y = NewId \<or> (\<exists>r s q. y = SetService r s q) \<or> (\<exists>q r. y = SetProxyname q r)"
    for y p rs n by (induction rs arbitrary: n) auto
  show "SetRequest r c tmo \<notin> set new" "SetConnection c r \<notin> set new" "DupRequests c \<notin> set new"
    "RemoveConnection c \<in> set new \<Longrightarrow> x = DupRequests c"
    "RemoveConnection c \<in> set new \<Longrightarrow> r \<in> set (conn_rids (g_connections st) c) \<Longrightarrow>
      RemoveRequest r \<in> set new"
    using assms
    by (cases "(w, x, l, st)" rule: do_op.cases;
        auto split: option.splits if_splits simp: expire_ops_def close_ops_def forget_ops_def Let_def
          request_dup_eq conn_rids_def dest: tell)+
qed

lemma known_after:
  assumes "do_op w x l st = (l', new, st')" "proxyname_ok (g_proxynames st)"
  shows "known st' \<subseteq> known st \<union> op_ids x"
proof
  fix r
  assume "r \<in> known st'"
  then consider (req) "ht_lookup (g_requests st') r \<noteq> None"
    | (conn) c where "r \<in> set (conn_rids (g_connections st') c)"
    | (pn) p where "r \<in> pn_rids (g_proxynames st') p" | (handed) "was_handed st' r"
    by (auto simp: known_def)
  then show "r \<in> known st \<union> op_ids x"
  proof cases
    case req
    then show ?thesis
      using requests_after [of w x "g_requests st" r] do_op_tables(1) [OF assms(1)]
      by (auto simp: known_def)
  next
    case conn
    then show ?thesis
      using connections_after(3) [of r x l "g_connections st" c] do_op_tables(2) [OF assms(1)]
      by (auto simp: known_def)
  next
    case pn
    then show ?thesis
      using proxynames_after(3) [OF assms(2), of r x p] do_op_tables(4) [OF assms(1)]
      by (auto simp: known_def)
  next
    case handed
    then show ?thesis
      using do_op_tables(5) [OF assms(1)] by (cases x) (auto simp: known_def was_handed_def)
  qed
qed

end
