(* ===== verification/Table_Interleaving.thy ===== *)
theory Table_Interleaving
  imports Table_Races
begin

text \<open>
  What holds whenever the operations on the client tables interleave: the entries of a stored request are
  complete, or on their way.
\<close>

section \<open>The invariant\<close>

definition pending :: "concurrent \<Rightarrow> table_op \<Rightarrow> bool" where
  "pending s x \<longleftrightarrow> (\<exists>t. x \<in> set (cn_ops s t))"

text \<open>An id that is used, not stored, and will not be.\<close>

definition gone :: "concurrent \<Rightarrow> uuid set" where
  "gone s = {r \<in> cn_used s. ht_lookup (g_requests (cn_state s)) r = None \<and>
     (\<forall>c tmo. \<not> pending s (SetRequest r c tmo))}"

definition requests_complete :: "concurrent \<Rightarrow> bool" where
  "requests_complete s \<longleftrightarrow> (\<forall>r ctx. ht_lookup (g_requests (cn_state s)) r = Some ctx \<longrightarrow>
     (r \<in> set (conn_rids (g_connections (cn_state s)) (rq_conn ctx)) \<or> pending s (SetConnection (rq_conn ctx) r)) \<and>
     (ht_lookup (g_services (cn_state s)) r \<noteq> None \<or> (\<exists>v p. pending s (SetService r v p))) \<and>
     ((\<exists>p. r \<in> pn_rids (g_proxynames (cn_state s)) p) \<or> (\<exists>p. pending s (SetProxyname p r))))"

definition storing_ok :: "concurrent \<Rightarrow> bool" where
  "storing_ok s \<longleftrightarrow> (\<forall>t r c tmo. SetRequest r c tmo \<in> set (cn_ops s t) \<longrightarrow>
     r \<notin> known (cn_state s) \<and> (\<forall>u. u \<noteq> t \<longrightarrow> r \<notin> ids_of (cn_ops s u)) \<and>
     (\<exists>p svc pl. cn_ops s t = route_ops c r p svc pl tmo))"

definition ids_used :: "concurrent \<Rightarrow> bool" where
  "ids_used s \<longleftrightarrow> known (cn_state s) \<subseteq> cn_used s \<and> (\<forall>t. ids_of (cn_ops s t) \<subseteq> cn_used s) \<and>
     (\<forall>r \<in> cn_used s. length r < UUIDBUFLEN)"

definition drops_ok :: "concurrent \<Rightarrow> bool" where
  "drops_ok s \<longleftrightarrow> (\<forall>t. safe_ops (gone s) (cn_ops s t))"

definition closing_ok :: "concurrent \<Rightarrow> bool" where
  "closing_ok s \<longleftrightarrow> (\<forall>t c.
     (RemoveConnection c \<in> set (cn_ops s t) \<longrightarrow> c \<in> cn_closed s \<and>
        (\<forall>r ctx. ht_lookup (g_requests (cn_state s)) r = Some ctx \<longrightarrow> rq_conn ctx = c \<longrightarrow>
           RemoveRequest r \<in> set (cn_ops s t))) \<and>
     (DupRequests c \<in> set (cn_ops s t) \<longrightarrow> c \<in> cn_closed s) \<and>
     (\<forall>r. SetConnection c r \<in> set (cn_ops s t) \<longrightarrow> c \<notin> cn_closed s))"

text \<open>A closed connection is still being forgotten, or is forgotten.\<close>

definition closed_forgotten :: "concurrent \<Rightarrow> bool" where
  "closed_forgotten s \<longleftrightarrow> (\<forall>c \<in> cn_closed s. pending s (DupRequests c) \<or> pending s (RemoveConnection c) \<or>
     conn_rids (g_connections (cn_state s)) c = [] \<and>
     (\<forall>r ctx. ht_lookup (g_requests (cn_state s)) r = Some ctx \<longrightarrow> rq_conn ctx \<noteq> c))"

definition conc_inv :: "concurrent \<Rightarrow> bool" where
  "conc_inv s \<longleftrightarrow> tables_ok (cn_state s) \<and> requests_complete s \<and> storing_ok s \<and> ids_used s \<and> drops_ok s \<and>
     closing_ok s \<and> closed_forgotten s"

lemma conc_invD:
  assumes "conc_inv s"
  shows "tables_ok (cn_state s)" "requests_complete s" "storing_ok s" "ids_used s" "drops_ok s" "closing_ok s"
    "closed_forgotten s"
  using assms by (simp_all add: conc_inv_def)

section \<open>Steps that begin a handler\<close>

lemma conc_inv_init: "conc_init s \<Longrightarrow> conc_inv s"
  by (auto simp: conc_init_def conc_inv_def tables_ok_def requests_complete_def storing_ok_def ids_used_def
      drops_ok_def closing_ok_def closed_forgotten_def known_def was_handed_def conn_rids_def pn_rids_def pn_entries_def
      proxyname_ok_def)

lemma conc_inv_tables:
  assumes "conc_inv s" "same_client_tables st' (cn_state s)"
  shows "conc_inv (s\<lparr>cn_state := st'\<rparr>)"
proof -
  have "known st' = known (cn_state s)"
    using assms(2) by (simp add: known_def was_handed_def same_client_tables_def)
  then show ?thesis
    using assms
    by (simp add: conc_inv_def tables_ok_def requests_complete_def storing_ok_def ids_used_def drops_ok_def
        closing_ok_def closed_forgotten_def gone_def pending_def same_client_tables_def)
qed

text \<open>A handler that stores nothing.\<close>

lemma conc_inv_begins:
  assumes inv: "conc_inv s" and idle: "cn_ops s t = []"
    and kinds: "\<And>r c tmo. SetRequest r c tmo \<notin> set j" "\<And>c r. SetConnection c r \<notin> set j"
      "\<And>c. RemoveConnection c \<notin> set j" "\<And>c. DupRequests c \<in> set j \<Longrightarrow> c \<in> C"
    and ids: "ids_of j \<subseteq> known (cn_state s)" and safe: "\<And>G. safe_ops G j"
    and C: "cn_closed s \<subseteq> C" "\<And>c r. c \<in> C \<Longrightarrow> c \<notin> cn_closed s \<Longrightarrow> \<not> pending s (SetConnection c r)"
      "\<And>c. c \<in> C \<Longrightarrow> c \<notin> cn_closed s \<Longrightarrow> DupRequests c \<in> set j"
  shows "conc_inv ((begins t j s)\<lparr>cn_closed := C\<rparr>)" (is "conc_inv ?s")
proof -
  note inv = conc_invD [OF inv]
  have ops: "cn_ops ?s u = (if u = t then j else cn_ops s u)" for u by (simp add: begins_def)
  have same: "cn_state ?s = cn_state s" "cn_used ?s = cn_used s" "cn_closed ?s = C"
    by (simp_all add: begins_def)
  have more: "pending s x \<Longrightarrow> pending ?s x" for x
    unfolding pending_def ops by (metis empty_iff empty_set idle)
  have "gone ?s = gone s"
    using kinds(1) idle unfolding gone_def pending_def ops same by (auto split: if_splits) (metis empty_iff empty_set)+
  then have "drops_ok ?s" using inv(5) safe unfolding drops_ok_def ops by simp
  moreover have "requests_complete ?s"
    using inv(2) more unfolding requests_complete_def same by blast
  moreover have "storing_ok ?s"
    using inv(3) kinds(1) ids unfolding storing_ok_def ops same by (auto split: if_splits)
  moreover have "ids_used ?s"
    using inv(4) ids unfolding ids_used_def ops same by (auto split: if_splits)
  moreover have "c \<notin> C" if "SetConnection c r \<in> set (cn_ops s u)" for c r u
    using that inv(6) C(2) [of c r] by (auto simp: closing_ok_def pending_def)
  then have "closing_ok ?s"
    using inv(6) kinds C(1) unfolding closing_ok_def ops same by (auto split: if_splits)
  moreover have "pending ?s (DupRequests c)" if "c \<in> C" "c \<notin> cn_closed s" for c
    using C(3) [OF that] unfolding pending_def ops by metis
  with inv(7) more have "closed_forgotten ?s" unfolding closed_forgotten_def same by blast
  ultimately show ?thesis using inv(1) by (simp add: conc_inv_def same)
qed

text \<open>The handler of a message, with a new id.\<close>

lemma route_ops_set:
  "x \<in> set (route_ops c r p svc pl tmo) \<longleftrightarrow>
     x \<in> {SetRequest r c tmo, SetConnection c r, SetService r svc pl, SetProxyname p r, HoldChannels True,
           WakeChannel p, HoldChannels False}"
  by (auto simp: route_ops_def)

lemma conc_inv_message:
  assumes inv: "conc_inv s" and idle: "cn_ops s t = []" and "r \<notin> cn_used s" "c \<notin> cn_closed s"
    "length r < UUIDBUFLEN"
  shows "conc_inv ((begins t (route_ops c r p svc pl tmo) s)\<lparr>cn_used := insert r (cn_used s)\<rparr>)"
    (is "conc_inv ?s")
proof -
  note inv = conc_invD [OF inv]
  have ops: "cn_ops ?s u = (if u = t then route_ops c r p svc pl tmo else cn_ops s u)" for u
    by (simp add: begins_def)
  have same: "cn_state ?s = cn_state s" "cn_closed ?s = cn_closed s" "cn_used ?s = insert r (cn_used s)"
    by (simp_all add: begins_def)
  have more: "pending s x \<Longrightarrow> pending ?s x" for x
    unfolding pending_def ops by (metis empty_iff empty_set idle)
  have "gone s \<subseteq> gone ?s"
    using assms(3) unfolding gone_def pending_def ops same by (auto simp: route_ops_set split: if_splits)
  then have drops: "drops_ok ?s"
    using inv(5) job_ops_safe(1) unfolding drops_ok_def ops by (auto intro: safe_mono)
  have complete: "requests_complete ?s"
    using inv(2) more unfolding requests_complete_def same by blast
  have new: "r \<notin> known (cn_state s)" "r \<notin> ids_of (cn_ops s u)" for u
    using inv(4) assms(3) by (auto simp: ids_used_def)
  then have "SetRequest r c' tmo' \<notin> set (cn_ops s u)" for c' tmo' u
    by (fastforce simp: ids_of_def)
  with new have storing: "storing_ok ?s"
    using inv(3) unfolding storing_ok_def ops same by (auto simp: route_ops_set job_ids ids_of_def)
  have used: "ids_used ?s"
    using inv(4) assms(5) unfolding ids_used_def ops same by (auto simp: job_ids)
  have closing: "closing_ok ?s"
    using inv(6) assms(4) unfolding closing_ok_def ops same by (auto simp: route_ops_set)
  have "closed_forgotten ?s"
    using inv(7) more unfolding closed_forgotten_def same by blast
  with inv(1) drops complete storing used closing show ?thesis by (simp add: conc_inv_def same)
qed

section \<open>Steps that do an operation\<close>

text \<open>What the invariant needs to know of an operation \<open>x\<close>, the operations that follow it, and the tables
  before and after.\<close>

definition op_effect :: "table_op \<Rightarrow> gonggo \<Rightarrow> table_op list \<Rightarrow> gonggo \<Rightarrow> bool" where
  "op_effect x st new st' \<longleftrightarrow> tables_ok st' \<and>
     (\<forall>r ctx'. ht_lookup (g_requests st') r = Some ctx' \<longrightarrow>
        (\<exists>ctx. ht_lookup (g_requests st) r = Some ctx \<and> rq_conn ctx = rq_conn ctx' \<and>
           x \<noteq> RemoveRequest r \<and> r \<notin> makes_gone x) \<or>
        (\<exists>tmo. x = SetRequest r (rq_conn ctx') tmo)) \<and>
     (\<forall>r c. r \<in> set (conn_rids (g_connections st') c) \<or> x = DropConnection r \<or> x = RemoveConnection c \<or>
        r \<notin> set (conn_rids (g_connections st) c) \<and> x \<noteq> SetConnection c r) \<and>
     (\<forall>r. ht_lookup (g_services st') r \<noteq> None \<or> x = RemoveService r \<or>
        ht_lookup (g_services st) r = None \<and> (\<forall>v p. x \<noteq> SetService r v p)) \<and>
     (\<forall>r p. r \<in> pn_rids (g_proxynames st') p \<or> (\<exists>q. x = DropProxyname q r) \<or> (\<exists>ps. x = TryDrop r ps) \<or>
        r \<notin> pn_rids (g_proxynames st) p \<and> x \<noteq> SetProxyname p r) \<and>
     known st' \<subseteq> known st \<union> op_ids x \<and> ids_of new \<subseteq> op_ids x \<union> known st \<union> generated new \<and>
     (\<forall>G k. safe_ops G (x # k) \<longrightarrow> safe_ops (G \<union> makes_gone x) (new @ k)) \<and>
     (\<forall>r c tmo. SetRequest r c tmo \<notin> set new) \<and> (\<forall>c r. SetConnection c r \<notin> set new) \<and>
     (\<forall>c. DupRequests c \<notin> set new) \<and>
     (\<forall>c. RemoveConnection c \<in> set new \<longrightarrow> x = DupRequests c \<and>
        (\<forall>r \<in> set (conn_rids (g_connections st) c). RemoveRequest r \<in> set new)) \<and>
     (\<forall>r c. r \<in> set (conn_rids (g_connections st') c) \<longrightarrow> x = SetConnection c r \<or>
        r \<in> set (conn_rids (g_connections st) c)) \<and>
     (\<forall>c. x = RemoveConnection c \<longrightarrow> conn_rids (g_connections st') c = []) \<and>
     (\<forall>c. x = DupRequests c \<longrightarrow> RemoveConnection c \<in> set new \<or> conn_rids (g_connections st) c = [])"

lemma do_op_effect:
  assumes "do_op w x l st = (l', new, st')" "world_ok w" "tables_ok st"
  shows "op_effect x st new st'"
proof -
  have pns: "proxyname_ok (g_proxynames st)" using assms(3) by (simp add: tables_ok_def)
  have gone: "r \<in> makes_gone x \<longleftrightarrow> x = RemoveRequest r \<or> (\<exists>u. x = GetConn r u True)" for r
    by (cases x rule: makes_gone.cases) auto
  note t = do_op_tables [OF assms(1)]
  have requests: "(\<exists>ctx. ht_lookup (g_requests st) r = Some ctx \<and> rq_conn ctx = rq_conn ctx' \<and>
           x \<noteq> RemoveRequest r \<and> r \<notin> makes_gone x) \<or> (\<exists>tmo. x = SetRequest r (rq_conn ctx') tmo)"
    if "ht_lookup (g_requests st') r = Some ctx'" for r ctx'
    using requests_after [OF that [unfolded t(1)]] gone by auto
  have connections: "r \<in> set (conn_rids (g_connections st') c) \<or> x = DropConnection r \<or> x = RemoveConnection c \<or>
      r \<notin> set (conn_rids (g_connections st) c) \<and> x \<noteq> SetConnection c r" for r c
    using connections_after(1,2) unfolding t(2) by metis
  have services: "ht_lookup (g_services st') r \<noteq> None \<or> x = RemoveService r \<or>
      ht_lookup (g_services st) r = None \<and> (\<forall>v p. x \<noteq> SetService r v p)" for r
    using services_after unfolding t(3) by metis
  have proxynames: "r \<in> pn_rids (g_proxynames st') p \<or> (\<exists>q. x = DropProxyname q r) \<or> (\<exists>ps. x = TryDrop r ps) \<or>
      r \<notin> pn_rids (g_proxynames st) p \<and> x \<noteq> SetProxyname p r" for r p
    using proxynames_after [OF pns] unfolding t(4) by metis
  have connections2: "x = SetConnection c r \<or> r \<in> set (conn_rids (g_connections st) c)"
    if "r \<in> set (conn_rids (g_connections st') c)" for r c
    using connections_after(3) that unfolding t(2) by metis
  have removed: "conn_rids (g_connections st') c = []" if "x = RemoveConnection c" for c
    using that by (simp add: t(2))
  have listed: "RemoveConnection c \<in> set new \<or> conn_rids (g_connections st) c = []" if "x = DupRequests c" for c
    using assms(1) that by (auto simp: request_dup_eq conn_rids_def close_ops_def split: option.splits)
  show ?thesis
    unfolding op_effect_def
    by (intro conjI allI ballI impI)
      (rule requests connections services proxynames connections2 removed listed tables_ok_op [OF assms(1,3)]
        known_after [OF assms(1) pns] ids_new [OF assms] kinds_new [OF assms(1)] safe_new [OF assms(1)]; assumption)+
qed

lemma skip_effect:
  "tables_ok st \<Longrightarrow> op_effect (MarkSent p r) st [] st" "tables_ok st \<Longrightarrow> op_effect (PostRequest p r x) st [] st"
  by (auto simp: op_effect_def generated_def)

definition performs ::
    "concurrent \<Rightarrow> nat \<Rightarrow> table_op \<Rightarrow> table_op list \<Rightarrow> table_op list \<Rightarrow> concurrent \<Rightarrow> bool" where
  "performs s t x k new s' \<longleftrightarrow> cn_ops s t = x # k \<and> op_effect x (cn_state s) new (cn_state s') \<and>
     generated new \<inter> cn_used s = {} \<and> (\<forall>r \<in> generated new. length r < UUIDBUFLEN) \<and>
     cn_ops s' = (cn_ops s)(t := new @ k) \<and>
     cn_used s' = cn_used s \<union> generated new \<and> cn_closed s' = cn_closed s"

lemma performsD:
  assumes "performs s t x k new s'"
  shows "cn_ops s t = x # k" "op_effect x (cn_state s) new (cn_state s')" "generated new \<inter> cn_used s = {}"
    "cn_ops s' = (cn_ops s)(t := new @ k)" "cn_used s' = cn_used s \<union> generated new"
    "cn_closed s' = cn_closed s" "\<And>r. r \<in> generated new \<Longrightarrow> length r < UUIDBUFLEN"
  using assms by (simp_all add: performs_def)

lemma op_effect_conj:
  assumes "op_effect x st new st'"
  shows "tables_ok st'"
    "\<forall>r ctx'. ht_lookup (g_requests st') r = Some ctx' \<longrightarrow>
       (\<exists>ctx. ht_lookup (g_requests st) r = Some ctx \<and> rq_conn ctx = rq_conn ctx' \<and>
          x \<noteq> RemoveRequest r \<and> r \<notin> makes_gone x) \<or> (\<exists>tmo. x = SetRequest r (rq_conn ctx') tmo)"
    "\<forall>r c. r \<in> set (conn_rids (g_connections st') c) \<or> x = DropConnection r \<or> x = RemoveConnection c \<or>
       r \<notin> set (conn_rids (g_connections st) c) \<and> x \<noteq> SetConnection c r"
    "\<forall>r. ht_lookup (g_services st') r \<noteq> None \<or> x = RemoveService r \<or>
       ht_lookup (g_services st) r = None \<and> (\<forall>v p. x \<noteq> SetService r v p)"
    "\<forall>r p. r \<in> pn_rids (g_proxynames st') p \<or> (\<exists>q. x = DropProxyname q r) \<or> (\<exists>ps. x = TryDrop r ps) \<or>
       r \<notin> pn_rids (g_proxynames st) p \<and> x \<noteq> SetProxyname p r"
    "known st' \<subseteq> known st \<union> op_ids x" "ids_of new \<subseteq> op_ids x \<union> known st \<union> generated new"
    "\<forall>G k. safe_ops G (x # k) \<longrightarrow> safe_ops (G \<union> makes_gone x) (new @ k)"
    "\<forall>r c tmo. SetRequest r c tmo \<notin> set new" "\<forall>c r. SetConnection c r \<notin> set new"
    "\<forall>c. DupRequests c \<notin> set new"
    "\<forall>c. RemoveConnection c \<in> set new \<longrightarrow> x = DupRequests c \<and>
       (\<forall>r \<in> set (conn_rids (g_connections st) c). RemoveRequest r \<in> set new)"
    "\<forall>r c. r \<in> set (conn_rids (g_connections st') c) \<longrightarrow> x = SetConnection c r \<or>
       r \<in> set (conn_rids (g_connections st) c)"
    "\<forall>c. x = RemoveConnection c \<longrightarrow> conn_rids (g_connections st') c = []"
    "\<forall>c. x = DupRequests c \<longrightarrow> RemoveConnection c \<in> set new \<or> conn_rids (g_connections st) c = []"
  using assms unfolding op_effect_def by - (elim conjE, assumption)+

lemmas op_effectD = op_effect_conj [rule_format]

text \<open>An operation that is still to be done was to be done before, or follows from this one.\<close>

lemma pending_after:
  assumes "performs s t x k new s'"
  shows "pending s' y \<Longrightarrow> pending s y \<or> y \<in> set new" "pending s y \<Longrightarrow> y \<noteq> x \<Longrightarrow> pending s' y"
    "pending s x"
  using performsD [OF assms] unfolding pending_def
  by (metis Un_iff fun_upd_other fun_upd_same list.set_intros(2) set_append, 
      metis Un_iff fun_upd_other fun_upd_same set_ConsD set_append, metis list.set_intros(1))

text \<open>The handler of a message that is about to store its request.\<close>

lemma set_request_next:
  assumes "conc_inv s" "performs s t (SetRequest r c tmo) k new s'"
  shows "\<exists>p svc pl. k = [SetConnection c r, SetService r svc pl, SetProxyname p r, HoldChannels True,
    WakeChannel p, HoldChannels False]"
  using conc_invD(3) [OF assms(1)] performsD(1) [OF assms(2)] unfolding storing_ok_def
  by (metis (no_types, lifting) list.inject list.set_intros(1) route_ops_def)

lemma storing_performs:
  assumes "conc_inv s" "performs s t x k new s'"
  shows "storing_ok s'"
  unfolding storing_ok_def
proof (intro allI impI)
  fix u r c tmo
  note p = performsD [OF assms(2)] and inv = conc_invD [OF assms(1)]
  note e = op_effectD [OF p(2)]
  assume "SetRequest r c tmo \<in> set (cn_ops s' u)"
  moreover have "SetRequest r c tmo \<notin> set k"
  proof
    assume "SetRequest r c tmo \<in> set k"
    with p(1) have "SetRequest r c tmo \<in> set (cn_ops s t)" by simp
    with inv(3) obtain q svc pl where "x # k = route_ops c r q svc pl tmo"
      unfolding storing_ok_def p(1) [symmetric] by blast
    with \<open>SetRequest r c tmo \<in> set k\<close> show False by (auto simp: route_ops_def)
  qed
  ultimately have u: "u \<noteq> t" and todo: "SetRequest r c tmo \<in> set (cn_ops s u)"
    using e(9) by (auto simp: p(4) split: if_splits)
  then have old: "r \<notin> known (cn_state s)" "\<forall>v. v \<noteq> u \<longrightarrow> r \<notin> ids_of (cn_ops s v)"
      "\<exists>p svc pl. cn_ops s u = route_ops c r p svc pl tmo"
    using inv(3) unfolding storing_ok_def by blast+
  then have x: "r \<notin> op_ids x" "r \<notin> ids_of k" using u p(1) by (auto dest: spec [of _ t])
  have "r \<in> cn_used s" using todo inv(4) by (force simp: ids_used_def ids_of_def)
  then have "r \<notin> ids_of new" using x old(1) e(7) p(3) by blast
  with old x u e(6) show "r \<notin> known (cn_state s') \<and> (\<forall>v. v \<noteq> u \<longrightarrow> r \<notin> ids_of (cn_ops s' v)) \<and>
      (\<exists>p svc pl. cn_ops s' u = route_ops c r p svc pl tmo)"
    by (auto simp: p(4))
qed

lemma used_performs:
  assumes "conc_inv s" "performs s t x k new s'"
  shows "ids_used s'"
proof -
  note p = performsD [OF assms(2)] and inv = conc_invD [OF assms(1)]
  note e = op_effectD [OF p(2)]
  have t: "op_ids x \<subseteq> cn_used s" "ids_of k \<subseteq> cn_used s"
    using inv(4) p(1) unfolding ids_used_def by (metis ids_of_simps(2) le_sup_iff)+
  with inv(4) e(6,7) p(7) show ?thesis unfolding ids_used_def p(4,5)
    by (auto split: if_splits)
qed

lemma makes_gone_ids: "makes_gone x \<subseteq> op_ids x"
  by (cases x rule: makes_gone.cases) auto

lemma gone_performs:
  assumes "conc_inv s" "performs s t x k new s'"
  shows "gone s \<union> makes_gone x \<subseteq> gone s'"
proof
  fix r
  note p = performsD [OF assms(2)] and inv = conc_invD [OF assms(1)]
  note e = op_effectD [OF p(2)]
  note pend = pending_after [OF assms(2)]
  assume r: "r \<in> gone s \<union> makes_gone x"
  have no_set: "\<not> pending s (SetRequest r c tmo)" if "r \<in> makes_gone x" for c tmo
  proof
    assume "pending s (SetRequest r c tmo)"
    then obtain u where u: "SetRequest r c tmo \<in> set (cn_ops s u)" by (auto simp: pending_def)
    have "r \<in> ids_of (cn_ops s t)" using that makes_gone_ids p(1) by auto
    with u inv(3) have "u = t" unfolding storing_ok_def by metis
    with u inv(3) p(1) obtain q v pl where "x # k = route_ops c r q v pl tmo"
      unfolding storing_ok_def by metis
    with that show False by (auto simp: route_ops_def)
  qed
  have "r \<in> cn_used s'"
    using r makes_gone_ids inv(4) p(1,5) unfolding gone_def ids_used_def
    by (metis (no_types, lifting) Un_iff ids_of_simps(2) mem_Collect_eq subsetD)
  moreover have "ht_lookup (g_requests (cn_state s')) r = None"
    using r e(2) [of r] pend(3) by (cases "ht_lookup (g_requests (cn_state s')) r") (auto simp: gone_def)
  moreover have "\<not> pending s' (SetRequest r c tmo)" for c tmo
    using r no_set pend(1) e(9) unfolding gone_def by blast
  ultimately show "r \<in> gone s'" by (simp add: gone_def)
qed

lemma drops_performs:
  assumes "conc_inv s" "performs s t x k new s'"
  shows "drops_ok s'"
  unfolding drops_ok_def
proof
  fix u
  note p = performsD [OF assms(2)] and inv = conc_invD [OF assms(1)]
  note gone = gone_performs [OF assms]
  have old: "safe_ops (gone s) (cn_ops s u)" for u using inv(5) by (simp add: drops_ok_def)
  show "safe_ops (gone s') (cn_ops s' u)"
  proof (cases "u = t")
    case True
    from old [of t] have "safe_ops (gone s) (x # k)" by (simp only: p(1))
    from safe_mono [OF op_effectD(8) [OF p(2) this] gone] True show ?thesis by (simp add: p(4))
  next
    case False
    with old [of u] p(4) gone show ?thesis by (auto intro: safe_mono)
  qed
qed

lemma closing_performs:
  assumes "conc_inv s" "performs s t x k new s'"
  shows "closing_ok s'"
proof -
  note p = performsD [OF assms(2)] and inv = conc_invD [OF assms(1)]
  note e = op_effectD [OF p(2)]
  have open_op: "c \<notin> cn_closed s" if "SetConnection c r \<in> set (cn_ops s u)" for c r u
    using that inv(6) by (auto simp: closing_ok_def)
  then have open_conn: "c \<notin> cn_closed s" if "pending s (SetConnection c r)" for c r
    using that by (auto simp: pending_def)
  have dup: "c \<in> cn_closed s" if "DupRequests c \<in> set (cn_ops s u)" for c u
    using that inv(6) by (auto simp: closing_ok_def)
  have set_request: "c \<notin> cn_closed s" if "x = SetRequest r c tmo" for r c tmo
  proof -
    from set_request_next [OF assms(1)] assms(2) that have "SetConnection c r \<in> set k" by fastforce
    with p(1) show ?thesis by (intro open_conn [of c r]) (auto simp: pending_def intro!: exI [of _ t])
  qed
  have "c \<in> cn_closed s \<and> (\<forall>r ctx. ht_lookup (g_requests (cn_state s')) r = Some ctx \<longrightarrow>
      rq_conn ctx = c \<longrightarrow> RemoveRequest r \<in> set (cn_ops s' u))"
    if rem: "RemoveConnection c \<in> set (cn_ops s' u)" for c u
  proof (cases "RemoveConnection c \<in> set (cn_ops s u)")
    case True
    with inv(6) have c: "c \<in> cn_closed s" and old: "\<And>r ctx. ht_lookup (g_requests (cn_state s)) r = Some ctx \<Longrightarrow>
        rq_conn ctx = c \<Longrightarrow> RemoveRequest r \<in> set (cn_ops s u)"
      by (auto simp: closing_ok_def)
    have "RemoveRequest r \<in> set (cn_ops s' u)"
      if "ht_lookup (g_requests (cn_state s')) r = Some ctx" "rq_conn ctx = c" for r ctx
      using e(2) [OF that(1)] that(2) set_request c old p(1,4) by (fastforce split: if_splits)
    with c show ?thesis by blast
  next
    case False
    with rem p(1,4) have "u = t" "RemoveConnection c \<in> set new" by (auto split: if_splits)
    with e(12) have x: "x = DupRequests c"
      and all: "\<And>r. r \<in> set (conn_rids (g_connections (cn_state s)) c) \<Longrightarrow> RemoveRequest r \<in> set new"
      by blast+
    have c: "c \<in> cn_closed s" using dup [of c t] p(1) x by simp
    have "RemoveRequest r \<in> set new"
      if "ht_lookup (g_requests (cn_state s')) r = Some ctx" "rq_conn ctx = c" for r ctx
    proof (rule all)
      from e(2) [OF that(1)] x that(2) obtain ctx0 where
        "ht_lookup (g_requests (cn_state s)) r = Some ctx0" "rq_conn ctx0 = c" by auto
      with inv(2) open_conn c show "r \<in> set (conn_rids (g_connections (cn_state s)) c)"
        unfolding requests_complete_def by blast
    qed
    with c \<open>u = t\<close> p(4) show ?thesis by auto
  qed
  moreover have "DupRequests c \<in> set (cn_ops s' u) \<Longrightarrow> c \<in> cn_closed s"
    "SetConnection c r \<in> set (cn_ops s' u) \<Longrightarrow> c \<notin> cn_closed s" for c r u
    using dup [of c u] open_op [of c r u] p(1,4) e(10,11) by (auto split: if_splits)
  ultimately show ?thesis unfolding closing_ok_def p(6) by blast
qed

lemma forgotten_performs:
  assumes "conc_inv s" "performs s t x k new s'"
  shows "closed_forgotten s'"
  unfolding closed_forgotten_def
proof
  note p = performsD [OF assms(2)] and inv = conc_invD [OF assms(1)]
  note e = op_effectD [OF p(2)]
  note stays = pending_after(2) [OF assms(2)]
  have safe: "safe_ops (gone s) (x # k)" using inv(5) p(1) by (metis drops_ok_def)
  fix c
  assume "c \<in> cn_closed s'"
  then have c: "c \<in> cn_closed s" by (simp add: p(6))
  then have open_op: "SetConnection c r \<notin> set (cn_ops s u)" for r u
    using inv(6) unfolding closing_ok_def by blast
  have none: "conn_rids (g_connections (cn_state s')) c = []"
    if "conn_rids (g_connections (cn_state s)) c = []"
  proof -
    have "x \<noteq> SetConnection c r" for r using open_op [of r t] p(1) by auto
    with e(13) [of _ c] that show ?thesis
      by (cases "conn_rids (g_connections (cn_state s')) c") auto
  qed
  have forgotten: "\<forall>r ctx. ht_lookup (g_requests (cn_state s')) r = Some ctx \<longrightarrow> rq_conn ctx \<noteq> c"
    if "\<forall>r ctx. ht_lookup (g_requests (cn_state s)) r = Some ctx \<longrightarrow> rq_conn ctx \<noteq> c"
  proof (intro allI impI notI)
    fix r ctx
    assume r: "ht_lookup (g_requests (cn_state s')) r = Some ctx" "rq_conn ctx = c"
    from e(2) [OF r(1)] that r(2) obtain tmo where "x = SetRequest r c tmo" by metis
    with set_request_next [OF assms(1)] assms(2) have "SetConnection c r \<in> set k" by fastforce
    with open_op [of r t] p(1) show False by simp
  qed
  show "pending s' (DupRequests c) \<or> pending s' (RemoveConnection c) \<or>
      conn_rids (g_connections (cn_state s')) c = [] \<and>
      (\<forall>r ctx. ht_lookup (g_requests (cn_state s')) r = Some ctx \<longrightarrow> rq_conn ctx \<noteq> c)"
  proof (cases "x = DupRequests c \<or> x = RemoveConnection c")
    case False
    with inv(7) c stays none forgotten show ?thesis unfolding closed_forgotten_def by blast
  next
    case True
    then show ?thesis
    proof
      assume x: "x = RemoveConnection c"
      with safe p(1) have ops: "cn_ops s t = [RemoveConnection c]" by simp
      have "\<forall>r ctx. ht_lookup (g_requests (cn_state s)) r = Some ctx \<longrightarrow> rq_conn ctx \<noteq> c"
      proof (intro allI impI notI)
        fix r ctx
        assume "ht_lookup (g_requests (cn_state s)) r = Some ctx" "rq_conn ctx = c"
        with inv(6) x p(1) have "RemoveRequest r \<in> set (cn_ops s t)"
          unfolding closing_ok_def by (metis list.set_intros(1))
        with ops show False by simp
      qed
      with forgotten e(14) x show ?thesis by blast
    next
      assume x: "x = DupRequests c"
      show ?thesis
      proof (cases "RemoveConnection c \<in> set new")
        case True
        then have "pending s' (RemoveConnection c)" using p(4) by (auto simp: pending_def intro!: exI [of _ t])
        then show ?thesis by blast
      next
        case False
        with e(15) x have empty: "conn_rids (g_connections (cn_state s)) c = []" by blast
        have "rq_conn ctx \<noteq> c" if "ht_lookup (g_requests (cn_state s)) r = Some ctx" for r ctx
          using inv(2) that empty open_op unfolding requests_complete_def pending_def by fastforce
        with forgotten none [OF empty] show ?thesis by blast
      qed
    qed
  qed
qed

text \<open>An entry of a stored request stays, and one on its way arrives.\<close>

lemma complete_performs:
  assumes "conc_inv s" "performs s t x k new s'"
  shows "requests_complete s'"
  unfolding requests_complete_def
proof (intro allI impI)
  fix r ctx
  note p = performsD [OF assms(2)] and inv = conc_invD [OF assms(1)]
  note e = op_effectD [OF p(2)]
  have safe: "safe_ops (gone s) (x # k)" using inv(5) p(1) by (metis drops_ok_def)
  assume stored: "ht_lookup (g_requests (cn_state s')) r = Some ctx"
  show "(r \<in> set (conn_rids (g_connections (cn_state s')) (rq_conn ctx)) \<or> pending s' (SetConnection (rq_conn ctx) r)) \<and>
     (ht_lookup (g_services (cn_state s')) r \<noteq> None \<or> (\<exists>v p. pending s' (SetService r v p))) \<and>
     ((\<exists>p. r \<in> pn_rids (g_proxynames (cn_state s')) p) \<or> (\<exists>p. pending s' (SetProxyname p r)))"
    (is "?conn \<and> ?svc \<and> ?pn")
  proof (cases "\<exists>tmo. x = SetRequest r (rq_conn ctx) tmo")
    case True
    then obtain tmo where x: "x = SetRequest r (rq_conn ctx) tmo" ..
    from set_request_next [OF assms(1) assms(2) [unfolded x]] obtain q v pl where
      "k = [SetConnection (rq_conn ctx) r, SetService r v pl, SetProxyname q r, HoldChannels True,
        WakeChannel q, HoldChannels False]" by blast
    then have "pending s' (SetConnection (rq_conn ctx) r)" "pending s' (SetService r v pl)"
      "pending s' (SetProxyname q r)"
      using p(4) by (auto simp: pending_def intro!: exI [of _ t])
    then show ?thesis by blast
  next
    case False
    with e(2) [OF stored] obtain ctx0 where old: "ht_lookup (g_requests (cn_state s)) r = Some ctx0"
      "rq_conn ctx0 = rq_conn ctx" "x \<noteq> RemoveRequest r" by blast
    then have "r \<notin> gone s" by (simp add: gone_def)
    with safe have x: "x \<noteq> DropConnection r" "x \<noteq> RemoveService r" "\<And>q. x \<noteq> DropProxyname q r"
        "\<And>ps. x \<noteq> TryDrop r ps" by auto
    have x': "x \<noteq> RemoveConnection (rq_conn ctx)"
    proof
      assume x: "x = RemoveConnection (rq_conn ctx)"
      with safe p(1) have ops: "cn_ops s t = [RemoveConnection (rq_conn ctx)]" by simp
      with inv(6) old have "RemoveRequest r \<in> set (cn_ops s t)"
        unfolding closing_ok_def by (metis list.set_intros(1))
      with ops show False by simp
    qed
    note stays = pending_after(2) [OF assms(2)]
    from inv(2) old have "r \<in> set (conn_rids (g_connections (cn_state s)) (rq_conn ctx)) \<or>
        pending s (SetConnection (rq_conn ctx) r)"
      "ht_lookup (g_services (cn_state s)) r \<noteq> None \<or> (\<exists>v p. pending s (SetService r v p))"
      "(\<exists>p. r \<in> pn_rids (g_proxynames (cn_state s)) p) \<or> (\<exists>p. pending s (SetProxyname p r))"
      unfolding requests_complete_def by fastforce+
    with e(3-5) x x' stays show ?thesis by (intro conjI; metis)
  qed
qed

lemma performs_inv:
  assumes "conc_inv s" "performs s t x k new s'"
  shows "conc_inv s'"
  using op_effectD(1) [OF performsD(2) [OF assms(2)]] complete_performs [OF assms] storing_performs [OF assms]
    used_performs [OF assms] drops_performs [OF assms] closing_performs [OF assms] forgotten_performs [OF assms]
  by (simp add: conc_inv_def)

lemma skip_inv:
  assumes "conc_inv s" "cn_ops s t = x # k" "\<And>st. tables_ok st \<Longrightarrow> op_effect x st [] st"
  shows "conc_inv (begins t k s)"
  using assms conc_invD(1) [OF assms(1)]
  by (intro performs_inv [OF assms(1), of t x k "[]"]) (simp add: performs_def begins_def generated_def)

section \<open>Every reachable state\<close>

lemma conc_inv_step:
  assumes "conc_inv s" "conc_step s s'"
  shows "conc_inv s'"
proof -
  note inv = conc_invD [OF assms(1)]
  have begins: "conc_inv (begins t j s)"
    if "cn_ops s t = []" "ids_of j \<subseteq> known (cn_state s)" "\<And>G. safe_ops G j"
      "\<And>r c tmo. SetRequest r c tmo \<notin> set j" "\<And>c r. SetConnection c r \<notin> set j"
      "\<And>c. RemoveConnection c \<notin> set j" "\<And>c. DupRequests c \<notin> set j" for t j
    using conc_inv_begins [OF assms(1), of t j "cn_closed s"] that by (simp add: begins_def)
  show ?thesis
    using assms(2)
  proof cases
    case (close t c)
    show ?thesis unfolding close(1)
      by (rule conc_inv_begins [OF assms(1)]) (use close in \<open>auto simp: pending_def\<close>)
  next
    case (operation t x k w l' new st')
    have "op_effect x (cn_state s) new st'"
      using do_op_effect operation(3,4) inv(1) by blast
    with operation show ?thesis
      by (intro performs_inv [OF assms(1), of t x k new]) (simp add: performs_def)
  next
    case (not_acknowledged t p r k)
    with skip_inv [OF assms(1) _ skip_effect(1)] show ?thesis by simp
  next
    case (not_posted t p r x k)
    from skip_inv [OF assms(1) not_posted(2) skip_effect(2)]
    have "conc_inv (begins t (MarkSent p r # k) s)" .
    from skip_inv [OF this _ skip_effect(1), of t] have "conc_inv (begins t k (begins t (MarkSent p r # k) s))"
      by (simp add: begins_def)
    with not_posted show ?thesis by (simp add: begins_def)
  qed (use assms(1) in \<open>auto intro!: conc_inv_message conc_inv_tables begins simp: job_ids job_ops_safe
      intro: knownI simp: reply_ops_def purge_ops_def Let_def\<close>)
qed

interpretation races: invariant_system conc_init conc_step conc_inv
  by unfold_locales (auto intro: conc_inv_init conc_inv_step)

end
