(* ===== verification/Table_Runs.thy ===== *)
theory Table_Runs
  imports Table_Interleaving
begin

text \<open>
  What every interleaving of the operations on the client tables keeps, and one that writes to a connection
  after its end.
\<close>

section \<open>Handlers that run without others in between\<close>

definition cut_off :: "concurrent \<Rightarrow> nat \<Rightarrow> handler_local \<times> table_op list \<times> gonggo \<Rightarrow> concurrent" where
  "cut_off s t a =
     s\<lparr>cn_state := snd (snd a), cn_local := (cn_local s)(t := fst a), cn_ops := (cn_ops s)(t := fst (snd a))\<rparr>"

lemma no_channels:
  assumes "do_op w x l st = (l', new, st')" "g_channels st = []"
  shows "generated new = {} \<and> g_channels st' = []"
proof -
  have none: "proxy_channel_thread_table_get p [] = None" for p
    by (simp add: proxy_channel_thread_table_get_def)
  show ?thesis
    using assms none
    by (cases "(w, x, l, st)" rule: do_op.cases)
      (auto split: option.splits if_splits simp: generated_def expire_ops_def close_ops_def forget_ops_def Let_def
        g_db_insert_def)
qed

lemma alone_in_turn:
  assumes "alone w a b" "world_ok w" "g_channels (snd (snd a)) = []"
  shows "conc_step\<^sup>*\<^sup>* (cut_off s t a) (cut_off s t b)"
  using assms
proof (induction rule: runs.induct)
  case (step x l st l' new st' k b)
  have "conc_step (cut_off s t (l, x # k, st)) (cut_off s t (l', new @ k, st'))"
    using conc_step.operation [of "cut_off s t (l, x # k, st)" t x k w l' new st'] step
      no_channels [OF step.hyps(1)]
    by (simp add: cut_off_def)
  with step no_channels [OF step.hyps(1)] show ?case
    by (auto intro: converse_rtranclp_into_rtranclp)
qed simp

lemma in_turn:
  assumes "conc_step s (begins t ops s)" "alone w (cn_local s t, ops, cn_state s) b" "world_ok w"
    "g_channels (cn_state s) = []"
  shows "conc_step\<^sup>*\<^sup>* s (cut_off s t b)"
proof -
  have "begins t ops s = cut_off s t (cn_local s t, ops, cn_state s)"
    by (simp add: begins_def cut_off_def)
  with assms(1) alone_in_turn [OF assms(2,3), of s t] assms(4) show ?thesis
    by (auto intro: converse_rtranclp_into_rtranclp)
qed

text \<open>A run in which a client sends a request.\<close>

definition conc_start :: concurrent where
  "conc_start = \<lparr>cn_state = initial_gonggo ''gonggo'', cn_local = \<lambda>_. no_local, cn_ops = \<lambda>_. [], cn_used = {},
     cn_closed = {}\<rparr>"

definition one_request :: "world \<Rightarrow> conn \<Rightarrow> uuid \<Rightarrow> pname \<Rightarrow> concurrent" where
  "one_request w c r p = conc_start\<lparr>cn_state := route_save w c r p ''svc'' None 1 (initial_gonggo ''gonggo''),
     cn_used := {r}\<rparr>"

lemma const_upd [simp]: "(\<lambda>_. a)(t := a) = (\<lambda>_. a)"
  by (rule fun_upd_idem) simp

lemma conc_start_init: "conc_init conc_start"
  by (simp add: conc_start_def conc_init_def initial_gonggo_def)

lemma one_request_reachable:
  assumes "world_ok w" "length r < UUIDBUFLEN"
  shows "conc_step\<^sup>*\<^sup>* conc_start (one_request w c r p)"
proof -
  let ?j = "route_ops c r p ''svc'' None 1" and ?st = "initial_gonggo ''gonggo''"
  let ?s = "conc_start\<lparr>cn_used := {r}\<rparr>"
  have "conc_step conc_start (cut_off ?s 0 (no_local, ?j, ?st))"
    using conc_step.message [of conc_start 0 r c p "''svc''" None 1]
    assms(2) by (simp add: conc_start_def begins_def cut_off_def)
  moreover have "finishes w no_local ?j ?st no_local (route_save w c r p ''svc'' None 1 ?st)"
    by (simp add: route_alone)
  from alone_in_turn [OF this assms(1), of ?s 0]
  have "conc_step\<^sup>*\<^sup>* (cut_off ?s 0 (no_local, ?j, ?st)) (one_request w c r p)"
    by (simp add: initial_gonggo_def cut_off_def one_request_def conc_start_def)
  ultimately show ?thesis by (rule converse_rtranclp_into_rtranclp)
qed

section \<open>What every interleaving keeps\<close>

text \<open>C2: whatever the order in which the threads do their operations on the tables, a stored request is in
  the array of its connection, has its text and is queued at a proxy, or the thread that stores it is still
  to do that; so whenever no thread is inside a handler, the tables are linked as they are after handlers that
  run one at a time.  It needs every thread that forgets a request to remove it from the request table
  before its other entries.\<close>

theorem interleaved_requests_stay_complete:
  assumes "conc_init s0" "conc_step\<^sup>*\<^sup>* s0 s"
  shows "(\<forall>r ctx. ht_lookup (g_requests (cn_state s)) r = Some ctx \<longrightarrow>
     (r \<in> set (conn_rids (g_connections (cn_state s)) (rq_conn ctx)) \<or> pending s (SetConnection (rq_conn ctx) r)) \<and>
     (ht_lookup (g_services (cn_state s)) r \<noteq> None \<or> (\<exists>v pl. pending s (SetService r v pl))) \<and>
     ((\<exists>p. r \<in> pn_rids (g_proxynames (cn_state s)) p) \<or> (\<exists>p. pending s (SetProxyname p r)))) \<and>
   ((\<forall>t. cn_ops s t = []) \<longrightarrow> tables_linked (cn_state s))"
proof -
  note inv = conc_invD [OF races.inv_reachable [OF assms]]
  from inv(2) have "tables_linked (cn_state s)" if "\<forall>t. cn_ops s t = []"
    using that inv(1) unfolding requests_complete_def tables_linked_def linked_def tables_ok_def pending_def
    by auto
  with inv(2) show ?thesis unfolding requests_complete_def by blast
qed

theorem interleaved_requests_stay_complete_witness:
  "let s = one_request (sample_world (\<lambda>_. None) (\<lambda>_. [])) 7 ''r'' ''p'' in
   ''r'' \<in> set (conn_rids (g_connections (cn_state s)) 7) \<and> tables_linked (cn_state s)"
proof -
  let ?s = "one_request (sample_world (\<lambda>_. None) (\<lambda>_. [])) 7 ''r'' ''p''"
  have "ht_lookup (g_requests (cn_state ?s)) ''r'' \<noteq> None" "\<And>t. cn_ops ?s t = []"
    by (simp_all add: one_request_def conc_start_def route_save_def initial_gonggo_def Let_def
        split: option.splits)
  with interleaved_requests_stay_complete [OF conc_start_init one_request_reachable, of _ "''r''" 7 "''p''"]
  have "tables_linked (cn_state ?s)" by (simp add: UUIDBUFLEN_def)
  moreover have "''r'' \<in> set (conn_rids (g_connections (cn_state ?s)) 7)"
    by (simp add: one_request_def conc_start_def route_save_def initial_gonggo_def Let_def set_array_add
        split: option.splits)
  ultimately show ?thesis by (simp add: Let_def)
qed



text \<open>C8: whatever the order of the operations, once the close handler of a connection has done its last
  operation no stored request belongs to the connection and the connection table has no array for it, also
  if messages of other connections were being stored or answers were being sent while it ran.\<close>

theorem interleaved_close_forgets_connection:
  assumes "conc_init s0" "conc_step\<^sup>*\<^sup>* s0 s" "c \<in> cn_closed s"
    and "\<not> pending s (DupRequests c)" "\<not> pending s (RemoveConnection c)"
  shows "ht_lookup (g_connections (cn_state s)) c = None \<and>
    (\<forall>r ctx. ht_lookup (g_requests (cn_state s)) r = Some ctx \<longrightarrow> rq_conn ctx \<noteq> c)"
proof -
  note inv = conc_invD [OF races.inv_reachable [OF assms(1,2)]]
  from inv(7) assms(3-5) have "conn_rids (g_connections (cn_state s)) c = []"
    "\<forall>r ctx. ht_lookup (g_requests (cn_state s)) r = Some ctx \<longrightarrow> rq_conn ctx \<noteq> c"
    unfolding closed_forgotten_def by blast+
  with inv(1) show ?thesis
    by (auto simp: tables_ok_def connection_ok_def conn_rids_def split: option.splits)
qed

text \<open>A run in which a client sends a request and disconnects.\<close>

lemma closed_run:
  fixes p :: pname and r :: uuid
  assumes "world_ok w" "length r < UUIDBUFLEN"
  shows "\<exists>s. conc_step\<^sup>*\<^sup>* conc_start s \<and> cn_ops s = (\<lambda>_. []) \<and> cn_closed s = {c}"
proof -
  let ?s = "one_request w c r p"
  let ?s' = "?s\<lparr>cn_closed := {c}\<rparr>"
  have "conc_step ?s (cut_off ?s' 0 (no_local, [DupRequests c], cn_state ?s))"
  proof -
    have "(begins 0 [DupRequests c] ?s)\<lparr>cn_closed := insert c (cn_closed ?s)\<rparr> =
        cut_off ?s' 0 (no_local, [DupRequests c], cn_state ?s)"
      by (simp add: one_request_def conc_start_def cut_off_def begins_def fun_eq_iff)
    then show ?thesis
      using conc_step.close [of ?s 0 c] by (simp add: one_request_def conc_start_def)
  qed
  moreover obtain l where
    "finishes w no_local [DupRequests c] (cn_state ?s) l (client_service_drop_conn w c (cn_state ?s))"
    using close_alone by blast
  from alone_in_turn [OF this assms(1), of ?s' 0] have
    "conc_step\<^sup>*\<^sup>* (cut_off ?s' 0 (no_local, [DupRequests c], cn_state ?s))
      (cut_off ?s' 0 (l, [], client_service_drop_conn w c (cn_state ?s)))"
    by (simp add: one_request_def conc_start_def route_save_def initial_gonggo_def Let_def split: option.splits)
  ultimately have "conc_step\<^sup>*\<^sup>* conc_start (cut_off ?s' 0 (l, [], client_service_drop_conn w c (cn_state ?s)))"
    using one_request_reachable [OF assms, of c p] by (meson converse_rtranclp_into_rtranclp rtranclp_trans)
  then show ?thesis by (intro exI conjI) (assumption | simp add: cut_off_def one_request_def conc_start_def)+
qed

theorem interleaved_close_forgets_connection_witness:
  "\<exists>s. conc_step\<^sup>*\<^sup>* conc_start s \<and> 7 \<in> cn_closed s \<and> ht_lookup (g_connections (cn_state s)) 7 = None"
proof -
  obtain s where s: "conc_step\<^sup>*\<^sup>* conc_start s" "cn_ops s = (\<lambda>_. [])" "cn_closed s = {7}"
    using closed_run [OF sample_world_ok, of "''r''" 7] by (auto simp: UUIDBUFLEN_def)
  with interleaved_close_forgets_connection [OF conc_start_init s(1), of 7] show ?thesis
    by (auto simp: pending_def)
qed

section \<open>A reply after the close\<close>

lemma dup_unsent_new:
  "client_proxyname_table_request_dup p True (client_proxyname_table_set p r []) = Some [r]"
  by (simp add: client_proxyname_table_request_dup_def client_proxyname_table_set_def)

lemma exchange_run:
  assumes "world_ok w"
  shows "\<exists>st. conc_step\<^sup>*\<^sup>* (one_request w c r p) ((one_request w c r p)\<lparr>cn_state := st\<rparr>) \<and>
     was_handed st r \<and> g_channels st = [] \<and>
     g_requests st = g_requests (cn_state (one_request w c r p)) \<and>
     g_sent st = g_sent (cn_state (one_request w c r p))"
proof -
  let ?s = "one_request w c r p"
  have begins: "conc_step ?s (begins 0 [ListUnsent p] ?s)"
    by (rule conc_step.exchange) (simp add: one_request_def conc_start_def)
  have tables: "client_proxyname_table_request_dup p True (g_proxynames (cn_state ?s)) = Some [r]"
    "client_service_table_dup r (g_services (cn_state ?s)) \<noteq> None" "g_channels (cn_state ?s) = []"
    by (auto simp: one_request_def conc_start_def route_save_def initial_gonggo_def Let_def dup_unsent_new
        client_service_table_dup_def split: option.splits)
  then obtain v where v: "client_service_table_dup r (g_services (cn_state ?s)) = Some v" by blast
  let ?st = "on_proxynames (client_proxyname_table_request_sent p r)
    ((cn_state ?s)\<lparr>g_handed := g_handed (cn_state ?s) @ [(p, r, v)]\<rparr>)"
  have "finishes w no_local [ListUnsent p] (cn_state ?s) no_local ?st"
    using tables(1) v by (simp add: finishes_Cons)
  with in_turn [OF begins, of w] assms tables(3)
  have "conc_step\<^sup>*\<^sup>* ?s (cut_off ?s 0 (no_local, [], ?st))"
    by (simp add: one_request_def conc_start_def)
  moreover have "cut_off ?s 0 (no_local, [], ?st) = ?s\<lparr>cn_state := ?st\<rparr>"
    by (simp add: cut_off_def one_request_def conc_start_def)
  ultimately show ?thesis using tables(3) by (intro exI [of _ ?st]) (auto simp: was_handed_def)
qed

text \<open>The subscribe thread, up to the write.\<close>

lemma reply_started:
  assumes "ht_lookup (g_requests st) r = Some ctx" "0 < length r"
  shows "\<exists>m st'. alone w (no_local, reply_ops w p r h pl False, st)
     (no_local\<lparr>hl_conn := Some (rq_conn ctx)\<rparr>, [WriteReply m], st') \<and>
     g_channels st' = g_channels st"
proof -
  let ?m = "cJSON_PrintUnformatted (w_json w) (service_reply_tree (w_json w) r h pl)"
  let ?l = "no_local\<lparr>hl_conn := Some (rq_conn ctx)\<rparr>"
  let ?a = "on_requests (\<lambda>t. snd (client_request_table_get_conn (w_now w) r True False t)) st"
  have get: "do_op w (GetConn r True False) no_local st = (?l, [], ?a)" using assms(1) by simp
  have insert: "do_op w (InsertResponse r ?m) ?l ?a = (?l, [], g_db_insert w r ?m ?a)" by simp
  have "alone w (no_local, reply_ops w p r h pl False, st) (?l, [WriteReply ?m], g_db_insert w r ?m ?a)"
    using alone_step [OF get, of "[InsertResponse r ?m, WriteReply ?m]"]
      alone_step [OF insert, of "[WriteReply ?m]"] alone_stop assms(2)
    by (simp add: reply_ops_def Let_def)
  moreover have "g_channels (g_db_insert w r ?m ?a) = g_channels st" by simp
  ultimately show ?thesis by blast
qed

lemma write_done:
  assumes "cn_ops s t = WriteReply m # k" "hl_conn (cn_local s t) = Some c" "world_ok w"
  shows "\<exists>s'. conc_step s s' \<and> g_sent (cn_state s') = g_sent (cn_state s) @ [(c, m)]"
proof -
  have "do_op w (WriteReply m) (cn_local s t) (cn_state s) =
      (cn_local s t, [], mg_websocket_write c m (cn_state s))"
    using assms(2) by simp
  from conc_step.operation [OF assms(1,3) this] show ?thesis
    by (intro exI conjI) (assumption | simp add: generated_def)+
qed

text \<open>C26: a reply is written to a connection after its close handler has returned: between looking the
  connection up and writing to it the subscribe thread holds no lock that would keep the close handler of the
  web server out.  For any connection, request and proxy there is a run in which the only operation left
  is that write, the connection is closed and no table has it, and the write is done.\<close>

theorem reply_is_written_to_closed_connection:
  "\<exists>w s0 s s' t m. world_ok w \<and> conc_init s0 \<and> conc_step\<^sup>*\<^sup>* s0 s \<and> conc_step s s' \<and>
     cn_ops s = (\<lambda>_. [])(t := [WriteReply m]) \<and> c \<in> cn_closed s \<and>
     ht_lookup (g_connections (cn_state s)) c = None \<and>
     g_sent (cn_state s') = g_sent (cn_state s) @ [(c, m)]"
proof -
  let ?w = "sample_world (\<lambda>_. None) (\<lambda>_. [])" and ?s1 = "one_request (sample_world (\<lambda>_. None) (\<lambda>_. [])) c ''r'' ''p''"
  have w: "world_ok ?w" by simp
  obtain st2 where r2: "conc_step\<^sup>*\<^sup>* ?s1 (?s1\<lparr>cn_state := st2\<rparr>)" and st2: "was_handed st2 ''r''"
      "g_channels st2 = []" "g_requests st2 = g_requests (cn_state ?s1)"
    using exchange_run [OF w] by blast
  let ?s2 = "?s1\<lparr>cn_state := st2\<rparr>"
  have "\<exists>ctx. ht_lookup (g_requests st2) ''r'' = Some ctx \<and> rq_conn ctx = c"
    using st2(3) by (simp add: one_request_def conc_start_def route_save_def initial_gonggo_def Let_def
        split: option.splits)
  then obtain m st3 where reply: "alone ?w (no_local, reply_ops ?w ''p'' ''r'' (JObject []) None False, st2)
      (no_local\<lparr>hl_conn := Some c\<rparr>, [WriteReply m], st3)" and ch3: "g_channels st3 = []"
    using reply_started [of st2 "''r''"] st2(2) by fastforce
  let ?s3 = "cut_off ?s2 1 (no_local\<lparr>hl_conn := Some c\<rparr>, [WriteReply m], st3)"
  have "conc_step ?s2 (begins 1 (reply_ops ?w ''p'' ''r'' (JObject []) None False) ?s2)"
    using st2(1) by (intro conc_step.reply) (simp_all add: one_request_def conc_start_def)
  from in_turn [OF this _ w] reply st2(2) have r3: "conc_step\<^sup>*\<^sup>* ?s2 ?s3"
    by (simp add: one_request_def conc_start_def)
  let ?s3' = "?s3\<lparr>cn_closed := {c}\<rparr>"
  have c3: "conc_step ?s3 (cut_off ?s3' 0 (no_local, [DupRequests c], st3))"
  proof -
    have "(begins 0 [DupRequests c] ?s3)\<lparr>cn_closed := insert c (cn_closed ?s3)\<rparr> =
        cut_off ?s3' 0 (no_local, [DupRequests c], st3)"
      by (simp add: one_request_def conc_start_def cut_off_def begins_def fun_eq_iff)
    then show ?thesis
      using conc_step.close [of ?s3 0 c] by (simp add: one_request_def conc_start_def cut_off_def)
  qed
  obtain l where drop: "finishes ?w no_local [DupRequests c] st3 l (client_service_drop_conn ?w c st3)"
    using close_alone by blast
  let ?s = "cut_off ?s3' 0 (l, [], client_service_drop_conn ?w c st3)"
  have r4: "conc_step\<^sup>*\<^sup>* (cut_off ?s3' 0 (no_local, [DupRequests c], st3)) ?s"
    using alone_in_turn [OF drop w] ch3 by simp
  have run: "conc_step\<^sup>*\<^sup>* conc_start ?s"
    using one_request_reachable [OF w, of "''r''" c "''p''"] r2 r3 c3 r4
    unfolding UUIDBUFLEN_def by simp
  have ops: "cn_ops ?s = (\<lambda>_. [])(1 := [WriteReply m])" "hl_conn (cn_local ?s 1) = Some c"
    by (auto simp: cut_off_def one_request_def conc_start_def)
  then obtain s' where "conc_step ?s s'" "g_sent (cn_state s') = g_sent (cn_state ?s) @ [(c, m)]"
    using write_done [OF _ _ w, of ?s 1 m "[]" c] by fastforce
  moreover have "ht_lookup (g_connections (cn_state ?s)) c = None"
    by (simp add: cut_off_def drop_conn_connections client_connection_table_remove_def)
  moreover have "c \<in> cn_closed ?s" by (simp add: cut_off_def)
  ultimately show ?thesis using w conc_start_init run ops(1) by blast
qed

end
