(* ===== verification/Table_Exchange.thy ===== *)
theory Table_Exchange
  imports Table_Runs Channel_Guarantees
begin

text \<open>
  The exchange of a channel thread is a run of its operations in the interleaved system: the waits for the
  proxy, which \<open>Proxy_Channel\<close> models, change no client table.
\<close>

lemma same_client_tables_refl [simp]: "same_client_tables st st"
  by (simp add: same_client_tables_def)

text \<open>What one request of an exchange that goes on leaves in the client tables.\<close>

lemma exchange_step_tables:
  assumes "exchange_loop w ctx (r # rs) events st = Done (True, ctx', events', st')"
    and "ht_lookup (g_services st) r = Some body" "\<forall>e \<in> set events. ce_env e = id"
  shows "\<exists>ctx3 events2 st4. exchange_loop w ctx3 rs events2 st4 = Done (True, ctx', events', st') \<and>
    (\<forall>e \<in> set events2. ce_env e = id) \<and> cc_proxy_name ctx3 = cc_proxy_name ctx \<and>
    (same_client_tables st4 st \<or>
     same_client_tables st4 (st\<lparr>g_handed := g_handed st @ [(cc_proxy_name ctx, r, body)]\<rparr>) \<or>
     same_client_tables st4 (st\<lparr>g_handed := g_handed st @ [(cc_proxy_name ctx, r, body)],
       g_proxynames := client_proxyname_table_request_sent (cc_proxy_name ctx) r (g_proxynames st)\<rparr>))"
proof -
  obtain idle ctx1 events1 st1 where
    i: "proxy_channel_idle_wait ctx events st = Done (idle, ctx1, events1, st1)"
    using assms(1,2) by (cases "proxy_channel_idle_wait ctx events st") auto
  note fr = idle_wait_frame [OF i assms(3)]
  have idle
  proof (rule ccontr)
    assume "\<not> idle"
    with assms(1,2) i show False by simp
  qed
  have env1: "\<forall>e \<in> set events1. ce_env e = id" using assms(3) fr(3) by blast
  obtain len st2 where c: "proxy_channel_create_request w (payload_path r) body st = (len, st2)"
    by fastforce
  have cf: "same_client_tables st2 st" using c
    by (auto simp: proxy_channel_create_request_def same_client_tables_def split: if_splits)
  show ?thesis
  proof (cases "len < 1")
    case True
    with assms(1,2) i c fr(1) \<open>idle\<close> have "exchange_loop w
        (shm_unlock (ctx1\<lparr>cc_shm := (cc_shm ctx1)\<lparr>cs_payload_buff_length := len\<rparr>\<rparr>)) rs events1 st2 =
        Done (True, ctx', events', st')" by simp
    with env1 cf fr(2) show ?thesis by (intro exI conjI) (assumption | simp)+
  next
    case False
    obtain ctx2 st3 where p: "post_request r body len ctx1 st2 = (ctx2, st3)" by fastforce
    have pf: "same_client_tables st3 (st\<lparr>g_handed := g_handed st @ [(cc_proxy_name ctx, r, body)]\<rparr>)"
      "cc_proxy_name ctx2 = cc_proxy_name ctx"
      using p cf fr(2) by (auto simp: post_request_def same_client_tables_def)
    from assms(1,2) i c p fr(1) False \<open>idle\<close> obtain e events2 where ev: "events1 = e # events2"
      by (cases events1) auto
    obtain a ctx3 st4 where ar: "after_request r e ctx2 st3 = (a, ctx3, st4)"
      by (cases "after_request r e ctx2 st3") auto
    have "exchange_loop w ctx3 rs events2 st4 = Done (True, ctx', events', st')"
      using assms(1,2) i \<open>idle\<close> c p fr(1) False ev ar by (simp split: if_splits)
    moreover have "\<forall>e \<in> set events2. ce_env e = id" "ce_env e = id" using env1 ev by auto
    moreover from this(2) have "cc_proxy_name ctx3 = cc_proxy_name ctx"
      "same_client_tables st4 st3 \<or> same_client_tables st4 (st3\<lparr>g_proxynames :=
         client_proxyname_table_request_sent (cc_proxy_name ctx) r (g_proxynames st3)\<rparr>)"
      using ar pf(2) by (auto simp: after_request_def Let_def shm_unlink_def same_client_tables_def
          split: if_splits)
    ultimately show ?thesis using pf(1)
      by (intro exI [of _ ctx3] exI [of _ events2] exI [of _ st4]) (auto simp: same_client_tables_def)
  qed
qed

section \<open>The run\<close>

text \<open>Thread \<open>t\<close> gets, alone, to the operations \<open>k\<close> and the tables of \<open>st\<close>.\<close>

definition reaches :: "concurrent \<Rightarrow> nat \<Rightarrow> table_op list \<Rightarrow> gonggo \<Rightarrow> bool" where
  "reaches s t k st \<longleftrightarrow> (\<exists>s'. conc_step\<^sup>*\<^sup>* s s' \<and> cn_ops s' = (cn_ops s)(t := k) \<and> cn_used s' = cn_used s \<and>
     cn_closed s' = cn_closed s \<and> same_client_tables (cn_state s') st)"

lemma reaches_step:
  assumes "conc_step s s1" "cn_ops s1 = (cn_ops s)(t := k1)" "cn_used s1 = cn_used s" "cn_closed s1 = cn_closed s"
    and "reaches s1 t k st"
  shows "reaches s t k st"
proof -
  from assms(5) obtain s' where "conc_step\<^sup>*\<^sup>* s1 s'" "cn_ops s' = (cn_ops s1)(t := k)" "cn_used s' = cn_used s1"
    "cn_closed s' = cn_closed s1" "same_client_tables (cn_state s') st" by (auto simp: reaches_def)
  with assms(1-4) show ?thesis
    unfolding reaches_def by (intro exI [of _ s']) (auto intro: converse_rtranclp_into_rtranclp)
qed

lemma reaches_op:
  assumes "cn_ops s t = x # k" "world_ok w" "do_op w x (cn_local s t) (cn_state s) = (l', new, st1)"
    and "generated new = {}" "reaches (cut_off s t (l', new @ k, st1)) t k2 st"
  shows "reaches s t k2 st"
proof (rule reaches_step [OF _ _ _ _ assms(5)])
  show "conc_step s (cut_off s t (l', new @ k, st1))"
    using conc_step.operation [OF assms(1,2,3)] assms(4) by (simp add: cut_off_def)
qed (simp_all add: cut_off_def)

lemma reaches_skip:
  "conc_step s (begins t k s) \<Longrightarrow> reaches (begins t k s) t k2 st \<Longrightarrow> reaches s t k2 st"
  by (rule reaches_step) (simp_all add: begins_def)

lemma exchange_loop_reaches:
  assumes "exchange_loop w ctx rs events st = Done (True, ctx', events', st')"
    and "\<forall>e \<in> set events. ce_env e = id" "world_ok w"
    and "same_client_tables (cn_state s) st" "cn_ops s t = map (HandOver (cc_proxy_name ctx)) rs"
  shows "reaches s t [] st'"
  using assms(1,2,4,5)
proof (induction rs arbitrary: ctx events st s)
  case Nil
  then show ?case by (auto simp: reaches_def intro!: exI [of _ s])
next
  case (Cons r rs)
  let ?p = "cc_proxy_name ctx" and ?st = "cn_state s"
  have ops: "cn_ops s t = HandOver ?p r # map (HandOver ?p) rs" using Cons.prems(4) by simp
  have svc: "client_service_table_dup r (g_services ?st) = ht_lookup (g_services st) r"
    using Cons.prems(3) by (simp add: same_client_tables_def service_dup_eq)
  show ?case
  proof (cases "ht_lookup (g_services st) r")
    case None
    let ?s1 = "cut_off s t (cn_local s t, [] @ map (HandOver ?p) rs, ?st)"
    from None Cons.prems(1) have "exchange_loop w ctx rs events st = Done (True, ctx', events', st')"
      by (simp add: service_dup_eq)
    then have "reaches ?s1 t [] st'"
      by (rule Cons.IH) (use Cons.prems in \<open>simp_all add: cut_off_def\<close>)
    then show ?thesis
      by (intro reaches_op [OF ops assms(3), of "cn_local s t" "[]"]) (use None svc in \<open>simp_all add: generated_def\<close>)
  next
    case (Some body)
    from exchange_step_tables [OF Cons.prems(1) Some Cons.prems(2)] obtain ctx3 events2 st4 where
      rest: "exchange_loop w ctx3 rs events2 st4 = Done (True, ctx', events', st')"
        "\<forall>e \<in> set events2. ce_env e = id" and p3: "cc_proxy_name ctx3 = ?p"
      and st4: "same_client_tables st4 st \<or>
        same_client_tables st4 (st\<lparr>g_handed := g_handed st @ [(?p, r, body)]\<rparr>) \<or>
        same_client_tables st4 (st\<lparr>g_handed := g_handed st @ [(?p, r, body)],
          g_proxynames := client_proxyname_table_request_sent ?p r (g_proxynames st)\<rparr>)" by blast
    note IH = Cons.IH [OF rest]
    let ?k = "map (HandOver ?p) rs"
    let ?s1 = "cut_off s t (cn_local s t, [PostRequest ?p r body, MarkSent ?p r] @ ?k, ?st)"
    have o1: "cn_ops ?s1 t = PostRequest ?p r body # MarkSent ?p r # ?k" by (simp add: cut_off_def)
    let ?st2 = "(cn_state ?s1)\<lparr>g_handed := g_handed (cn_state ?s1) @ [(?p, r, body)]\<rparr>"
    let ?s2 = "cut_off ?s1 t (cn_local ?s1 t, [] @ MarkSent ?p r # ?k, ?st2)"
    have o2: "cn_ops ?s2 t = MarkSent ?p r # ?k" by (simp add: cut_off_def)
    have "reaches ?s1 t [] st'"
      using st4
    proof (elim disjE)
      assume "same_client_tables st4 st"
      then have "reaches (begins t ?k ?s1) t [] st'"
        by (intro IH) (use Cons.prems(3) p3 in \<open>simp_all add: begins_def cut_off_def same_client_tables_def\<close>)
      with conc_step.not_posted [OF o1] show ?thesis by (rule reaches_skip)
    next
      assume "same_client_tables st4 (st\<lparr>g_handed := g_handed st @ [(?p, r, body)]\<rparr>)"
      then have "reaches (begins t ?k ?s2) t [] st'"
        by (intro IH) (use Cons.prems(3) p3 in \<open>simp_all add: begins_def cut_off_def same_client_tables_def\<close>)
      with conc_step.not_acknowledged [OF o2] have "reaches ?s2 t [] st'" by (rule reaches_skip)
      then show ?thesis
        by (intro reaches_op [OF o1 assms(3), of "cn_local ?s1 t" "[]"]) (simp_all add: generated_def)
    next
      let ?st3 = "on_proxynames (client_proxyname_table_request_sent ?p r) (cn_state ?s2)"
      let ?s3 = "cut_off ?s2 t (cn_local ?s2 t, [] @ ?k, ?st3)"
      assume "same_client_tables st4 (st\<lparr>g_handed := g_handed st @ [(?p, r, body)],
          g_proxynames := client_proxyname_table_request_sent ?p r (g_proxynames st)\<rparr>)"
      then have "reaches ?s3 t [] st'"
        by (intro IH) (use Cons.prems(3) p3 in \<open>simp_all add: cut_off_def same_client_tables_def\<close>)
      then have "reaches ?s2 t [] st'"
        by (intro reaches_op [OF o2 assms(3), of "cn_local ?s2 t" "[]"]) (simp_all add: generated_def)
      then show ?thesis
        by (intro reaches_op [OF o1 assms(3), of "cn_local ?s1 t" "[]"]) (simp_all add: generated_def)
    qed
    then show ?thesis
      by (intro reaches_op [OF ops assms(3), of "cn_local s t" "[PostRequest ?p r body, MarkSent ?p r]"])
        (use Some svc in \<open>simp_all add: generated_def\<close>)
  qed
qed

text \<open>An exchange that the proxy lives through is a run of the thread's operations in the interleaved system.\<close>

lemma exchange_is_a_run:
  assumes "proxy_channel_exchange w ctx events (cn_state s) = Done (True, ctx', events', st')"
    and "\<forall>e \<in> set events. ce_env e = id" "world_ok w" "cn_ops s t = []"
  shows "reaches s t [] st'"
proof (rule reaches_skip)
  let ?p = "cc_proxy_name ctx"
  show "conc_step s (begins t [ListUnsent ?p] s)" by (rule conc_step.exchange) fact
  let ?s = "begins t [ListUnsent ?p] s"
  have ops: "cn_ops ?s t = ListUnsent ?p # []" and state: "cn_state ?s = cn_state s"
    by (simp_all add: begins_def)
  show "reaches ?s t [] st'"
  proof (cases "client_proxyname_table_request_dup ?p True (g_proxynames (cn_state s))")
    case None
    with assms(1) have "reaches (cut_off ?s t (cn_local ?s t, [] @ [], cn_state ?s)) t [] st'"
      by (auto simp: proxy_channel_exchange_def state reaches_def cut_off_def begins_def)
    then show ?thesis
      by (intro reaches_op [OF ops assms(3), of "cn_local ?s t" "[]"]) (simp_all add: None state generated_def)
  next
    case (Some arr)
    with assms(1) have loop: "exchange_loop w ctx arr events (cn_state s) = Done (True, ctx', events', st')"
      by (simp add: proxy_channel_exchange_def)
    have "reaches (cut_off ?s t (cn_local ?s t, map (HandOver ?p) arr @ [], cn_state ?s)) t [] st'"
      by (rule exchange_loop_reaches [OF loop assms(2,3)]) (simp_all add: cut_off_def begins_def)
    then show ?thesis
      by (intro reaches_op [OF ops assms(3), of "cn_local ?s t" "map (HandOver ?p) arr"])
        (auto simp: Some state generated_def)
  qed
qed

end
