(* ===== verification/Table_Twice.thy ===== *)
theory Table_Twice
  imports Table_Runs Client_Answers
begin

text \<open>
  A run in which a request is answered by its proxy and, after that, reported as expired.
\<close>

lemma sweep_started:
  fixes w :: world and st :: gonggo
  assumes "client_request_table_expired (w_names w) (w_now w) (g_requests st) = [r]"
    and "ht_lookup (g_requests st) r = Some ctx" "0 < length r"
  defines "m \<equiv> cJSON_PrintUnformatted (w_json w) (expired_reply_tree r)"
  shows "\<exists>st' k. alone w (no_local, [ReadExpired], st)
      (no_local\<lparr>hl_conn := Some (rq_conn ctx)\<rparr>, WriteReply m # k, st') \<and>
    g_channels st' = g_channels st \<and> g_sent st' = g_sent st \<and> g_requests st' = g_requests st \<and>
    g_handed st' = g_handed st"
proof -
  let ?l = "no_local\<lparr>hl_conn := Some (rq_conn ctx)\<rparr>" and ?st = "g_db_insert w r m st"
  let ?k = "[RemoveRequest r, DropConnection r, RemoveService r, DropAll r]"
  have list: "do_op w ReadExpired no_local st = (no_local, expire_ops w r, st)" using assms(1) by simp
  have get: "do_op w (GetConn r False False) no_local st = (?l, [], st)"
    using assms(2) by (simp add: client_request_table_get_conn_def)
  have insert: "do_op w (InsertResponse r m) ?l st = (?l, [], ?st)" by simp
  have "alone w (no_local, [ReadExpired], st) (?l, WriteReply m # ?k, ?st)"
    using alone_step [OF list, of "[]"] alone_step [OF get, of "InsertResponse r m # WriteReply m # ?k"]
      alone_step [OF insert, of "WriteReply m # ?k"] alone_stop assms(3)
    by (simp add: expire_ops_def Let_def m_def)
  then show ?thesis by (intro exI conjI) (assumption | simp)+
qed

text \<open>Between the sweep's lookup of the connection and its write, the subscribe thread answers the request:
  the client gets the answer and, for the same request, the notice that it has expired, and the notice was
  logged before the answer.\<close>

lemma answered_and_expired:
  fixes c :: conn and h :: json and pl :: "json option" and prnt :: "json \<Rightarrow> string"
  defines "J \<equiv> sample_cjson (\<lambda>_. None) prnt"
  shows "\<exists>r s0 s. conc_init s0 \<and> conc_step\<^sup>*\<^sup>* s0 s \<and> g_sent (cn_state s0) = [] \<and>
     g_sent (cn_state s) = [(c, cJSON_PrintUnformatted J (service_reply_tree J r h pl)),
       (c, cJSON_PrintUnformatted J (expired_reply_tree r))]"
proof -
  let ?w = "sample_world (\<lambda>_. None) prnt"
  let ?late = "?w\<lparr>w_now := 5000\<rparr>"
  let ?s1 = "one_request ?w c ''r'' ''p''"
  let ?reply = "cJSON_PrintUnformatted J (service_reply_tree J ''r'' h pl)"
  let ?notice = "cJSON_PrintUnformatted J (expired_reply_tree ''r'')"
  have J: "w_json ?w = J" "w_json ?late = J" by (simp_all add: J_def)
  have w: "world_ok ?w" "world_ok ?late" using sample_world_ok [of "\<lambda>_. None" prnt] by (simp_all add: world_ok_def)
  obtain st2 where r2: "conc_step\<^sup>*\<^sup>* ?s1 (?s1\<lparr>cn_state := st2\<rparr>)" and st2: "was_handed st2 ''r''"
      "g_channels st2 = []" "g_requests st2 = g_requests (cn_state ?s1)" "g_sent st2 = g_sent (cn_state ?s1)"
    using exchange_run [OF w(1)] by blast
  let ?s2 = "?s1\<lparr>cn_state := st2\<rparr>"
  let ?ctx = "\<lparr>rq_conn = c, rq_timestamp = 1000, rq_timeoutsec = 1\<rparr>"
  have s1: "g_requests (cn_state ?s1) = [(''r'', ?ctx)]" "g_sent (cn_state ?s1) = []"
    by (simp_all add: one_request_def conc_start_def route_save_def initial_gonggo_def Let_def
        client_request_table_set_def ht_insert_def split: option.splits)
  have "client_request_table_expired (w_names ?late) (w_now ?late) (g_requests st2) = [''r'']"
    by (simp add: st2 s1 client_request_table_expired_def ht_keys_def ht_lookup_def request_expired_def
        word_sless_alt)
  moreover have stored: "ht_lookup (g_requests st2) ''r'' = Some ?ctx" by (simp add: st2 s1 ht_lookup_def)
  ultimately obtain st3 k where sweep: "alone ?late (no_local, [ReadExpired], st2)
      (no_local\<lparr>hl_conn := Some c\<rparr>, WriteReply ?notice # k, st3)" and st3: "g_channels st3 = []"
      "g_sent st3 = []" "g_requests st3 = g_requests st2" "g_handed st3 = g_handed st2"
    using sweep_started [of ?late st2 "''r''" ?ctx] st2 s1 unfolding J by auto
  let ?s3 = "cut_off ?s2 1 (no_local\<lparr>hl_conn := Some c\<rparr>, WriteReply ?notice # k, st3)"
  have "conc_step ?s2 (begins 1 [ReadExpired] ?s2)"
    by (intro conc_step.sweep) (simp add: one_request_def conc_start_def)
  from in_turn [OF this _ w(2)] sweep st2(2) have r3: "conc_step\<^sup>*\<^sup>* ?s2 ?s3"
    by (simp add: one_request_def conc_start_def)
  obtain l where reply: "finishes ?w no_local (reply_ops ?w ''p'' ''r'' h pl True) st3 l
      (proxy_subscribe_reply ?w ''p'' ''r'' h pl True st3)"
    using reply_alone by blast
  let ?s4 = "cut_off ?s3 2 (l, [], proxy_subscribe_reply ?w ''p'' ''r'' h pl True st3)"
  have "conc_step ?s3 (begins 2 (reply_ops ?w ''p'' ''r'' h pl True) ?s3)"
    using st2(1) st3(4) by (intro conc_step.reply)
      (simp_all add: one_request_def conc_start_def cut_off_def was_handed_def)
  moreover have "cn_local ?s3 2 = no_local" "cn_state ?s3 = st3"
    by (simp_all add: one_request_def conc_start_def cut_off_def)
  ultimately have r4: "conc_step\<^sup>*\<^sup>* ?s3 ?s4"
    using in_turn [OF _ _ w(1)] reply st3(1) by metis
  have ops: "cn_ops ?s4 1 = WriteReply ?notice # k" "hl_conn (cn_local ?s4 1) = Some c"
    and sent: "g_sent (cn_state ?s4) = [(c, ?reply)]"
    using st3(3) stored by (simp_all add: cut_off_def sent_subscribe_reply answer_message_def st3(2) J_def)
  from write_done [OF ops w(2)] obtain s' where
    "conc_step ?s4 s'" "g_sent (cn_state s') = [(c, ?reply), (c, ?notice)]"
    using sent by auto
  moreover have "conc_step\<^sup>*\<^sup>* conc_start ?s4"
    using one_request_reachable [OF w(1), of "''r''" c "''p''"] r2 r3 r4
    unfolding UUIDBUFLEN_def by simp
  ultimately have "conc_step\<^sup>*\<^sup>* conc_start s'" by (simp add: rtranclp.rtrancl_into_rtrancl)
  moreover have "g_sent (cn_state conc_start) = []" by (simp add: conc_start_def initial_gonggo_def)
  ultimately show ?thesis
    using conc_start_init \<open>g_sent (cn_state s') = _\<close> by (intro exI conjI) (assumption | simp)+
qed

end
