(* ===== verification/Table_Locks.thy ===== *)
theory Table_Locks
  imports Table_Steps Lock_Programs
begin

text \<open>
  The link between the two models of concurrency: the mutexes that a handler takes as a sequence of table
  operations are those of its program in \<open>Lock_Programs\<close>, whatever other threads do to the tables between two
  operations.
\<close>

section \<open>The mutexes of an operation\<close>

text \<open>\<open>ch\<close> says which proxies have a channel thread; a handler asks only while it holds the mutex of
  the channel table.  \<open>PostRequest\<close> is not listed: it belongs to the channel thread, which waits for the proxy.\<close>

fun op_locks :: "(pname \<Rightarrow> bool) \<Rightarrow> table_op \<Rightarrow> ops" where
  "op_locks ch (SetRequest r c tmo) = locked RequestTable"
| "op_locks ch (SetConnection c r) = locked ConnectionTable"
| "op_locks ch (SetService r s p) = locked ServiceTable"
| "op_locks ch (SetProxyname p r) = locked ProxynameTable"
| "op_locks ch (GetConn r u d) = locked RequestTable"
| "op_locks ch (RemoveRequest r) = locked RequestTable"
| "op_locks ch (DropConnection r) = locked ConnectionTable"
| "op_locks ch (RemoveService r) = locked ServiceTable"
| "op_locks ch (DropProxyname p r) = locked ProxynameTable"
| "op_locks ch (DropAll r) = locked ProxynameTable"
| "op_locks ch (TryDrop r []) = []"
| "op_locks ch (TryDrop r (p # ps)) = locked ProxynameTable"
| "op_locks ch (InsertResponse r s) = locked DbMutex"
| "op_locks ch ReadExpired = locked RequestTable"
| "op_locks ch (DupRequests c) = locked ConnectionTable"
| "op_locks ch (FindProxy r) = locked ProxynameTable"
| "op_locks ch NewId = locked UuidMutex"
| "op_locks ch (HoldChannels b) = [if b then Take ChannelTable else Give ChannelTable]"
| "op_locks ch (WakeChannel p) = guard (ch p) (signalled (ChannelCtx p) (ChannelWakeup p))"
| "op_locks ch (RemoveConnection c) = locked ConnectionTable"
| "op_locks ch (ListPending p b) = locked ProxynameTable"
| "op_locks ch (PeekConn r) = locked RequestTable"
| "op_locks ch _ = []"

definition channels_are :: "(pname \<Rightarrow> bool) \<Rightarrow> gonggo \<Rightarrow> bool" where
  "channels_are ch st \<longleftrightarrow> (\<forall>p. ch p \<longleftrightarrow> proxy_channel_thread_table_get p (g_channels st) \<noteq> None)"

text \<open>A handler that does its operations one after the other, each in whatever state the others have left.\<close>

inductive lock_run ::
    "(pname \<Rightarrow> bool) \<Rightarrow> handler_local \<Rightarrow> table_op list \<Rightarrow> ops \<Rightarrow> handler_local \<Rightarrow> bool" for ch where
  stop: "lock_run ch l [] [] l"
| step: "do_op w x l st = (l1, new, st') \<Longrightarrow> channels_are ch st \<Longrightarrow> lock_run ch l1 (new @ k) tr l' \<Longrightarrow>
    lock_run ch l (x # k) (op_locks ch x @ tr) l'"

inductive_cases lock_run_NilE: "lock_run ch l [] tr l'"
inductive_cases lock_run_ConsE: "lock_run ch l (x # k) tr l'"

lemma lock_run_append:
  "lock_run ch l (xs @ ys) tr l' \<Longrightarrow>
     \<exists>l1 t1 t2. lock_run ch l xs t1 l1 \<and> lock_run ch l1 ys t2 l' \<and> tr = t1 @ t2"
proof (induction l "xs @ ys" tr l' arbitrary: xs rule: lock_run.induct)
  case (stop l)
  then show ?case by (auto intro: lock_run.stop)
next
  case (step w x l st l1 new st' k tr l')
  show ?case
  proof (cases xs)
    case Nil
    with step show ?thesis by (auto intro: lock_run.intros)
  next
    case (Cons y xs')
    with step.hyps(5) have xs: "xs = x # xs'" "k = xs' @ ys" by auto
    with step.hyps(4) [of "new @ xs'"] obtain l2 t1 t2 where
      "lock_run ch l1 (new @ xs') t1 l2" "lock_run ch l2 ys t2 l'" "tr = t1 @ t2" by auto
    with xs step.hyps(1,2) show ?thesis by (fastforce intro: lock_run.step)
  qed
qed

text \<open>The trace of one operation and of what it puts in front.\<close>

lemma lock_run_one:
  assumes "lock_run ch l (x # k) tr l'"
  shows "\<exists>w st l1 new st' t1 t2 l2. do_op w x l st = (l1, new, st') \<and> channels_are ch st \<and>
    lock_run ch l1 new t1 l2 \<and> lock_run ch l2 k t2 l' \<and> tr = op_locks ch x @ t1 @ t2"
  using assms by (elim lock_run_ConsE) (blast dest: lock_run_append)

section \<open>Handlers\<close>

text \<open>Operations that put nothing in front of the rest.\<close>

fun plain_op :: "table_op \<Rightarrow> bool" where
  "plain_op (DropKnown r) = False"
| "plain_op (DropAll r) = False"
| "plain_op (TryDrop r ps) = False"
| "plain_op ReadExpired = False"
| "plain_op (DupRequests c) = False"
| "plain_op TellProxies = False"
| "plain_op (TellProxy p) = False"
| "plain_op (ListUnsent p) = False"
| "plain_op (HandOver p r) = False"
| "plain_op (ListPending p b) = False"
| "plain_op (Notify p b) = False"
| "plain_op _ = True"

lemma plain_new: "do_op w x l st = (l1, new, st') \<Longrightarrow> plain_op x \<Longrightarrow> new = []"
  by (cases "(w, x, l, st)" rule: do_op.cases) (auto split: option.splits)

lemma run_Nil: "lock_run ch l [] tr l' \<longleftrightarrow> tr = [] \<and> l' = l"
  by (auto elim: lock_run_NilE intro: lock_run.stop)

lemma run_plain:
  assumes "lock_run ch l (x # k) tr l'" "plain_op x"
  shows "\<exists>l1 t. tr = op_locks ch x @ t \<and> lock_run ch l1 k t l'"
  using assms by (elim lock_run_ConsE) (metis append_Nil plain_new)

lemma run_plains:
  assumes "lock_run ch l xs tr l'" "\<forall>x \<in> set xs. plain_op x"
  shows "tr = concat (map (op_locks ch) xs)"
  using assms
proof (induction xs arbitrary: l tr)
  case (Cons x xs)
  then show ?case by (fastforce dest: run_plain)
qed (simp add: run_Nil)

lemma run_plains_append:
  assumes "lock_run ch l (xs @ k) tr l'" "\<forall>x \<in> set xs. plain_op x"
  shows "\<exists>l1 t. tr = concat (map (op_locks ch) xs) @ t \<and> lock_run ch l1 k t l'"
  using assms by (blast dest: lock_run_append run_plains)

lemma run_drop_known:
  assumes "lock_run ch l (DropKnown r # k) tr l'"
  shows "\<exists>b l1 t. tr = guard b (locked ConnectionTable) @ t \<and> lock_run ch l1 k t l'"
proof -
  from lock_run_one [OF assms] obtain l1 new t1 t2 l2 where
    "lock_run ch l1 new t1 l2" "lock_run ch l2 k t2 l'" "tr = t1 @ t2"
    "new = [] \<or> new = [DropConnection r]"
    by (fastforce split: if_splits)
  then show ?thesis
    using run_plains [of ch l1 "[DropConnection r]" t1 l2]
    by (cases "new = []") (auto simp: run_Nil intro: exI [of _ False] exI [of _ True])
qed

lemma run_try_drop:
  assumes "lock_run ch l [TryDrop r ps] tr l'"
  shows "\<exists>n. tr = concat (replicate n (locked ProxynameTable))"
  using assms
proof (induction ps arbitrary: l tr)
  case Nil
  then show ?case by (elim lock_run_ConsE) (auto simp: run_Nil intro: exI [of _ 0])
next
  case (Cons p ps)
  from Cons.prems obtain l1 t where t: "tr = locked ProxynameTable @ t"
    and rest: "lock_run ch l1 [] t l' \<or> lock_run ch l1 [TryDrop r ps] t l'"
    by (elim lock_run_ConsE) (auto split: if_splits)
  from rest have "\<exists>n. t = concat (replicate n (locked ProxynameTable))"
    using Cons.IH [of l1 t] by (auto simp: run_Nil intro: exI [of _ 0])
  then obtain n where "t = concat (replicate n (locked ProxynameTable))" ..
  with t have "tr = concat (replicate (Suc n) (locked ProxynameTable))" by simp
  then show ?case by blast
qed

lemma run_drop_all:
  assumes "lock_run ch l (DropAll r # k) tr l'"
  shows "\<exists>n l1 t. tr = drop_all_locks n @ t \<and> lock_run ch l1 k t l'"
proof -
  from lock_run_one [OF assms] obtain l1 ps t1 t2 l2 where
    "lock_run ch l1 [TryDrop r ps] t1 l2" "lock_run ch l2 k t2 l'" "tr = locked ProxynameTable @ t1 @ t2"
    by fastforce
  moreover from run_try_drop [OF this(1)] obtain n where "t1 = concat (replicate n (locked ProxynameTable))" ..
  ultimately have "tr = drop_all_locks n @ t2 \<and> lock_run ch l2 k t2 l'"
    by (simp add: drop_all_locks_def)
  then show ?thesis by blast
qed

lemma route_locks_run:
  assumes "lock_run ch l (route_ops c r p svc pl tmo) tr l'"
  shows "tr = route_locks p (ch p)"
  using run_plains [OF assms] by (simp add: route_ops_def route_locks_def)

lemma reply_locks_run:
  assumes "lock_run ch l (reply_ops w p r h pl rm) tr l'"
  shows "\<exists>conn. tr = subscribe_reply_locks (SubscribeReply rm conn (0 < length r))"
proof -
  let ?fin = "\<lambda>s. (if 0 < length r then [InsertResponse r s] else []) @ [WriteReply s]"
  have ended: "t = guard (0 < length r) (locked DbMutex)" if "lock_run ch l1 (?fin s) t l'" for l1 s t
    using run_plains [OF that] by simp
  show ?thesis
  proof (cases rm)
    case True
    with assms obtain l1 t s where t: "tr = locked RequestTable @ t"
      and "lock_run ch l1 (DropKnown r # [DropProxyname p r, RemoveService r] @ ?fin s) t l'"
      unfolding reply_ops_def Let_def by (auto dest: run_plain)
    from run_drop_known [OF this(2)] obtain b l2 u where u: "t = guard b (locked ConnectionTable) @ u"
      and "lock_run ch l2 ([DropProxyname p r, RemoveService r] @ ?fin s) u l'" by blast
    from run_plains_append [OF this(2)] obtain l3 v where
      "u = locked ProxynameTable @ locked ServiceTable @ v" "lock_run ch l3 (?fin s) v l'" by auto
    with t u ended True show ?thesis by auto
  next
    case False
    with assms obtain l1 t s where "tr = locked RequestTable @ t" "lock_run ch l1 (?fin s) t l'"
      unfolding reply_ops_def Let_def by (auto dest: run_plain)
    with ended False show ?thesis by auto
  qed
qed

lemma purge_locks_run:
  assumes "lock_run ch l (purge_ops r) tr l'"
  shows "\<exists>x. tr = subscribe_purge_locks x"
proof -
  from run_plain [OF assms [unfolded purge_ops_def]] obtain l1 t where t: "tr = locked RequestTable @ t"
    and "lock_run ch l1 [DropKnown r, DropAll r, RemoveService r] t l'" by auto
  from run_drop_known [OF this(2)] obtain b l2 u where u: "t = guard b (locked ConnectionTable) @ u"
    and "lock_run ch l2 [DropAll r, RemoveService r] u l'" by blast
  from run_drop_all [OF this(2)] obtain n l3 v where v: "u = drop_all_locks n @ v"
    and "lock_run ch l3 [RemoveService r] v l'" by blast
  from run_plains [OF this(2)] t u v have "tr = subscribe_purge_locks (b, n)"
    by (simp add: subscribe_purge_locks_def)
  then show ?thesis ..
qed

text \<open>Loops: each round is an instance of one program.\<close>

lemma run_rounds:
  assumes "\<And>x l t l'. lock_run ch l (f x) t l' \<Longrightarrow> \<exists>y. t = g y"
    and "lock_run ch l (concat (map f xs)) tr l'"
  shows "\<exists>ys. tr = repeated g ys"
  using assms(2)
proof (induction xs arbitrary: l tr)
  case Nil
  then show ?case by (auto simp: run_Nil intro: exI [of _ "[]"])
next
  case (Cons x xs)
  then obtain l1 t1 t2 where "lock_run ch l (f x) t1 l1" "lock_run ch l1 (concat (map f xs)) t2 l'"
    and tr: "tr = t1 @ t2" by (auto dest: lock_run_append)
  then obtain y ys where "t1 = g y" "t2 = repeated g ys" using assms(1) Cons.IH by metis
  with tr show ?case by (intro exI [of _ "y # ys"]) simp
qed

definition expired_locks :: "bool \<times> nat \<Rightarrow> ops" where
  "expired_locks = (\<lambda>(saved, k). locked RequestTable @ guard saved (locked DbMutex) @ locked RequestTable @
     locked ConnectionTable @ locked ServiceTable @ drop_all_locks k)"

lemma expire_locks_run:
  assumes "lock_run ch l (expire_ops w r) tr l'"
  shows "\<exists>x. tr = expired_locks x"
proof -
  let ?s = "cJSON_PrintUnformatted (w_json w) (expired_reply_tree r)"
  let ?xs = "GetConn r False False # (if 0 < length r then [InsertResponse r ?s] else []) @
    [WriteReply ?s, RemoveRequest r, DropConnection r, RemoveService r]"
  have "expire_ops w r = ?xs @ [DropAll r]" by (simp add: expire_ops_def Let_def)
  with assms have "lock_run ch l (?xs @ [DropAll r]) tr l'" by simp
  from run_plains_append [OF this] obtain l1 t where
    t: "tr = concat (map (op_locks ch) ?xs) @ t" "lock_run ch l1 [DropAll r] t l'" by auto
  from run_drop_all [OF t(2)] obtain n where "t = drop_all_locks n" by (auto simp: run_Nil)
  with t(1) have "tr = expired_locks (0 < length r, n)" by (simp add: expired_locks_def)
  then show ?thesis ..
qed

lemma sweep_locks_run:
  assumes "lock_run ch l [ReadExpired] tr l'"
  shows "\<exists>expired. tr = locked RequestTable @ repeated expired_locks expired"
proof -
  from lock_run_one [OF assms] obtain l1 w rs t where
    "lock_run ch l (concat (map (expire_ops w) rs)) t l1" "tr = locked RequestTable @ t"
    by (fastforce simp: run_Nil)
  with run_rounds [of ch "expire_ops w" expired_locks] expire_locks_run show ?thesis by metis
qed

text \<open>A closed connection.\<close>

definition forget_locks :: "nat \<Rightarrow> ops" where
  "forget_locks k = locked ProxynameTable @ locked RequestTable @ locked ServiceTable @ drop_all_locks k"

definition tell_locks :: "pname \<times> nat option \<Rightarrow> ops" where
  "tell_locks = (\<lambda>(p, found). case found of
      None \<Rightarrow> []
    | Some n \<Rightarrow> concat (replicate n (locked UuidMutex @ locked ServiceTable @ locked ProxynameTable)) @
        signalled (ChannelCtx p) (ChannelWakeup p))"

lemma forget_locks_run:
  assumes "lock_run ch l (forget_ops r) tr l'"
  shows "\<exists>k. tr = forget_locks k"
proof -
  from run_plains_append [of ch l "[FindProxy r, RemoveRequest r, RemoveService r]" "[DropAll r]" tr l'] assms
  obtain l1 t where t: "tr = locked ProxynameTable @ locked RequestTable @ locked ServiceTable @ t"
    and "lock_run ch l1 [DropAll r] t l'" by (auto simp: forget_ops_def)
  from run_drop_all [OF this(2)] t show ?thesis by (auto simp: run_Nil forget_locks_def)
qed

lemma tell_ops_run:
  assumes "lock_run ch l (tell_ops w p rs n) tr l'"
  shows "tr = concat (replicate (length rs) (locked UuidMutex @ locked ServiceTable @ locked ProxynameTable)) @
    guard (ch p) (signalled (ChannelCtx p) (ChannelWakeup p))"
proof -
  have "\<forall>x \<in> set (tell_ops w p rs n). plain_op x"
    "concat (map (op_locks ch) (tell_ops w p rs n)) =
      concat (replicate (length rs) (locked UuidMutex @ locked ServiceTable @ locked ProxynameTable)) @
      guard (ch p) (signalled (ChannelCtx p) (ChannelWakeup p))"
    by (induction rs arbitrary: n) auto
  with run_plains [OF assms] show ?thesis by simp
qed

lemma tell_locks_run:
  assumes "lock_run ch l [TellProxy p] tr l'"
  shows "\<exists>x. tr = tell_locks x"
proof -
  from lock_run_one [OF assms] obtain w st l1 new st' where
    o: "do_op w (TellProxy p) l st = (l1, new, st')" "channels_are ch st" "lock_run ch l1 new tr l'"
    by (auto simp: run_Nil)
  then consider "new = []" | rs n where "new = tell_ops w p rs n" "ch p"
    by (fastforce simp: channels_are_def split: option.splits)
  then show ?thesis
  proof cases
    case 1
    with o(3) have "tr = tell_locks (p, None)" by (simp add: run_Nil tell_locks_def)
    then show ?thesis ..
  next
    case 2
    with tell_ops_run [of ch l1 w p rs n tr l'] o(3) have "tr = tell_locks (p, Some (length rs))"
      by (simp add: tell_locks_def)
    then show ?thesis ..
  qed
qed

lemma close_locks_run:
  assumes "lock_run ch l [DupRequests c] tr l'"
  shows "tr = locked ConnectionTable \<or> (\<exists>requests proxies. tr = drop_conn_locks requests proxies)"
proof -
  from lock_run_one [OF assms] obtain w st l1 new st' t where
    o: "do_op w (DupRequests c) l st = (l1, new, st')" "lock_run ch l1 new t l'"
    and tr: "tr = locked ConnectionTable @ t" by (auto simp: run_Nil)
  then consider "new = []" | arr where "new = close_ops c arr" by (auto split: option.splits)
  then show ?thesis
  proof cases
    case 1
    with o(2) tr show ?thesis by (simp add: run_Nil)
  next
    case 2
    with o(2) obtain t1 t2 l2 where "lock_run ch l1 (concat (map forget_ops arr)) t1 l2" and t: "t = t1 @ t2"
      and told: "lock_run ch l2 (HoldChannels True # [TellProxies] @ [HoldChannels False, RemoveConnection c]) t2 l'"
      by (fastforce simp: close_ops_def dest: lock_run_append)
    from run_rounds [OF _ this(1), of forget_locks] forget_locks_run
    obtain requests where t1: "t1 = repeated forget_locks requests" by blast
    from run_plain [OF told] obtain l3 u where t2: "t2 = Take ChannelTable # u"
      and "lock_run ch l3 (TellProxies # [HoldChannels False, RemoveConnection c]) u l'" by auto
    from lock_run_one [OF this(2)] obtain l4 ps u1 u2 l5 where
      "lock_run ch l4 (concat (map (\<lambda>p. [TellProxy p]) ps)) u1 l5"
      and ended: "lock_run ch l5 [HoldChannels False, RemoveConnection c] u2 l'" and u: "u = u1 @ u2"
      by fastforce
    from run_rounds [OF _ this(1), of tell_locks] tell_locks_run
    obtain proxies where "u1 = repeated tell_locks proxies" by blast
    moreover from run_plains [OF ended] have "u2 = Give ChannelTable # locked ConnectionTable" by simp
    ultimately have "tr = drop_conn_locks requests proxies"
      using tr t t1 t2 u
      by (simp add: drop_conn_locks_def forget_locks_def [abs_def] tell_locks_def)
    then show ?thesis by blast
  qed
qed

lemma notification_locks_run:
  assumes "lock_run ch l [ListPending p b] tr l'"
  shows "\<exists>n. tr = alive_notification_locks n"
proof -
  from lock_run_one [OF assms] obtain l1 rs t where
    "lock_run ch l1 (map PeekConn rs @ [Notify p b]) t l'" and tr: "tr = locked ProxynameTable @ t"
    by (auto simp: run_Nil split: option.splits intro: that [of _ "[]"])
  from run_plains_append [OF this(1)] obtain l2 u where
    t: "t = concat (replicate (length rs) (locked RequestTable)) @ u" and "lock_run ch l2 [Notify p b] u l'"
    by (auto simp: map_replicate_const o_def)
  from lock_run_one [OF this(2)] obtain w st l3 new st' where
    n: "do_op w (Notify p b) l2 st = (l3, new, st')" and u: "lock_run ch l3 new u l'"
    by (auto simp: run_Nil)
  from n have "\<forall>x \<in> set new. plain_op x \<and> op_locks ch x = []" by (auto split: option.splits)
  with run_plains [OF u] have "u = []" by auto
  with tr t have "tr = alive_notification_locks (length rs)" by (simp add: alive_notification_locks_def)
  then show ?thesis ..
qed

section \<open>Property\<close>


lemma plain_run_exists:
  assumes "\<forall>x \<in> set xs. plain_op x" "channels_are ch st"
  shows "\<exists>tr l'. lock_run ch l xs tr l'"
  using assms(1)
proof (induction xs arbitrary: l)
  case (Cons x xs)
  obtain w :: world where True by simp
  obtain l1 new st' where o: "do_op w x l st = (l1, new, st')" by (cases "do_op w x l st")
  then have "new = []" using Cons.prems plain_new by auto
  moreover obtain tr l' where "lock_run ch l1 xs tr l'" using Cons by fastforce
  ultimately show ?case using lock_run.step [OF o assms(2), of xs tr l'] by auto
qed (auto intro: lock_run.stop)


end
