(* ===== verification/Segment_Names.thy ===== *)
theory Segment_Names
  imports Channel_Guarantees Message_Verdict
begin

text \<open>
  The names of the segments that requests use: a request id of a client becomes the name of a segment of
  shared memory, in the same namespace as the segments of the proxies.
\<close>

section \<open>The segments after an exchange\<close>

text \<open>One request of an exchange that goes on.\<close>

lemma exchange_step_segments:
  assumes "exchange_loop w ctx (r # rs) events st = Done (True, ctx', events', st')"
    and "ht_lookup (g_services st) r = Some body" "\<forall>e \<in> set events. ce_env e = id"
    and "\<And>p. w_shm_open w p \<and> w_mmap w p"
  shows "\<exists>ctx3 events2 st4. exchange_loop w ctx3 rs events2 st4 = Done (True, ctx', events', st') \<and>
    (\<forall>e \<in> set events2. ce_env e = id) \<and> g_services st4 = g_services st \<and>
    g_segments st4 = ht_remove (payload_path r) (ht_insert (payload_path r) (PayloadSegment body) (g_segments st))"
proof -
  obtain idle ctx1 events1 st1 where
    i: "proxy_channel_idle_wait ctx events st = Done (idle, ctx1, events1, st1)"
    using assms(1,2) by (cases "proxy_channel_idle_wait ctx events st") auto
  note fr = idle_wait_frame [OF i assms(3)]
  obtain len st2 where c: "proxy_channel_create_request w (payload_path r) body st = (len, st2)"
    by fastforce
  have cf: "g_services st2 = g_services st" "len = length body + 1"
    "g_segments st2 = ht_insert (payload_path r) (PayloadSegment body) (g_segments st)"
    using c assms(4) by (auto simp: proxy_channel_create_request_def split: if_splits)
  obtain ctx2 st3 where p: "post_request r body len ctx1 st2 = (ctx2, st3)" by fastforce
  have pf: "g_services st3 = g_services st" "g_segments st3 = g_segments st2"
    using p cf(1) by (auto simp: post_request_def)
  from assms(1,2) i c p fr(1) cf(2) obtain e events2 where "idle" and ev: "events1 = e # events2"
    by (cases events1) (auto split: if_splits)
  obtain a ctx3 st4 where ar: "after_request r e ctx2 st3 = (a, ctx3, st4)"
    by (cases "after_request r e ctx2 st3") auto
  have "e \<in> set events" "set events2 \<subseteq> set events" using ev fr(3) by auto
  with assms(3) have env: "ce_env e = id" "\<forall>e \<in> set events2. ce_env e = id" by blast+
  then have "g_services st4 = g_services st" "g_segments st4 = ht_remove (payload_path r) (g_segments st2)"
    using ar pf by (auto simp: after_request_def Let_def shm_unlink_def split: if_splits)
  moreover have "exchange_loop w ctx3 rs events2 st4 = Done (True, ctx', events', st')"
    using assms(1,2) i \<open>idle\<close> c p fr(1) cf(2) ev ar by (simp split: if_splits)
  ultimately show ?thesis
    using env(2) cf(3) by (intro exI [of _ ctx3] exI [of _ events2] exI [of _ st4]) simp
qed

lemma exchange_loop_segments:
  assumes "exchange_loop w ctx rs events st = Done (True, ctx', events', st')"
    and "\<forall>e \<in> set events. ce_env e = id" "\<And>p. w_shm_open w p \<and> w_mmap w p"
  shows "ht_lookup (g_segments st') x =
    (if \<exists>r \<in> set rs. ht_lookup (g_services st) r \<noteq> None \<and> x = payload_path r then None
     else ht_lookup (g_segments st) x)"
  using assms(1,2)
proof (induction rs arbitrary: ctx events st)
  case (Cons r rs)
  show ?case
  proof (cases "ht_lookup (g_services st) r")
    case None
    with Cons show ?thesis by simp
  next
    case (Some body)
    from exchange_step_segments [OF Cons.prems(1) Some Cons.prems(2) assms(3)] obtain ctx3 events2 st4 where
      rest: "exchange_loop w ctx3 rs events2 st4 = Done (True, ctx', events', st')"
        "\<forall>e \<in> set events2. ce_env e = id" and st4: "g_services st4 = g_services st"
        "g_segments st4 = ht_remove (payload_path r) (ht_insert (payload_path r) (PayloadSegment body) (g_segments st))"
      by blast
    show ?thesis
      unfolding Cons.IH [OF rest] st4 using Some by auto
  qed
qed simp


text \<open>A client that names the channel segment of the proxy \<open>p\<close>.\<close>

definition naming_request :: json where
  "naming_request = JObject [(''headers'', JObject
     [(''rid'', JString ''p_channel''), (''proxy'', JString ''p''), (''service'', JString ''s''),
      (''timeout'', JNumber 30)])]"

lemma naming_request_fields:
  "msg_rid (sample_cjson parse prnt) naming_request = Some ''p_channel''"
  "msg_proxy (sample_cjson parse prnt) naming_request = Some ''p''"
  "msg_service (sample_cjson parse prnt) naming_request = Some ''s''"
  "msg_timeout (sample_cjson parse prnt) naming_request = Some 30"
  "msg_payload (sample_cjson parse prnt) naming_request = None"
  "first_violation (msg_checks (sample_cjson parse prnt) naming_request) = None"
proof -
  show f: "msg_rid (sample_cjson parse prnt) naming_request = Some ''p_channel''"
    "msg_proxy (sample_cjson parse prnt) naming_request = Some ''p''"
    "msg_service (sample_cjson parse prnt) naming_request = Some ''s''"
    "msg_timeout (sample_cjson parse prnt) naming_request = Some 30"
    "msg_payload (sample_cjson parse prnt) naming_request = None"
    by (simp_all add: naming_request_def msg_defs get_item_def get_string_def find_member_def
        time_of_double_def c_trunc_def)
  show "first_violation (msg_checks (sample_cjson parse prnt) naming_request) = None"
    unfolding msg_checks_def f Let_def
    by (simp add: naming_request_def find_member_def word_sless_alt)
qed


end
