(* ===== verification/Thread_Steps.thy ===== *)
theory Thread_Steps
  imports Operation_Runs Proxy_Activator
begin

text \<open>
  The life of a proxy's threads as sequences of the operations that hold one mutex or wait once: what the
  activator, the terminator and the alive threads do, in the order of the code.  \<open>Thread_Races\<close> lets the
  threads run at the same time.

  \<open>life_local\<close> has the local variables: the threads of the entries that \<open>proxy_thread_kill\<close> looked up, the
  segments that \<open>proxy_activation\<close> mapped, and the process ids that were sent SIGTERM.  \<open>lf_contexts\<close> has the
  context object of each alive thread: the table of alive threads points to it once the proxy is registered,
  so a write to it is a write to the table's entry.
\<close>

section \<open>Operations\<close>

datatype life_op =
    ReadZombie activation_env ProxyActivationShm
  | LockKill pname
  | StopSubscribe pname          \<comment> \<open>look the entry up and, if there is one, tell its thread to stop\<close>
  | StopChannel pname
  | StopAlive pname
  | RemoveSubscribe pname        \<comment> \<open>if an entry was found: join its thread, remove it, destroy its context\<close>
  | RemoveChannel pname
  | RemoveAlive pname
  | UnlockKill pname
  | MapChannel activation_env pname
  | MapSubscribe activation_env pname
  | MapAlive activation_env pname
  | StartThreads activation_env ProxyActivationShm
  | AwaitProxy activation_env pname ProxyActivationRespondState started
  | SetTerminate pname
  | SignalStarted pname
  | Undo pname started
  | SetSubscribe pname nat ProxySubscribeContext
  | SetChannel pname nat ProxyChannelContext
  | SetAlive pname nat
  | SignalChannel pname
  | TellClients world pname bool
  | PopQueue
  | Unsend pname
  | DropZombie pname
  | LockAlive alive_event nat
  | SetZombie pname
  | AwakeTerminator pname

record life_local =
  ll_subscribe :: "nat option"
  ll_channel :: "nat option"
  ll_alive :: "nat option"
  ll_channel_shm :: "ProxyChannelShm option"
  ll_subscribe_shm :: "ProxySubscribeShm option"
  ll_alive_shm :: "ProxyAliveMutexShm option"
  ll_sigterms :: "int list"

definition no_life_local :: life_local where
  "no_life_local = \<lparr>ll_subscribe = None, ll_channel = None, ll_alive = None, ll_channel_shm = None,
     ll_subscribe_shm = None, ll_alive_shm = None, ll_sigterms = []\<rparr>"

record life =
  lf_state :: gonggo
  lf_contexts :: "nat \<Rightarrow> ProxyAliveContext option"

definition kill_ops :: "pname \<Rightarrow> life_op list" where
  "kill_ops p = [LockKill p, StopSubscribe p, StopChannel p, StopAlive p, RemoveSubscribe p,
     RemoveChannel p, RemoveAlive p, UnlockKill p]"

definition map_ops :: "activation_env \<Rightarrow> ProxyActivationShm \<Rightarrow> life_op list" where
  "map_ops env shm = [MapChannel env (as_proxy_name shm), MapSubscribe env (as_proxy_name shm),
     MapAlive env (as_proxy_name shm), StartThreads env shm]"

definition register_ops :: "world \<Rightarrow> pname \<Rightarrow> started \<Rightarrow> life_op list" where
  "register_ops w name sd =
     (case (sd_subscribe sd, sd_channel sd, sd_alive sd) of
        (Some (sub, Some ts), Some (chan, Some tc), Some (alive, Some ta)) \<Rightarrow>
          [SetSubscribe name ts sub, SetChannel name tc chan, SetAlive name ta, SignalChannel name,
           TellClients w name True]
      | _ \<Rightarrow> [])"

definition conclude_ops :: "activation_env \<Rightarrow> pname \<Rightarrow> ProxyActivationRespondState \<Rightarrow> started \<Rightarrow> life_op list" where
  "conclude_ops env name state sd =
     (if state = ACTIVATIONSTATE_PROXY_TIMEOUT \<and> sd_channel sd \<noteq> None
      then [SetTerminate name, SignalStarted name] else []) @
     (if state \<noteq> ACTIVATIONSTATE_DISPATCHER_SUCCESS then [Undo name sd]
      else register_ops (av_world env) name sd)"

text \<open>One turn of the activator's loop.\<close>

definition activator_ops :: "activation_env \<Rightarrow> bool \<Rightarrow> bool \<Rightarrow> ProxyActivationShm \<Rightarrow> life_op list" where
  "activator_ops env end_flag proxy_dead shm =
     (if as_state shm \<noteq> ACTIVATION_TERMINATION \<and> \<not> end_flag \<and> \<not> proxy_dead \<and> length (as_proxy_name shm) > 0
         \<and> as_state shm = ACTIVATION_REQUEST
      then [ReadZombie env shm] else [])"

definition terminate_ops :: "pname \<Rightarrow> life_op list" where
  "terminate_ops p = Unsend p # kill_ops p @ [DropZombie p]"

definition death_ops :: "world \<Rightarrow> pname \<Rightarrow> life_op list" where
  "death_ops w p = [SetZombie p, AwakeTerminator p, TellClients w p False]"

section \<open>Doing one operation\<close>

definition on_life :: "(gonggo \<Rightarrow> gonggo) \<Rightarrow> life \<Rightarrow> life" where
  "on_life f d = d\<lparr>lf_state := f (lf_state d)\<rparr>"

text \<open>A write to the context object of alive thread \<open>n\<close>, and the context that the clean-up of an activation
  finds in it.\<close>

definition share_context :: "nat \<Rightarrow> ProxyAliveContext \<Rightarrow> alive_table \<Rightarrow> alive_table" where
  "share_context n c t = map (\<lambda>(p, e). (p, if te_thread e = n then e\<lparr>te_ctx := c\<rparr> else e)) t"

definition write_context :: "nat \<Rightarrow> ProxyAliveContext \<Rightarrow> life \<Rightarrow> life" where
  "write_context n c d =
     on_life (\<lambda>st. st\<lparr>g_alives := share_context n c (g_alives st)\<rparr>) (d\<lparr>lf_contexts := (lf_contexts d)(n \<mapsto> c)\<rparr>)"

definition alive_thread :: "started \<Rightarrow> nat option" where
  "alive_thread sd = (case sd_alive sd of Some (c, Some n) \<Rightarrow> Some n | _ \<Rightarrow> None)"

definition read_context :: "started \<Rightarrow> life \<Rightarrow> started" where
  "read_context sd d =
     (case sd_alive sd of
        Some (c, Some n) \<Rightarrow>
          sd\<lparr>sd_alive := Some (case lf_contexts d n of None \<Rightarrow> c | Some c' \<Rightarrow> c', Some n)\<rparr>
      | _ \<Rightarrow> sd)"

text \<open>Two operations can stay inside forever: telling the channel thread to stop, and the clean-up.\<close>

fun life_ok :: "life_op \<Rightarrow> life_local \<Rightarrow> life \<Rightarrow> bool" where
  "life_ok (StopChannel p) l d =
     (case proxy_channel_thread_table_get p (g_channels (lf_state d)) of
        None \<Rightarrow> True | Some e \<Rightarrow> proxy_channel_stop (te_ctx e) \<noteq> Blocked)"
| "life_ok (Undo p sd) l d = (\<exists>r. undo_activation (read_context sd d) (lf_state d) = ActDone r)"
| "life_ok _ l d = True"

fun do_life :: "life_op \<Rightarrow> life_local \<Rightarrow> life \<Rightarrow> life_local \<times> life_op list \<times> life" where
  "do_life (ReadZombie env shm) l d =
     (if proxy_thread_zombie (as_proxy_name shm) (g_terminating (lf_state d))
      then (l, [AwaitProxy env (as_proxy_name shm) ACTIVATIONSTATE_DISPATCHER_FAILED no_threads], d)
      else (l, kill_ops (as_proxy_name shm) @ map_ops env shm, d))"
| "do_life (LockKill p) l d = (l, [], d)"
| "do_life (StopSubscribe p) l d =
     (let found = proxy_subscribe_thread_table_get p (g_subscribes (lf_state d)) in
      (l\<lparr>ll_subscribe := map_option te_thread found\<rparr>, [],
       case found of None \<Rightarrow> d
       | Some e \<Rightarrow> on_life (\<lambda>st. st\<lparr>g_subscribes :=
           ht_insert p (e\<lparr>te_ctx := proxy_subscribe_stop (te_ctx e)\<rparr>) (g_subscribes st)\<rparr>) d))"
| "do_life (StopChannel p) l d =
     (let found = proxy_channel_thread_table_get p (g_channels (lf_state d)) in
      (l\<lparr>ll_channel := map_option te_thread found\<rparr>, [],
       case found of None \<Rightarrow> d
       | Some e \<Rightarrow>
           (case proxy_channel_stop (te_ctx e) of
              Blocked \<Rightarrow> d
            | Done ctx \<Rightarrow> on_life (\<lambda>st. st\<lparr>g_channels :=
                ht_insert p (e\<lparr>te_ctx := ctx\<rparr>) (g_channels st)\<rparr>) d)))"
| "do_life (StopAlive p) l d =
     (let found = proxy_alive_thread_table_get p (g_alives (lf_state d)) in
      (l\<lparr>ll_alive := map_option te_thread found,
         ll_sigterms := ll_sigterms l @
           (case found of None \<Rightarrow> [] | Some e \<Rightarrow> proxy_alive_stop (te_ctx e))\<rparr>, [], d))"
| "do_life (RemoveSubscribe p) l d =
     (l, [], if ll_subscribe l = None then d
        else (let (t, gone) = proxy_subscribe_thread_table_remove p (g_subscribes (lf_state d))
              in on_life (\<lambda>st. unlink_all gone (st\<lparr>g_subscribes := t\<rparr>)) d))"
| "do_life (RemoveChannel p) l d =
     (l, [], if ll_channel l = None then d
        else (let (t, gone) = proxy_channel_thread_table_remove p (g_channels (lf_state d))
              in on_life (\<lambda>st. unlink_all gone (st\<lparr>g_channels := t\<rparr>)) d))"
| "do_life (RemoveAlive p) l d =
     (l, [], if ll_alive l = None then d
        else (let (t, gone) = proxy_alive_thread_table_remove p (g_alives (lf_state d))
              in on_life (\<lambda>st. unlink_all gone (st\<lparr>g_alives := t\<rparr>)) d))"
| "do_life (UnlockKill p) l d = (l, [], d)"
| "do_life (MapChannel env p) l d =
     (l\<lparr>ll_channel_shm := proxy_channel_shm_get (av_world env) p (av_channel_shm env) (lf_state d)\<rparr>, [], d)"
| "do_life (MapSubscribe env p) l d =
     (l\<lparr>ll_subscribe_shm := (case ll_channel_shm l of None \<Rightarrow> None
        | Some _ \<Rightarrow> proxy_subscribe_shm_get (av_world env) p (av_subscribe_shm env) (lf_state d))\<rparr>, [], d)"
| "do_life (MapAlive env p) l d =
     (l\<lparr>ll_alive_shm := (case ll_subscribe_shm l of None \<Rightarrow> None
        | Some _ \<Rightarrow> proxy_alive_shm_get (av_world env) p (av_alive_shm env) (lf_state d))\<rparr>, [], d)"
| "do_life (StartThreads env shm) l d =
     (case (ll_channel_shm l, ll_subscribe_shm l, ll_alive_shm l) of
        (Some c, Some s, Some a) \<Rightarrow>
          (let (created, sd) = start_threads env shm s c a in
           (l, [AwaitProxy env (as_proxy_name shm)
                  (if created then ACTIVATIONSTATE_DISPATCHER_SUCCESS
                   else ACTIVATIONSTATE_DISPATCHER_FAILED) sd],
            case sd_alive sd of
              Some (ctx, Some n) \<Rightarrow> d\<lparr>lf_contexts := (lf_contexts d)(n \<mapsto> ctx)\<rparr>
            | _ \<Rightarrow> d))
      | _ \<Rightarrow> (l, [], d))"
| "do_life (AwaitProxy env p state sd) l d = (l, conclude_ops env p (fst (await_proxy env state)) sd, d)"
| "do_life (SetTerminate p) l d =
     (l, [], on_life (\<lambda>st. st\<lparr>g_terminate := proxy_terminate_array_set p (g_terminate st)\<rparr>) d)"
| "do_life (SignalStarted p) l d = (l, [], on_life (channel_wakeup p) d)"
| "do_life (Undo p sd) l d =
     (case undo_activation (read_context sd d) (lf_state d) of
        ActDone (st, sig) \<Rightarrow> (l\<lparr>ll_sigterms := ll_sigterms l @ sig\<rparr>, [], d\<lparr>lf_state := st\<rparr>)
      | _ \<Rightarrow> (l, [], d))"
| "do_life (SetSubscribe p n ctx) l d =
     (let (t, gone) = proxy_subscribe_thread_table_set p n ctx (g_subscribes (lf_state d))
      in (l, [], on_life (\<lambda>st. unlink_all gone (st\<lparr>g_subscribes := t\<rparr>)) d))"
| "do_life (SetChannel p n ctx) l d =
     (let (t, gone) = proxy_channel_thread_table_set p n ctx (g_channels (lf_state d))
      in (l, [], on_life (\<lambda>st. unlink_all gone (st\<lparr>g_channels := t\<rparr>)) d))"
| "do_life (SetAlive p n) l d =
     (case lf_contexts d n of
        None \<Rightarrow> (l, [], d)
      | Some ctx \<Rightarrow>
          (let (t, gone) = proxy_alive_thread_table_set p n ctx (g_alives (lf_state d))
           in (l, [], on_life (\<lambda>st. unlink_all gone (st\<lparr>g_alives := t\<rparr>)) d)))"
| "do_life (SignalChannel p) l d = (l, [], on_life (channel_wakeup p) d)"
| "do_life (TellClients w p started) l d = (l, [], on_life (client_proxy_alive_notification w p started) d)"
| "do_life PopQueue l d =
     (case g_queue (lf_state d) of
        [] \<Rightarrow> (l, [], d)
      | p # queue \<Rightarrow> (l, terminate_ops p @ [PopQueue], on_life (\<lambda>st. st\<lparr>g_queue := queue\<rparr>) d))"
| "do_life (Unsend p) l d =
     (l, [], on_life (\<lambda>st. st\<lparr>g_proxynames := client_proxyname_table_request_unsent p (g_proxynames st)\<rparr>) d)"
| "do_life (DropZombie p) l d =
     (l, [], on_life (\<lambda>st. st\<lparr>g_terminating := proxy_thread_terminating_drop p (g_terminating st)\<rparr>) d)"
| "do_life (LockAlive e n) l d =
     (case lf_contexts d n of
        None \<Rightarrow> (l, [], d)
      | Some ctx \<Rightarrow>
          (let dead = (ae_status e = EOWNERDEAD \<or> ae_status e = 0 \<and> \<not> ae_alive e);
               ctx1 = ctx\<lparr>ac_dead := dead, ac_shm := \<lparr>al_alive = ae_alive e\<rparr>\<rparr>
           in (l, if dead then death_ops (ae_world e) (ac_proxy_name ctx1) else [], write_context n ctx1 d)))"
| "do_life (SetZombie p) l d =
     (l, [], on_life (\<lambda>st. st\<lparr>g_terminating := proxy_thread_terminating_set p (g_terminating st)\<rparr>) d)"
| "do_life (AwakeTerminator p) l d = (l, [], on_life (proxy_terminator_awake p) d)"

section \<open>The threads are their operations\<close>

abbreviation finishes_life :: "life_local \<Rightarrow> life_op list \<Rightarrow> life \<Rightarrow> life_local \<Rightarrow> life \<Rightarrow> bool" where
  "finishes_life \<equiv> completes life_ok do_life"

lemma unlink_all_eq: "unlink_all ps st = st\<lparr>g_segments := fold ht_remove ps (g_segments st)\<rparr>"
  unfolding unlink_all_def by (induction ps arbitrary: st) (simp_all add: shm_unlink_def)

definition found_in :: "pname \<Rightarrow> gonggo \<Rightarrow> int list \<Rightarrow> life_local \<Rightarrow> life_local" where
  "found_in p st sig l = l\<lparr>ll_subscribe := map_option te_thread (ht_lookup (g_subscribes st) p),
     ll_channel := map_option te_thread (ht_lookup (g_channels st) p),
     ll_alive := map_option te_thread (ht_lookup (g_alives st) p), ll_sigterms := ll_sigterms l @ sig\<rparr>"

lemma kill_stop_alone:
  "finishes_life l [StopSubscribe p, StopChannel p, StopAlive p] d l' d' \<longleftrightarrow>
     (\<exists>st sig. kill_stop p (lf_state d) = Done (st, sig) \<and> d' = d\<lparr>lf_state := st\<rparr> \<and>
        l' = found_in p (lf_state d) sig l)"
proof (cases "ht_lookup (g_channels (lf_state d)) p")
  case None
  then show ?thesis
    by (cases "ht_lookup (g_subscribes (lf_state d)) p")
      (auto simp: completes_quiet on_life_def kill_stop_def found_in_def subscribe_table_defs channel_table_defs
        alive_table_defs Let_def)
next
  case (Some e)
  then show ?thesis
    by (cases "ht_lookup (g_subscribes (lf_state d)) p"; cases "proxy_channel_stop (te_ctx e)")
      (auto simp: completes_quiet on_life_def kill_stop_def found_in_def subscribe_table_defs channel_table_defs
        alive_table_defs Let_def)
qed

lemma kill_remove_alone:
  assumes "ll_subscribe l = map_option te_thread (ht_lookup (g_subscribes (lf_state d)) p)"
    "ll_channel l = map_option te_thread (ht_lookup (g_channels (lf_state d)) p)"
    "ll_alive l = map_option te_thread (ht_lookup (g_alives (lf_state d)) p)"
  shows "finishes_life l [RemoveSubscribe p, RemoveChannel p, RemoveAlive p] d l' d' \<longleftrightarrow>
     l' = l \<and> d' = d\<lparr>lf_state := kill_remove p (lf_state d)\<rparr>"
proof -
  have s: "do_life (RemoveSubscribe p) l d = (l, [], on_life (\<lambda>st. unlink_all
        (snd (proxy_subscribe_thread_table_remove p (g_subscribes st)))
        (st\<lparr>g_subscribes := fst (proxy_subscribe_thread_table_remove p (g_subscribes st))\<rparr>)) d)"
    using assms(1) by (cases d) (auto simp: on_life_def subscribe_table_defs unlink_all_eq)
  have c: "do_life (RemoveChannel p) l d1 = (l, [], on_life (\<lambda>st. unlink_all
        (snd (proxy_channel_thread_table_remove p (g_channels st)))
        (st\<lparr>g_channels := fst (proxy_channel_thread_table_remove p (g_channels st))\<rparr>)) d1)"
    if "g_channels (lf_state d1) = g_channels (lf_state d)" for d1
    using assms(2) that by (cases d1) (auto simp: on_life_def channel_table_defs unlink_all_eq)
  have a: "do_life (RemoveAlive p) l d1 = (l, [], on_life (\<lambda>st. unlink_all
        (snd (proxy_alive_thread_table_remove p (g_alives st)))
        (st\<lparr>g_alives := fst (proxy_alive_thread_table_remove p (g_alives st))\<rparr>)) d1)"
    if "g_alives (lf_state d1) = g_alives (lf_state d)" for d1
    using assms(3) that by (cases d1) (auto simp: on_life_def alive_table_defs unlink_all_eq)
  show ?thesis
    by (simp add: completes_quiet s c a on_life_def kill_remove_def unlink_all_eq Let_def split_beta
        del: do_life.simps)
qed

lemma kill_stop_lookups:
  assumes "kill_stop p st = Done (st1, sig)"
  shows "map_option te_thread (ht_lookup (g_subscribes st1) q) = map_option te_thread (ht_lookup (g_subscribes st) q)"
    "map_option te_thread (ht_lookup (g_channels st1) q) = map_option te_thread (ht_lookup (g_channels st) q)"
    "g_alives st1 = g_alives st"
  using assms
  by (auto simp: kill_stop_def Let_def subscribe_table_defs channel_table_defs
      split: blocking.splits option.splits)

lemma kill_alone:
  "finishes_life l (kill_ops p) d l' d' \<longleftrightarrow>
     (\<exists>st sig. proxy_thread_kill p (lf_state d) = Done (st, sig) \<and> d' = d\<lparr>lf_state := st\<rparr> \<and>
        l' = found_in p (lf_state d) sig l)"
proof -
  have ops: "kill_ops p = LockKill p # [StopSubscribe p, StopChannel p, StopAlive p] @
      [RemoveSubscribe p, RemoveChannel p, RemoveAlive p] @ [UnlockKill p]" by (simp add: kill_ops_def)
  have "finishes_life l (kill_ops p) d l' d' \<longleftrightarrow>
      (\<exists>st sig. kill_stop p (lf_state d) = Done (st, sig) \<and>
         finishes_life (found_in p (lf_state d) sig l) [RemoveSubscribe p, RemoveChannel p, RemoveAlive p]
           (d\<lparr>lf_state := st\<rparr>) l' d')"
    unfolding ops completes_quiet [of do_life "LockKill p" l d, simplified] completes_append kill_stop_alone
    by (auto simp: completes_quiet [of do_life "UnlockKill p"])
  also have "\<dots> \<longleftrightarrow> (\<exists>st sig. proxy_thread_kill p (lf_state d) = Done (st, sig) \<and> d' = d\<lparr>lf_state := st\<rparr> \<and>
        l' = found_in p (lf_state d) sig l)"
  proof (cases "kill_stop p (lf_state d)")
    case (Done b)
    obtain st sig where b: "b = (st, sig)" by force
    note k = kill_stop_lookups [OF Done [unfolded b]]
    have "finishes_life (found_in p (lf_state d) sig l) [RemoveSubscribe p, RemoveChannel p, RemoveAlive p]
        (d\<lparr>lf_state := st\<rparr>) l' d' \<longleftrightarrow>
      l' = found_in p (lf_state d) sig l \<and> d' = d\<lparr>lf_state := st\<rparr>\<lparr>lf_state := kill_remove p st\<rparr>"
      by (subst kill_remove_alone) (simp_all add: found_in_def k)
    then show ?thesis using Done b by (auto simp: proxy_thread_kill_def)
  qed (simp add: proxy_thread_kill_def)
  finally show ?thesis .
qed

lemma terminate_alone:
  "finishes_life l (terminate_ops p) d l' d' \<longleftrightarrow>
     (\<exists>st sig. terminate_proxy p (lf_state d) = Done (st, sig) \<and> d' = d\<lparr>lf_state := st\<rparr> \<and>
        l' = found_in p (lf_state d) sig l)"
proof -
  let ?st = "(lf_state d)\<lparr>g_proxynames := client_proxyname_table_request_unsent p (g_proxynames (lf_state d))\<rparr>"
  have "finishes_life l (terminate_ops p) d l' d' \<longleftrightarrow>
      (\<exists>d1. finishes_life l (kill_ops p) (d\<lparr>lf_state := ?st\<rparr>) l' d1 \<and>
        d' = on_life (\<lambda>st. st\<lparr>g_terminating := proxy_thread_terminating_drop p (g_terminating st)\<rparr>) d1)"
    by (auto simp: terminate_ops_def completes_quiet completes_append on_life_def)
  also have "\<dots> \<longleftrightarrow> (\<exists>st sig. terminate_proxy p (lf_state d) = Done (st, sig) \<and> d' = d\<lparr>lf_state := st\<rparr> \<and>
        l' = found_in p (lf_state d) sig l)"
    by (auto simp: kill_alone terminate_proxy_def on_life_def found_in_def Let_def split: blocking.splits)
  finally show ?thesis .
qed

lemma notification_alives:
  "client_proxy_alive_notification w p b (st\<lparr>g_alives := x\<rparr>) =
     (client_proxy_alive_notification w p b st)\<lparr>g_alives := x\<rparr>"
proof -
  have "notification_loop w p b t cs (st\<lparr>g_alives := x\<rparr>) = (notification_loop w p b t cs st)\<lparr>g_alives := x\<rparr>"
    for t cs
  proof (induction cs arbitrary: st)
    case (Cons c cs)
    have "(case ht_lookup t c of None \<Rightarrow> st\<lparr>g_alives := x\<rparr>
        | Some arr \<Rightarrow> client_proxy_alive_notification_do w c p arr b (st\<lparr>g_alives := x\<rparr>)) =
        (case ht_lookup t c of None \<Rightarrow> st
        | Some arr \<Rightarrow> client_proxy_alive_notification_do w c p arr b st)\<lparr>g_alives := x\<rparr>"
      by (simp add: client_proxy_alive_notification_do_def mg_websocket_write_def split: option.split)
    with Cons.IH show ?case by simp
  qed simp
  then show ?thesis by (simp add: client_proxy_alive_notification_def Let_def)
qed

lemma death_alone:
  assumes "lf_contexts d n = Some ctx" "ae_env e = id" "proxy_alive_round e ctx (lf_state d) = (ctx1, st)"
  shows "finishes_life l [LockAlive e n] d l' d' \<longleftrightarrow> l' = l \<and> d' = write_context n ctx1 (d\<lparr>lf_state := st\<rparr>)"
proof (cases "ae_status e = EOWNERDEAD \<or> ae_status e = 0 \<and> \<not> ae_alive e")
  case True
  with assms have ctx1: "ctx1 = ctx\<lparr>ac_dead := True, ac_shm := \<lparr>al_alive = ae_alive e\<rparr>\<rparr>"
    and st: "st = client_proxy_alive_notification (ae_world e) (ac_proxy_name ctx1) False
      (proxy_terminator_awake (ac_proxy_name ctx1) ((lf_state d)\<lparr>g_terminating :=
         proxy_thread_terminating_set (ac_proxy_name ctx1) (g_terminating (lf_state d))\<rparr>))"
    by (auto simp: proxy_alive_round_def Let_def)
  have swap: "s\<lparr>g_alives := x, g_terminating := y, g_queue := z\<rparr> =
      s\<lparr>g_terminating := y, g_queue := z, g_alives := x\<rparr>" for s :: gonggo and x y z by simp
  have "do_life (LockAlive e n) l d =
      (l, death_ops (ae_world e) (ac_proxy_name ctx1), write_context n ctx1 d)"
    using True assms(1) ctx1 by (simp add: Let_def)
  then have "finishes_life l [LockAlive e n] d l' d' \<longleftrightarrow>
      finishes_life l (death_ops (ae_world e) (ac_proxy_name ctx1)) (write_context n ctx1 d) l' d'"
    by (subst completes_Cons) (simp del: do_life.simps)
  also have "\<dots> \<longleftrightarrow> l' = l \<and> d' = write_context n ctx1 (d\<lparr>lf_state := st\<rparr>)"
    unfolding st
    by (simp add: death_ops_def completes_quiet write_context_def on_life_def proxy_terminator_awake_def
        swap notification_alives)
  finally show ?thesis .
next
  case False
  with assms show ?thesis
    by (auto simp: completes_Cons proxy_alive_round_def Let_def)
qed

definition shared :: "started \<Rightarrow> life \<Rightarrow> bool" where
  "shared sd d \<longleftrightarrow> (\<forall>c n. sd_alive sd = Some (c, Some n) \<longrightarrow> lf_contexts d n = Some c)"

lemma register_alone:
  assumes "shared sd d"
  shows "finishes_life l (register_ops w p sd) d l' d' \<longleftrightarrow>
     l' = l \<and> d' = d\<lparr>lf_state := register_proxy w p sd (lf_state d)\<rparr>"
proof (cases "\<exists>sub ts chan tc al ta. sd_subscribe sd = Some (sub, Some ts) \<and>
    sd_channel sd = Some (chan, Some tc) \<and> sd_alive sd = Some (al, Some ta)")
  case True
  with assms show ?thesis
    by (auto simp: register_ops_def register_proxy_def completes_quiet Let_def split_beta shared_def on_life_def
        unlink_all_eq)
next
  case False
  then have "register_ops w p sd = []" "register_proxy w p sd st = st" for st
    by (auto simp: register_ops_def register_proxy_def split: option.splits)
  then show ?thesis by auto
qed

definition admitted :: "activation_env \<Rightarrow> pname \<Rightarrow> activation_result \<Rightarrow> gonggo \<Rightarrow> gonggo" where
  "admitted env p r st =
     (if ar_respond r = ACTIVATIONSTATE_DISPATCHER_SUCCESS then register_proxy (av_world env) p (ar_started r) st
      else st)"

lemma admitted_failed [simp]:
  "admitted env p \<lparr>ar_respond = ACTIVATIONSTATE_DISPATCHER_FAILED, ar_shm_state = x, ar_started = sd,
     ar_sigterms = sig\<rparr> st = st"
  by (simp add: admitted_def)

lemma conclude_alone:
  assumes "shared sd d"
  shows "(\<exists>l'. finishes_life l [AwaitProxy env p s0 sd] d l' d') \<longleftrightarrow>
    (\<exists>r st. conclude_activation env p s0 sd sig (lf_state d) = ActDone (r, st) \<and>
       d' = d\<lparr>lf_state := admitted env p r st\<rparr>)"
proof -
  have same: "read_context sd d = sd" "\<And>f. shared sd (on_life f d)" "\<And>f. read_context sd (on_life f d) = sd"
    using assms by (auto simp: read_context_def shared_def on_life_def split: option.splits)
  obtain state shm_state where a: "await_proxy env s0 = (state, shm_state)" by force
  have run: "finishes_life l [AwaitProxy env p s0 sd] d l' d' \<longleftrightarrow>
      finishes_life l (conclude_ops env p state sd) d l' d'" for l'
    using a by (simp add: completes_Cons)
  have undo: "(\<exists>l'. finishes_life l [Undo p sd] (on_life f d) l' d') \<longleftrightarrow>
      (\<exists>st sig. undo_activation sd (f (lf_state d)) = ActDone (st, sig) \<and> d' = d\<lparr>lf_state := st\<rparr>)" for f
    by (auto simp: completes_Cons same(3) [unfolded on_life_def] on_life_def split: activation_outcome.splits)
  let ?f = "\<lambda>st. channel_wakeup p (st\<lparr>g_terminate := proxy_terminate_array_set p (g_terminate st)\<rparr>)"
  let ?late = "state = ACTIVATIONSTATE_PROXY_TIMEOUT \<and> sd_channel sd \<noteq> None"
  have concl: "conclude_activation env p s0 sd sig (lf_state d) = ActDone (r, st) \<longleftrightarrow>
      (\<exists>sig'. undo_activation sd ((if ?late then ?f else id) (lf_state d)) = ActDone (st, sig') \<and>
         r = \<lparr>ar_respond = state, ar_shm_state = shm_state, ar_started = no_threads, ar_sigterms = sig @ sig'\<rparr>)"
    if "state \<noteq> ACTIVATIONSTATE_DISPATCHER_SUCCESS" for r st
    using that a
    by (cases "undo_activation sd ((if ?late then ?f else id) (lf_state d))") (auto simp: conclude_activation_def)
  have failed: "(\<exists>r st. conclude_activation env p s0 sd sig (lf_state d) = ActDone (r, st) \<and>
       d' = d\<lparr>lf_state := admitted env p r st\<rparr>) \<longleftrightarrow>
      (\<exists>st sig. undo_activation sd ((if ?late then ?f else id) (lf_state d)) = ActDone (st, sig) \<and>
         d' = d\<lparr>lf_state := st\<rparr>)" if "state \<noteq> ACTIVATIONSTATE_DISPATCHER_SUCCESS"
    unfolding concl [OF that] admitted_def using that by fastforce
  have late: "finishes_life l (conclude_ops env p state sd) d l' d' \<longleftrightarrow>
      finishes_life l [Undo p sd] (on_life (if ?late then ?f else id) d) l' d'"
    if "state \<noteq> ACTIVATIONSTATE_DISPATCHER_SUCCESS" for l'
    using that by (cases ?late) (auto simp: conclude_ops_def completes_quiet [of _ "SetTerminate p"]
        completes_quiet [of _ "SignalStarted p"] on_life_def)
  show ?thesis
  proof (cases "state = ACTIVATIONSTATE_DISPATCHER_SUCCESS")
    case True
    then show ?thesis using a register_alone [OF assms]
      by (simp add: run conclude_ops_def conclude_activation_def admitted_def)
  next
    case False
    show ?thesis unfolding failed [OF False] run late [OF False] by (rule undo)
  qed
qed

definition mapped :: "activation_env \<Rightarrow> ProxyActivationShm \<Rightarrow> gonggo \<Rightarrow>
    ProxyChannelShm option \<times> ProxySubscribeShm option \<times> ProxyAliveMutexShm option" where
  "mapped env shm st =
     (let w = av_world env; name = as_proxy_name shm;
          c = proxy_channel_shm_get w name (av_channel_shm env) st;
          s = (case c of None \<Rightarrow> None | Some _ \<Rightarrow> proxy_subscribe_shm_get w name (av_subscribe_shm env) st);
          a = (case s of None \<Rightarrow> None | Some _ \<Rightarrow> proxy_alive_shm_get w name (av_alive_shm env) st)
      in (c, s, a))"

lemma started_shared:
  assumes "start_threads env shm s c a = (created, sd)"
  shows "shared sd (case sd_alive sd of Some (ctx, Some n) \<Rightarrow> d\<lparr>lf_contexts := (lf_contexts d)(n \<mapsto> ctx)\<rparr> | _ \<Rightarrow> d)"
  by (auto simp: shared_def split: option.split)

lemma map_alone:
  "(\<exists>l'. finishes_life l (map_ops env shm) d l' d') \<longleftrightarrow>
     (case mapped env shm (lf_state d) of
        (Some c, Some s, Some a) \<Rightarrow>
          (let (created, sd) = start_threads env shm s c a;
               d1 = (case sd_alive sd of
                   Some (ctx, Some n) \<Rightarrow> d\<lparr>lf_contexts := (lf_contexts d)(n \<mapsto> ctx)\<rparr> | _ \<Rightarrow> d)
           in \<exists>r st. conclude_activation env (as_proxy_name shm)
                (if created then ACTIVATIONSTATE_DISPATCHER_SUCCESS else ACTIVATIONSTATE_DISPATCHER_FAILED)
                sd sig (lf_state d) = ActDone (r, st) \<and>
              d' = d1\<lparr>lf_state := admitted env (as_proxy_name shm) r st\<rparr>)
      | _ \<Rightarrow> d' = d)"
proof -
  obtain c s a where m: "mapped env shm (lf_state d) = (c, s, a)" by (cases "mapped env shm (lf_state d)")
  let ?l = "l\<lparr>ll_channel_shm := c, ll_subscribe_shm := s, ll_alive_shm := a\<rparr>"
  have "finishes_life l (map_ops env shm) d l' d' \<longleftrightarrow> finishes_life ?l [StartThreads env shm] d l' d'" for l'
    using m by (auto simp: map_ops_def mapped_def completes_quiet Let_def)
  moreover have "(\<exists>l'. finishes_life ?l [StartThreads env shm] d l' d') \<longleftrightarrow> d' = d"
    if "c = None \<or> s = None \<or> a = None"
    using that by (cases c; cases s; cases a) (auto simp: completes_Cons)
  moreover have "(\<exists>l'. finishes_life ?l [StartThreads env shm] d l' d') \<longleftrightarrow>
      (let (created, sd) = start_threads env shm s1 c1 a1;
           d1 = (case sd_alive sd of
               Some (ctx, Some n) \<Rightarrow> d\<lparr>lf_contexts := (lf_contexts d)(n \<mapsto> ctx)\<rparr> | _ \<Rightarrow> d)
       in \<exists>r st. conclude_activation env (as_proxy_name shm)
            (if created then ACTIVATIONSTATE_DISPATCHER_SUCCESS else ACTIVATIONSTATE_DISPATCHER_FAILED)
            sd sig (lf_state d) = ActDone (r, st) \<and>
          d' = d1\<lparr>lf_state := admitted env (as_proxy_name shm) r st\<rparr>)"
    if "c = Some c1" "s = Some s1" "a = Some a1" for c1 s1 a1
  proof -
    obtain created sd where st: "start_threads env shm s1 c1 a1 = (created, sd)" by force
    define d1 where "d1 = (case sd_alive sd of
        Some (ctx, Some n) \<Rightarrow> d\<lparr>lf_contexts := (lf_contexts d)(n \<mapsto> ctx)\<rparr> | _ \<Rightarrow> d)"
    have "lf_state d1 = lf_state d" by (simp add: d1_def split: option.split)
    moreover have "shared sd d1" unfolding d1_def by (rule started_shared [OF st])
    ultimately show ?thesis
      using conclude_alone [of sd d1 ?l env "as_proxy_name shm" _ d' sig] that
      by (simp add: completes_Cons [of _ _ _ "StartThreads env shm"] st d1_def [symmetric] Let_def)
  qed
  ultimately show ?thesis
    using m by (cases c; cases s; cases a) (simp_all only: prod.case option.case option.simps simp_thms)
qed


lemma map_state_alone:
  "(\<exists>f l'. finishes_life l (map_ops env shm) d l' \<lparr>lf_state = st', lf_contexts = f\<rparr>) \<longleftrightarrow>
     (case mapped env shm (lf_state d) of
        (Some c, Some s, Some a) \<Rightarrow>
          (\<exists>r st. conclude_activation env (as_proxy_name shm)
             (if fst (start_threads env shm s c a) then ACTIVATIONSTATE_DISPATCHER_SUCCESS
              else ACTIVATIONSTATE_DISPATCHER_FAILED)
             (snd (start_threads env shm s c a)) sig (lf_state d) = ActDone (r, st) \<and>
           st' = admitted env (as_proxy_name shm) r st)
      | _ \<Rightarrow> st' = lf_state d)"
proof -
  have ex: "(\<exists>f r st. Q r st \<and> \<lparr>lf_state = st', lf_contexts = f\<rparr> = e\<lparr>lf_state := h r st\<rparr>) \<longleftrightarrow>
      (\<exists>r st. Q r st \<and> st' = h r st)" for Q h and e :: life
    by (cases e) auto
  show ?thesis
    unfolding map_alone [where sig = sig]
    by (cases "mapped env shm (lf_state d)"; cases d)
      (simp add: ex Let_def split_beta split: option.split)
qed

lemma activation_alone:
  assumes "as_proxy_name shm \<noteq> []" "as_state shm = ACTIVATION_REQUEST"
  shows "(\<exists>l' f. finishes_life l [ReadZombie env shm] d l' \<lparr>lf_state = st', lf_contexts = f\<rparr>) \<longleftrightarrow>
    (\<exists>go. proxy_activator_round env False False shm (lf_state d) = ActDone (go, st'))"
proof -
  let ?p = "as_proxy_name shm"
  have round: "(\<exists>go. proxy_activator_round env False False shm (lf_state d) = ActDone (go, st')) \<longleftrightarrow>
      (\<exists>r st. proxy_activation env shm (lf_state d) = ActDone (r, st) \<and> st' = admitted env ?p r st)"
  proof (cases "proxy_activation env shm (lf_state d)")
    case (ActDone b)
    obtain r st where "b = (r, st)" by force
    with ActDone assms show ?thesis
      unfolding proxy_activator_round_def admitted_def by (cases "ar_respond r") auto
  qed (use assms in \<open>auto simp: proxy_activator_round_def\<close>)
  show ?thesis
  proof (cases "proxy_thread_zombie ?p (g_terminating (lf_state d))")
    case True
    have "shared no_threads d" by (simp add: shared_def no_threads_def)
    have "(\<exists>l' f. finishes_life l [ReadZombie env shm] d l' \<lparr>lf_state = st', lf_contexts = f\<rparr>) \<longleftrightarrow>
      (\<exists>f l'. finishes_life l [AwaitProxy env ?p ACTIVATIONSTATE_DISPATCHER_FAILED no_threads]
        d l' \<lparr>lf_state = st', lf_contexts = f\<rparr>)"
      using True by (auto simp: completes_Cons [of _ _ _ "ReadZombie env shm"])
    also have "\<dots> \<longleftrightarrow> (\<exists>f r st. conclude_activation env ?p
        ACTIVATIONSTATE_DISPATCHER_FAILED no_threads [] (lf_state d) = ActDone (r, st) \<and>
        \<lparr>lf_state = st', lf_contexts = f\<rparr> = d\<lparr>lf_state := admitted env ?p r st\<rparr>)"
      by (rule ex_cong1, rule conclude_alone [OF \<open>shared no_threads d\<close>])
    also have "\<dots> \<longleftrightarrow> (\<exists>r st. proxy_activation env shm (lf_state d) = ActDone (r, st) \<and>
        st' = admitted env ?p r st)"
      using True by (cases d) (auto simp: proxy_activation_def)
    finally show ?thesis unfolding round .
  next
    case False
    show ?thesis
    proof (cases "proxy_thread_kill ?p (lf_state d)")
      case Blocked
      with False show ?thesis
        unfolding round by (auto simp: completes_Cons [of _ _ _ "ReadZombie env shm"] completes_append kill_alone
            proxy_activation_def)
    next
      case (Done b)
      obtain st1 sig where b: "b = (st1, sig)" by force
      let ?l = "found_in ?p (lf_state d) sig l" and ?d = "d\<lparr>lf_state := st1\<rparr>"
      have "(\<exists>l' f. finishes_life l [ReadZombie env shm] d l' \<lparr>lf_state = st', lf_contexts = f\<rparr>) \<longleftrightarrow>
          (\<exists>f l'. finishes_life ?l (map_ops env shm) ?d l' \<lparr>lf_state = st', lf_contexts = f\<rparr>)"
        using False Done b by (auto simp: completes_Cons [of _ _ _ "ReadZombie env shm"] completes_append kill_alone)
      also have "\<dots> \<longleftrightarrow> (\<exists>r st. proxy_activation env shm (lf_state d) = ActDone (r, st) \<and>
          st' = admitted env ?p r st)"
        unfolding map_state_alone [where sig = sig] using False Done b
        by (simp add: proxy_activation_def mapped_def Let_def split_beta split: option.split)
      finally show ?thesis unfolding round .
    qed
  qed
qed

lemma drain_alone:
  "(\<exists>l'. finishes_life l [PopQueue] d l' d') \<longleftrightarrow>
     (\<exists>st sig. proxy_terminator_round (lf_state d) = Done (st, sig) \<and> d' = d\<lparr>lf_state := st\<rparr>)"
proof -
  have "(\<exists>l'. finishes_life l [PopQueue] d l' d') \<longleftrightarrow>
     (\<exists>st sig. terminator_drain q (lf_state d) = Done (st, sig) \<and> d' = d\<lparr>lf_state := st\<rparr>)"
    if "g_queue (lf_state d) = q" for q
    using that
  proof (induction q arbitrary: l d)
    case (Cons p q)
    let ?d = "on_life (\<lambda>st. st\<lparr>g_queue := q\<rparr>) d"
    have step: "(\<exists>l'. finishes_life l [PopQueue] d l' d') \<longleftrightarrow>
        (\<exists>l' l1 d1. finishes_life l (terminate_ops p) ?d l1 d1 \<and> finishes_life l1 [PopQueue] d1 l' d')"
      using Cons.prems by (auto simp: completes_Cons [of _ _ _ PopQueue] completes_append)
    show ?case
    proof (cases "terminate_proxy p (lf_state ?d)")
      case Blocked
      with Cons.prems show ?thesis unfolding step by (auto simp: terminate_alone on_life_def)
    next
      case (Done b)
      obtain st sig where b: "b = (st, sig)" by force
      have "g_queue st = q" using Done b
        by (auto simp: terminate_proxy_def on_life_def Let_def same_but_threads_def split: blocking.splits
            dest!: kill_frame)
      with Cons.IH [of "d\<lparr>lf_state := st\<rparr>"] Done b show ?thesis
        unfolding step by (auto simp: terminate_alone on_life_def split: blocking.splits)
    qed
  qed (auto simp: completes_Cons)
  then show ?thesis by (simp add: proxy_terminator_round_def)
qed

lemma activator_alone:
  "(\<exists>l' f. finishes_life l (activator_ops env end_flag dead shm) d l' \<lparr>lf_state = st', lf_contexts = f\<rparr>) \<longleftrightarrow>
     (\<exists>go. proxy_activator_round env end_flag dead shm (lf_state d) = ActDone (go, st'))"
proof (cases "activator_ops env end_flag dead shm = []")
  case True
  then show ?thesis
    by (cases d) (auto simp: activator_ops_def proxy_activator_round_def split: if_splits)
next
  case False
  then have "activator_ops env end_flag dead shm = [ReadZombie env shm]" "as_proxy_name shm \<noteq> []"
    "as_state shm = ACTIVATION_REQUEST" "\<not> end_flag" "\<not> dead"
    by (auto simp: activator_ops_def split: if_splits)
  then show ?thesis using activation_alone [of shm l env d st'] by simp
qed

text \<open>C20: the activator, the terminator and the alive threads are their sequences of operations: run without
  others in between, the operations of a kill, of a turn of the terminator and of the activator, and of one
  turn of an alive thread end exactly where the definition of that part as one step is not blocked, in the
  state that it gives; a kill sends the same signals.\<close>

theorem threads_are_their_operations:
  "((\<exists>l'. finishes_life l (kill_ops p) d l' d' \<and> ll_sigterms l' = ll_sigterms l @ sig) \<longleftrightarrow>
      (\<exists>st. proxy_thread_kill p (lf_state d) = Done (st, sig) \<and> d' = d\<lparr>lf_state := st\<rparr>)) \<and>
   ((\<exists>l'. finishes_life l [PopQueue] d l' d') \<longleftrightarrow>
      (\<exists>st sig. proxy_terminator_round (lf_state d) = Done (st, sig) \<and> d' = d\<lparr>lf_state := st\<rparr>)) \<and>
   ((\<exists>l' f. finishes_life l (activator_ops env end_flag dead shm) d l' \<lparr>lf_state = st', lf_contexts = f\<rparr>) \<longleftrightarrow>
      (\<exists>go. proxy_activator_round env end_flag dead shm (lf_state d) = ActDone (go, st'))) \<and>
   (let d0 = d\<lparr>lf_contexts := (lf_contexts d)(n \<mapsto> ctx)\<rparr>;
        (ctx1, st1) = proxy_alive_round (e\<lparr>ae_env := id\<rparr>) ctx (lf_state d)
    in (\<exists>l'. finishes_life l [LockAlive e n] d0 l' d') \<longleftrightarrow> d' = write_context n ctx1 (d0\<lparr>lf_state := st1\<rparr>))"
proof (intro conjI activator_alone drain_alone)
  show "(\<exists>l'. finishes_life l (kill_ops p) d l' d' \<and> ll_sigterms l' = ll_sigterms l @ sig) \<longleftrightarrow>
      (\<exists>st. proxy_thread_kill p (lf_state d) = Done (st, sig) \<and> d' = d\<lparr>lf_state := st\<rparr>)"
    by (auto simp: kill_alone found_in_def)
  let ?e = "e\<lparr>ae_env := id\<rparr>"
  let ?d = "d\<lparr>lf_contexts := (lf_contexts d)(n \<mapsto> ctx)\<rparr>"
  obtain ctx1 st1 where r: "proxy_alive_round ?e ctx (lf_state ?d) = (ctx1, st1)" by force
  have "do_life (LockAlive e n) l ?d = do_life (LockAlive ?e n) l ?d" by (simp add: Let_def)
  then have "finishes_life l [LockAlive e n] ?d l' d' \<longleftrightarrow> finishes_life l [LockAlive ?e n] ?d l' d'" for l'
    by (simp add: completes_Cons del: do_life.simps)
  with death_alone [of ?d n ctx ?e ctx1 st1 l _ d'] r
  show "let d0 = ?d; (ctx1, st1) = proxy_alive_round ?e ctx (lf_state d)
     in (\<exists>l'. finishes_life l [LockAlive e n] d0 l' d') \<longleftrightarrow> d' = write_context n ctx1 (d0\<lparr>lf_state := st1\<rparr>)"
    by simp
qed

end
