(* ===== verification/Thread_Races.thy ===== *)
theory Thread_Races
  imports Thread_Steps "HOL-Library.Sublist"
begin

text \<open>
  The activator, the terminator and the alive threads running at the same time, the operations of
  \<open>Thread_Steps\<close> interleaved in any way that the mutexes, the joins and the order of each thread allow.
\<close>

section \<open>Threads\<close>

datatype life_thread = Activator | Terminator | AliveThread nat

record lives =
  lv_life :: life
  lv_local :: "life_thread \<Rightarrow> life_local"
  lv_ops :: "life_thread \<Rightarrow> life_op list"
  lv_kill :: "life_thread option"   \<comment> \<open>who holds \<open>proxy_thread_kill_lock\<close>\<close>

abbreviation lv_state :: "lives \<Rightarrow> gonggo" where "lv_state s \<equiv> lf_state (lv_life s)"
abbreviation lv_context :: "lives \<Rightarrow> nat \<Rightarrow> ProxyAliveContext option" where
  "lv_context s \<equiv> lf_contexts (lv_life s)"

definition puts :: "life_thread \<Rightarrow> life_op list \<Rightarrow> lives \<Rightarrow> lives" where
  "puts t ops s = s\<lparr>lv_ops := (lv_ops s)(t := ops)\<rparr>"

text \<open>An alive thread has ended once its proxy is dead and it has told everyone.\<close>

definition ended :: "lives \<Rightarrow> nat \<Rightarrow> bool" where
  "ended s n \<longleftrightarrow> lv_ops s (AliveThread n) = [] \<and> (\<exists>c. lv_context s n = Some c \<and> ac_dead c)"

text \<open>
  What an operation waits for: the mutex of \<open>proxy_thread_kill\<close>, the end of the alive thread that is joined,
  and the mutex of the terminator, which it holds while it works through its queue.  A new thread gets an
  identifier that no other has.
\<close>

fun may_go :: "lives \<Rightarrow> life_thread \<Rightarrow> life_op \<Rightarrow> bool" where
  "may_go s t (LockKill p) = (lv_kill s = None)"
| "may_go s t (RemoveAlive p) = (case ll_alive (lv_local s t) of None \<Rightarrow> True | Some n \<Rightarrow> ended s n)"
| "may_go s t (Undo p sd) = (case alive_thread sd of None \<Rightarrow> True | Some n \<Rightarrow> ended s n)"
| "may_go s t (AwakeTerminator p) = (lv_ops s Terminator = [])"
| "may_go s t (StartThreads env shm) =
     (case av_alive_thread env of None \<Rightarrow> True | Some n \<Rightarrow> lv_context s n = None)"
| "may_go s t _ = True"

fun kill_holder :: "life_thread \<Rightarrow> life_op \<Rightarrow> life_thread option \<Rightarrow> life_thread option" where
  "kill_holder t (LockKill p) h = Some t"
| "kill_holder t (UnlockKill p) h = None"
| "kill_holder t _ h = h"

definition does :: "life_thread \<Rightarrow> life_op \<Rightarrow> life_op list \<Rightarrow> lives \<Rightarrow> lives" where
  "does t x k s =
     (let (l, new, d) = do_life x (lv_local s t) (lv_life s)
      in s\<lparr>lv_life := d, lv_local := (lv_local s)(t := l), lv_ops := (lv_ops s)(t := new @ k),
           lv_kill := kill_holder t x (lv_kill s)\<rparr>)"

text \<open>The activator works for a proxy from the decision to admit it until its threads are started.\<close>

definition admitting :: "lives \<Rightarrow> pname \<Rightarrow> bool" where
  "admitting s p \<longleftrightarrow> (\<exists>env shm. StartThreads env shm \<in> set (lv_ops s Activator) \<and> as_proxy_name shm = p)"

text \<open>What the rest of gonggo and the proxies do: the threads of a proxy change its contexts, handlers the
  client tables; proxies create their segments, but none does so while the activator works for its name.\<close>

definition keeps_threads :: "lives \<Rightarrow> gonggo \<Rightarrow> bool" where
  "keeps_threads s st \<longleftrightarrow> g_alives st = g_alives (lv_state s) \<and> g_queue st = g_queue (lv_state s) \<and>
     g_terminating st = g_terminating (lv_state s) \<and>
     (\<forall>p. map_option (\<lambda>e. (te_thread e, sc_proxy_name (te_ctx e))) (ht_lookup (g_subscribes st) p) =
          map_option (\<lambda>e. (te_thread e, sc_proxy_name (te_ctx e))) (ht_lookup (g_subscribes (lv_state s)) p)) \<and>
     (\<forall>p. map_option (\<lambda>e. (te_thread e, cc_proxy_name (te_ctx e))) (ht_lookup (g_channels st) p) =
          map_option (\<lambda>e. (te_thread e, cc_proxy_name (te_ctx e))) (ht_lookup (g_channels (lv_state s)) p)) \<and>
     (\<forall>p. admitting s p \<and> ht_lookup (g_segments (lv_state s)) (proxy_channel_path p) = None \<longrightarrow>
          ht_lookup (g_segments st) (proxy_channel_path p) = None)"

inductive life_step :: "lives \<Rightarrow> lives \<Rightarrow> bool" where
  turn: "lv_ops s Activator = [] \<Longrightarrow> life_step s (puts Activator (activator_ops env end_flag dead shm) s)"
| awake: "lv_ops s Terminator = [] \<Longrightarrow> life_step s (puts Terminator [PopQueue] s)"
| watch: "lv_ops s (AliveThread n) = [] \<Longrightarrow> lv_context s n = Some c \<Longrightarrow> \<not> ac_dead c \<Longrightarrow>
    life_step s (puts (AliveThread n) [LockAlive e n] s)"
| operation: "lv_ops s t = x # k \<Longrightarrow> may_go s t x \<Longrightarrow> life_ok x (lv_local s t) (lv_life s) \<Longrightarrow>
    life_step s (does t x k s)"
| elsewhere: "keeps_threads s st \<Longrightarrow> life_step s (s\<lparr>lv_life := (lv_life s)\<lparr>lf_state := st\<rparr>\<rparr>)"

definition lives_init :: "lives \<Rightarrow> bool" where
  "lives_init s \<longleftrightarrow> (\<forall>t. lv_ops s t = []) \<and> (\<forall>n. lv_context s n = None) \<and> lv_kill s = None \<and>
     g_subscribes (lv_state s) = [] \<and> g_channels (lv_state s) = [] \<and> g_alives (lv_state s) = [] \<and>
     g_queue (lv_state s) = [] \<and> g_terminating (lv_state s) = [] \<and> (\<forall>t. ll_sigterms (lv_local s t) = [])"

section \<open>Where the threads are\<close>

definition alive_shape :: "lives \<Rightarrow> nat \<Rightarrow> bool" where
  "alive_shape s n \<longleftrightarrow>
     (case lv_context s n of
        None \<Rightarrow> lv_ops s (AliveThread n) = []
      | Some c \<Rightarrow>
          (if ac_dead c then \<exists>w. suffix (lv_ops s (AliveThread n)) (death_ops w (ac_proxy_name c))
           else lv_ops s (AliveThread n) = [] \<or> (\<exists>e. lv_ops s (AliveThread n) = [LockAlive e n])))"

definition terminator_shape :: "life_op list \<Rightarrow> bool" where
  "terminator_shape ops \<longleftrightarrow> (\<exists>p. suffix ops (terminate_ops p @ [PopQueue]))"

text \<open>A thread that has yet to queue its proxy, one whose proxy is being buried, and every claim on a proxy.\<close>

definition unqueued :: "lives \<Rightarrow> nat \<Rightarrow> pname \<Rightarrow> bool" where
  "unqueued s n p \<longleftrightarrow> (\<exists>c. lv_context s n = Some c \<and> ac_proxy_name c = p \<and>
     (ac_dead c \<longrightarrow> AwakeTerminator p \<in> set (lv_ops s (AliveThread n))))"

definition burying :: "lives \<Rightarrow> pname \<Rightarrow> bool" where
  "burying s p \<longleftrightarrow> DropZombie p \<in> set (lv_ops s Terminator)"

definition claimed :: "lives \<Rightarrow> pname \<Rightarrow> bool" where
  "claimed s p \<longleftrightarrow> (\<exists>n. unqueued s n p) \<or> p \<in> set (g_queue (lv_state s)) \<or> burying s p"

text \<open>Lookups in the tables: an alive thread that is registered, a registered channel, a channel segment that
  does not exist, the name in the context of an alive thread.\<close>

definition alive_reg :: "lives \<Rightarrow> nat \<Rightarrow> pname \<Rightarrow> bool" where
  "alive_reg s n p \<longleftrightarrow> map_option te_thread (ht_lookup (g_alives (lv_state s)) p) = Some n"

definition chan_reg :: "lives \<Rightarrow> pname \<Rightarrow> bool" where
  "chan_reg s p \<longleftrightarrow> ht_lookup (g_channels (lv_state s)) p \<noteq> None"

definition unlinked :: "lives \<Rightarrow> pname \<Rightarrow> bool" where
  "unlinked s p \<longleftrightarrow> ht_lookup (g_segments (lv_state s)) (proxy_channel_path p) = None"

definition named :: "lives \<Rightarrow> nat \<Rightarrow> pname \<Rightarrow> bool" where
  "named s n p \<longleftrightarrow> map_option ac_proxy_name (lv_context s n) = Some p"

section \<open>What one operation changes\<close>

lemma undo_state:
  "undo_activation sd st = ActDone (st', sig) \<Longrightarrow> \<exists>ps. st' = unlink_all ps st"
  by (auto simp: undo_activation_def Let_def split: if_splits)

lemma do_life_contexts:
  assumes "do_life x l d = (l', new, d')" "\<forall>e n. x \<noteq> LockAlive e n" "\<forall>env shm. x \<noteq> StartThreads env shm"
  shows "lf_contexts d' = lf_contexts d"
  using assms by (cases x) (auto simp: on_life_def Let_def split: option.splits if_splits blocking.splits
      prod.splits activation_outcome.splits list.splits)

lemma do_life_queue:
  assumes "do_life x l d = (l', new, d')"
  shows "g_queue (lf_state d') =
    (case x of PopQueue \<Rightarrow> tl (g_queue (lf_state d)) | AwakeTerminator p \<Rightarrow> g_queue (lf_state d) @ [p]
     | _ \<Rightarrow> g_queue (lf_state d))"
  using assms by (cases x) (auto simp: on_life_def Let_def write_context_def proxy_terminator_awake_def
      dest!: undo_state split: option.splits if_splits blocking.splits prod.splits activation_outcome.splits
      list.splits)

lemma do_life_terminating:
  assumes "do_life x l d = (l', new, d')"
  shows "g_terminating (lf_state d') =
    (case x of DropZombie p \<Rightarrow> proxy_thread_terminating_drop p (g_terminating (lf_state d))
     | SetZombie p \<Rightarrow> proxy_thread_terminating_set p (g_terminating (lf_state d))
     | _ \<Rightarrow> g_terminating (lf_state d))"
  using assms by (cases x) (auto simp: on_life_def Let_def write_context_def proxy_terminator_awake_def
      dest!: undo_state split: option.splits if_splits blocking.splits prod.splits activation_outcome.splits
      list.splits)

lemma do_life_segments:
  assumes "do_life x l d = (l', new, d')" "ht_lookup (g_segments (lf_state d)) path = None"
  shows "ht_lookup (g_segments (lf_state d')) path = None"
  using assms by (cases x) (auto simp: on_life_def Let_def write_context_def proxy_terminator_awake_def
      dest!: undo_state split: option.splits if_splits blocking.splits prod.splits activation_outcome.splits
      list.splits)

lemma share_lookup [simp]:
  "ht_lookup (share_context n c t) p =
     map_option (\<lambda>e. if te_thread e = n then e\<lparr>te_ctx := c\<rparr> else e) (ht_lookup t p)"
  unfolding share_context_def ht_lookup_def by (simp add: map_of_map)

lemma lock_alive:
  assumes "lf_contexts d n = Some c"
  obtains c' where "ac_proxy_name c' = ac_proxy_name c"
    "do_life (LockAlive e n) l d =
       (l, if ac_dead c' then death_ops (ae_world e) (ac_proxy_name c) else [], write_context n c' d)"
proof
  let ?dead = "ae_status e = EOWNERDEAD \<or> ae_status e = 0 \<and> \<not> ae_alive e"
  show "ac_proxy_name (c\<lparr>ac_dead := ?dead, ac_shm := \<lparr>al_alive = ae_alive e\<rparr>\<rparr>) = ac_proxy_name c"
    "do_life (LockAlive e n) l d = (l, if ac_dead (c\<lparr>ac_dead := ?dead, ac_shm := \<lparr>al_alive = ae_alive e\<rparr>\<rparr>)
       then death_ops (ae_world e) (ac_proxy_name c) else [],
       write_context n (c\<lparr>ac_dead := ?dead, ac_shm := \<lparr>al_alive = ae_alive e\<rparr>\<rparr>) d)"
    using assms by (simp_all add: Let_def)
qed

lemma do_life_alives:
  assumes "do_life x l d = (l', new, d')" "\<forall>e n. x \<noteq> LockAlive e n"
  shows "ht_lookup (g_alives (lf_state d')) p =
    (case x of
       RemoveAlive q \<Rightarrow> if q = p \<and> ll_alive l \<noteq> None then None else ht_lookup (g_alives (lf_state d)) p
     | SetAlive q n \<Rightarrow>
         (case lf_contexts d n of
            Some c \<Rightarrow> if q = p then Some \<lparr>te_thread = n, te_ctx = c\<rparr> else ht_lookup (g_alives (lf_state d)) p
          | None \<Rightarrow> ht_lookup (g_alives (lf_state d)) p)
     | _ \<Rightarrow> ht_lookup (g_alives (lf_state d)) p)"
  using assms by (cases x) (auto simp: on_life_def Let_def proxy_terminator_awake_def
      alive_table_defs dest!: undo_state split: option.splits if_splits blocking.splits prod.splits
      activation_outcome.splits list.splits)

lemma channel_stop_name [simp]: "proxy_channel_stop c = Done c' \<Longrightarrow> cc_proxy_name c' = cc_proxy_name c"
  by (auto simp: proxy_channel_stop_def set_state_def split: if_splits)

abbreviation chan_name :: "gonggo \<Rightarrow> pname \<Rightarrow> pname option" where
  "chan_name st p \<equiv> map_option (\<lambda>e. cc_proxy_name (te_ctx e)) (ht_lookup (g_channels st) p)"

lemma do_life_channels:
  assumes "do_life x l d = (l', new, d')"
  shows "chan_name (lf_state d') p =
    (case x of
       RemoveChannel q \<Rightarrow> if q = p \<and> ll_channel l \<noteq> None then None else chan_name (lf_state d) p
     | SetChannel q n c \<Rightarrow> if q = p then Some (cc_proxy_name c) else chan_name (lf_state d) p
     | _ \<Rightarrow> chan_name (lf_state d) p)"
  using assms by (cases x) (auto simp: on_life_def Let_def write_context_def proxy_terminator_awake_def
      channel_table_defs dest!: undo_state split: option.splits if_splits blocking.splits prod.splits
      activation_outcome.splits list.splits)

lemma remove_channel_unlinks:
  assumes "do_life (RemoveChannel p) l d = (l', new, d')" "ll_channel l \<noteq> None"
    "chan_name (lf_state d) p = Some p"
  shows "ht_lookup (g_segments (lf_state d')) (proxy_channel_path p) = None"
  using assms by (auto simp: on_life_def channel_table_defs proxy_channel_context_destroy_def)

lemma do_life_new:
  assumes "do_life x l d = (l', new, d')"
  shows "new = [] \<or> (\<exists>env shm. x = ReadZombie env shm) \<or> (\<exists>env shm. x = StartThreads env shm) \<or>
    (\<exists>env p state sd. x = AwaitProxy env p state sd) \<or> x = PopQueue \<or> (\<exists>e n. x = LockAlive e n)"
  using assms by (cases x) (auto simp: Let_def split: option.splits if_splits blocking.splits prod.splits
      activation_outcome.splits list.splits)

lemma do_life_sigterms:
  assumes "do_life x l d = (l', new, d')" "\<forall>p sd. x \<noteq> Undo p sd"
  shows "ll_sigterms l' = ll_sigterms l @
    (case x of StopAlive p \<Rightarrow>
        (case ht_lookup (g_alives (lf_state d)) p of
           Some e \<Rightarrow> if ac_dead (te_ctx e) then [] else [ac_pid (te_ctx e)] | None \<Rightarrow> [])
     | _ \<Rightarrow> [])"
  using assms by (cases x) (auto simp: Let_def alive_table_defs proxy_alive_stop_def
      split: option.splits if_splits blocking.splits prod.splits list.splits)

end
