(* ===== verification/Thread_Invariant.thy ===== *)
theory Thread_Invariant
  imports Thread_Races
begin

text \<open>
  What every interleaving of the activator, the terminator and the alive threads keeps: a proxy is claimed at
  most once, by the alive thread that has yet to queue it, by the queue or by its burial.
\<close>

section \<open>Claims\<close>

definition claims_ok :: "lives \<Rightarrow> bool" where
  "claims_ok s \<longleftrightarrow> (\<forall>n. alive_shape s n) \<and> terminator_shape (lv_ops s Terminator) \<and>
     (\<forall>m n p. unqueued s m p \<and> unqueued s n p \<longrightarrow> m = n) \<and>
     (\<forall>n p. unqueued s n p \<longrightarrow> p \<notin> set (g_queue (lv_state s)) \<and> \<not> burying s p) \<and>
     distinct (g_queue (lv_state s)) \<and> (\<forall>p \<in> set (g_queue (lv_state s)). \<not> burying s p)"

definition marks_ok :: "lives \<Rightarrow> bool" where
  "marks_ok s \<longleftrightarrow> distinct (g_terminating (lv_state s)) \<and>
     (\<forall>p. p \<in> set (g_queue (lv_state s)) \<or> burying s p \<or>
          (\<exists>n. AwakeTerminator p \<in> set (lv_ops s (AliveThread n)) \<and> SetZombie p \<notin> set (lv_ops s (AliveThread n)))
        \<longrightarrow> p \<in> set (g_terminating (lv_state s)))"

definition entries_ok :: "lives \<Rightarrow> bool" where
  "entries_ok s \<longleftrightarrow>
     (\<forall>p e. ht_lookup (g_alives (lv_state s)) p = Some e \<longrightarrow>
        lv_context s (te_thread e) = Some (te_ctx e) \<and> ac_proxy_name (te_ctx e) = p) \<and>
     (\<forall>p. chan_name (lv_state s) p = None \<or> chan_name (lv_state s) p = Some p)"

definition no_signals :: "lives \<Rightarrow> bool" where
  "no_signals s \<longleftrightarrow> ll_sigterms (lv_local s Terminator) = []"

lemmas claims_defs = unqueued_def burying_def claimed_def

lemma claimsD:
  assumes "claims_ok s"
  shows "alive_shape s n" "terminator_shape (lv_ops s Terminator)"
    "unqueued s m p \<Longrightarrow> unqueued s n p \<Longrightarrow> m = n"
    "unqueued s n p \<Longrightarrow> p \<notin> set (g_queue (lv_state s)) \<and> \<not> burying s p"
    "distinct (g_queue (lv_state s))" "p \<in> set (g_queue (lv_state s)) \<Longrightarrow> \<not> burying s p"
  using assms unfolding claims_ok_def by blast+

lemma entriesD:
  assumes "entries_ok s"
  shows "ht_lookup (g_alives (lv_state s)) p = Some e \<Longrightarrow> lv_context s (te_thread e) = Some (te_ctx e)"
    "ht_lookup (g_alives (lv_state s)) p = Some e \<Longrightarrow> ac_proxy_name (te_ctx e) = p"
    "chan_name (lv_state s) p \<noteq> None \<Longrightarrow> chan_name (lv_state s) p = Some p"
  using assms unfolding entries_ok_def by metis+

lemma terminator_list:
  "terminate_ops p @ [PopQueue] = [Unsend p, LockKill p, StopSubscribe p, StopChannel p, StopAlive p,
     RemoveSubscribe p, RemoveChannel p, RemoveAlive p, UnlockKill p, DropZombie p, PopQueue]"
  by (simp add: terminate_ops_def kill_ops_def)

lemma terminator_cases:
  assumes "terminator_shape (x # k)"
  shows "x = PopQueue \<and> k = [] \<or> (\<exists>p. x = DropZombie p \<and> k = [PopQueue]) \<or>
    (\<exists>p. DropZombie p \<in> set k \<and> x \<in> {Unsend p, LockKill p, StopSubscribe p, StopChannel p, StopAlive p,
       RemoveSubscribe p, RemoveChannel p, RemoveAlive p, UnlockKill p})"
proof -
  obtain p where "suffix (x # k) (terminate_ops p @ [PopQueue])"
    using assms unfolding terminator_shape_def by blast
  then show ?thesis
    unfolding terminator_list suffix_Cons suffix_Nil by (elim disjE) simp_all
qed

lemma terminator_tail: "terminator_shape (x # k) \<Longrightarrow> terminator_shape k"
  unfolding terminator_shape_def by (blast dest: suffix_ConsD)

lemma burying_one:
  assumes "terminator_shape ops" "DropZombie p \<in> set ops" "DropZombie q \<in> set ops"
  shows "p = q"
proof -
  obtain r where "set ops \<subseteq> set (terminate_ops r @ [PopQueue])"
    using assms(1) unfolding terminator_shape_def by (blast dest: set_mono_suffix)
  with assms(2,3) show ?thesis unfolding terminator_list by auto
qed

text \<open>Claims do not look at the operations of the activator.\<close>

lemma pending_cong:
  "lv_context s = lv_context s' \<Longrightarrow> (\<And>n. lv_ops s (AliveThread n) = lv_ops s' (AliveThread n)) \<Longrightarrow>
     unqueued s = unqueued s'"
  by (simp add: unqueued_def fun_eq_iff)

lemma claims_cong:
  assumes "lv_context s = lv_context s'" "\<And>n. lv_ops s (AliveThread n) = lv_ops s' (AliveThread n)"
    "g_queue (lv_state s) = g_queue (lv_state s')" "lv_ops s Terminator = lv_ops s' Terminator"
  shows "claims_ok s = claims_ok s'" "claimed s = claimed s'" "unqueued s = unqueued s'" "burying s = burying s'"
proof -
  note p = pending_cong [OF assms(1,2)]
  have "alive_shape s = alive_shape s'" unfolding alive_shape_def assms(1,2) ..
  then show "claims_ok s = claims_ok s'" "claimed s = claimed s'" "unqueued s = unqueued s'" "burying s = burying s'"
    by (simp_all add: claims_ok_def claimed_def fun_eq_iff assms p [unfolded fun_eq_iff] burying_def)
qed

lemma does_fields:
  assumes "do_life x (lv_local s t) (lv_life s) = (l, new, d)"
  shows "lv_life (does t x k s) = d" "lv_local (does t x k s) = (lv_local s)(t := l)"
    "lv_ops (does t x k s) = (lv_ops s)(t := new @ k)"
  using assms by (simp_all add: does_def)

section \<open>A step of the terminator\<close>

lemma terminator_step:
  assumes "claims_ok s" "lv_ops s Terminator = x # k"
  defines "s' \<equiv> does Terminator x k s"
  shows "claims_ok s'" "unqueued s' = unqueued s" "claimed s' p \<Longrightarrow> claimed s p" "lv_context s' = lv_context s"
    "burying s' p \<Longrightarrow> burying s p \<or> p \<in> set (g_queue (lv_state s))"
    "set (g_queue (lv_state s')) \<subseteq> set (g_queue (lv_state s))"
proof -
  obtain l new d where d: "do_life x (lv_local s Terminator) (lv_life s) = (l, new, d)"
    using prod_cases3 by blast
  note f = does_fields [OF d, of k, folded s'_def]
  note inv = claimsD [OF assms(1)]
  note shape = terminator_cases [OF inv(2) [unfolded assms(2)]]
  from shape have n: "\<forall>e n. x \<noteq> LockAlive e n" "\<forall>env shm. x \<noteq> StartThreads env shm" by auto
  show c: "lv_context s' = lv_context s" using do_life_contexts [OF d n] f by simp
  have a: "lv_ops s' (AliveThread m) = lv_ops s (AliveThread m)" for m using f by simp
  show p: "unqueued s' = unqueued s" by (rule pending_cong [OF c a])
  have sh: "alive_shape s' m" for m using inv(1) [of m] unfolding alive_shape_def c a .
  consider (pop) "x = PopQueue" "k = []" | (drop) q where "x = DropZombie q" "k = [PopQueue]"
    | (kill) "\<forall>q. DropZombie q \<in> set (x # k) \<longleftrightarrow> DropZombie q \<in> set k" "new = []"
        "g_queue (lv_state s') = g_queue (lv_state s)"
    using shape do_life_new [OF d] do_life_queue [OF d] f by fastforce
  then have "claims_ok s' \<and> (claimed s' p \<longrightarrow> claimed s p) \<and> (burying s' p \<longrightarrow> burying s p \<or> p \<in> set (g_queue (lv_state s))) \<and>
      set (g_queue (lv_state s')) \<subseteq> set (g_queue (lv_state s))"
  proof cases
    case pop
    show ?thesis
    proof (cases "g_queue (lv_state s)")
      case Nil
      with pop d f have "lv_ops s' Terminator = []" "g_queue (lv_state s') = []" by auto
      with assms(1) sh Nil show ?thesis
        by (auto simp: claims_ok_def p burying_def claimed_def terminator_shape_def)
    next
      case (Cons q qs)
      with pop d f have t: "lv_ops s' Terminator = terminate_ops q @ [PopQueue]" "g_queue (lv_state s') = qs"
        using do_life_queue [OF d] by auto
      then have b: "burying s' r \<longleftrightarrow> r = q" for r by (auto simp: burying_def terminator_list)
      have "terminator_shape (lv_ops s' Terminator)" by (auto simp: terminator_shape_def t)
      with sh inv(3-6) Cons show ?thesis
        unfolding claims_ok_def p b t claimed_def by auto
    qed
  next
    case drop
    then have t: "lv_ops s' Terminator = [PopQueue]" "g_queue (lv_state s') = g_queue (lv_state s)"
      using d f do_life_queue [OF d] by auto
    then have b: "\<not> burying s' r" for r by (simp add: burying_def)
    have "terminator_shape (lv_ops s' Terminator)" by (auto simp: terminator_shape_def t terminator_list suffix_Cons)
    with sh inv(3-6) b show ?thesis
      unfolding claims_ok_def p t claimed_def by auto
  next
    case kill
    then have t: "lv_ops s' Terminator = k" using f by simp
    have b: "burying s' = burying s" using kill by (auto simp: burying_def t assms(2) fun_eq_iff)
    have "terminator_shape k" using inv(2) assms(2) terminator_tail by simp
    with sh inv(3-6) show ?thesis
      unfolding claims_ok_def p t claimed_def kill b by auto
  qed
  then show "claims_ok s'" "claimed s' p \<Longrightarrow> claimed s p"
    "burying s' p \<Longrightarrow> burying s p \<or> p \<in> set (g_queue (lv_state s))"
    "set (g_queue (lv_state s')) \<subseteq> set (g_queue (lv_state s))" by blast+
qed

section \<open>A step of an alive thread\<close>

lemma alive_cases:
  assumes "alive_shape s n" "lv_ops s (AliveThread n) = x # k"
  obtains (lock) c e where "lv_context s n = Some c" "\<not> ac_dead c" "x = LockAlive e n" "k = []"
  | (mark) c w where "lv_context s n = Some c" "ac_dead c" "x = SetZombie (ac_proxy_name c)"
      "k = [AwakeTerminator (ac_proxy_name c), TellClients w (ac_proxy_name c) False]"
  | (awake) c w where "lv_context s n = Some c" "ac_dead c" "x = AwakeTerminator (ac_proxy_name c)"
      "k = [TellClients w (ac_proxy_name c) False]"
  | (tell) c w where "lv_context s n = Some c" "ac_dead c" "x = TellClients w (ac_proxy_name c) False" "k = []"
  using assms unfolding alive_shape_def death_ops_def
  by (auto simp: suffix_Cons split: option.splits if_splits)

text \<open>What the claims are after a step in which at most the context and the operations of one alive thread
  changed, and its proxy perhaps joined the queue.\<close>

lemma claims_after:
  assumes inv: "claims_ok s"
    and o: "lv_ops s' Terminator = lv_ops s Terminator"
    and others: "\<And>m. m \<noteq> n \<Longrightarrow> lv_ops s' (AliveThread m) = lv_ops s (AliveThread m)"
      "\<And>m. m \<noteq> n \<Longrightarrow> lv_context s' m = lv_context s m"
    and shape: "alive_shape s' n"
    and fewer: "\<And>p. unqueued s' n p \<Longrightarrow> unqueued s n p"
    and queue: "g_queue (lv_state s') = g_queue (lv_state s) \<or>
      (\<exists>q. unqueued s n q \<and> (\<forall>p. \<not> unqueued s' n p) \<and> g_queue (lv_state s') = g_queue (lv_state s) @ [q])"
  shows "claims_ok s'" "unqueued s' m p \<Longrightarrow> unqueued s m p" "claimed s' p \<Longrightarrow> claimed s p"
proof -
  have b: "burying s' = burying s" by (simp add: burying_def fun_eq_iff o)
  have p: "unqueued s' m p \<Longrightarrow> unqueued s m p" for m p
    using fewer others by (cases "m = n") (auto simp: unqueued_def)
  have sh: "alive_shape s' m" for m
  proof (cases "m = n")
    case False
    from claimsD(1) [OF inv, of m] show ?thesis
      unfolding alive_shape_def others(1) [OF False] others(2) [OF False] .
  qed (simp add: shape)
  from queue show "claims_ok s'"
  proof
    assume q: "g_queue (lv_state s') = g_queue (lv_state s)"
    show ?thesis unfolding claims_ok_def b o q
      using sh p claimsD(2-6) [OF inv] by (intro conjI allI impI ballI) blast+
  next
    assume "\<exists>q. unqueued s n q \<and> (\<forall>p. \<not> unqueued s' n p) \<and> g_queue (lv_state s') = g_queue (lv_state s) @ [q]"
    then obtain q where q: "unqueued s n q" "\<forall>p. \<not> unqueued s' n p"
      "g_queue (lv_state s') = g_queue (lv_state s) @ [q]" by blast
    have "\<not> unqueued s' m q" for m using q p claimsD(3) [OF inv q(1)] by blast
    then show ?thesis unfolding claims_ok_def b o q(3) set_append distinct_append
      using sh p claimsD(2-6) [OF inv] claimsD(4) [OF inv q(1)]
      by (intro conjI allI impI ballI) (blast | simp)+
  qed
  show "unqueued s' m p \<Longrightarrow> unqueued s m p" by (rule p)
  show "claimed s' p \<Longrightarrow> claimed s p" using p queue by (auto simp: claimed_def b)
qed

lemma pending_named: "unqueued s n p \<Longrightarrow> named s n p"
  by (auto simp: unqueued_def named_def)

lemma alive_step:
  assumes "claims_ok s" "lv_ops s (AliveThread n) = x # k"
  defines "s' \<equiv> does (AliveThread n) x k s"
  shows "claims_ok s'" "unqueued s' m p \<Longrightarrow> unqueued s m p" "claimed s' p \<Longrightarrow> claimed s p"
    "named s' m p = named s m p" "lv_ops s' Terminator = lv_ops s Terminator"
    "lv_ops s' Activator = lv_ops s Activator" "lv_local s' Activator = lv_local s Activator"
    "lv_local s' Terminator = lv_local s Terminator"
proof -
  obtain l new d where d: "do_life x (lv_local s (AliveThread n)) (lv_life s) = (l, new, d)"
    using prod_cases3 by blast
  note f = does_fields [OF d, of k, folded s'_def]
  note sh = claimsD(1) [OF assms(1), of n]
  show o: "lv_ops s' Terminator = lv_ops s Terminator" "lv_ops s' Activator = lv_ops s Activator"
    "lv_local s' Activator = lv_local s Activator" "lv_local s' Terminator = lv_local s Terminator"
    using f by simp_all
  have "alive_shape s' n \<and> (\<forall>p. unqueued s' n p \<longrightarrow> unqueued s n p) \<and>
     (g_queue (lv_state s') = g_queue (lv_state s) \<or>
      (\<exists>q. unqueued s n q \<and> (\<forall>p. \<not> unqueued s' n p) \<and> g_queue (lv_state s') = g_queue (lv_state s) @ [q])) \<and>
     (\<forall>m. m \<noteq> n \<longrightarrow> lv_context s' m = lv_context s m) \<and> (\<forall>m p. named s' m p = named s m p)"
    using sh assms(2)
  proof (cases rule: alive_cases)
    case (lock c e)
    obtain c' where c': "ac_proxy_name c' = ac_proxy_name c"
      and "do_life (LockAlive e n) (lv_local s (AliveThread n)) (lv_life s) =
        (lv_local s (AliveThread n), if ac_dead c' then death_ops (ae_world e) (ac_proxy_name c) else [],
         write_context n c' (lv_life s))"
      by (rule lock_alive [OF lock(1)])
    with d lock(3) have d': "d = write_context n c' (lv_life s)"
      "new = (if ac_dead c' then death_ops (ae_world e) (ac_proxy_name c) else [])"
      by (simp_all del: do_life.simps)
    have s': "lv_context s' = (lv_context s)(n \<mapsto> c')" "lv_ops s' (AliveThread n) = new"
      "g_queue (lv_state s') = g_queue (lv_state s)"
      unfolding f d'(1) lock(4) by (simp_all add: write_context_def on_life_def)
    have "alive_shape s' n"
      unfolding alive_shape_def s' d'(2) using c' by (simp add: exI [of _ "ae_world e"])
    moreover have "unqueued s n p" if "unqueued s' n p" for p
      using that c' lock unfolding unqueued_def s' by simp
    moreover have "named s' m p = named s m p" for m p
      using c' lock(1) unfolding named_def s' by simp
    ultimately show ?thesis by (simp add: s')
  next
    case (mark c w)
    have s': "lv_context s' = lv_context s" "lv_ops s' (AliveThread n) = k"
      "g_queue (lv_state s') = g_queue (lv_state s)"
      using do_life_contexts [OF d] do_life_queue [OF d] do_life_new [OF d] mark unfolding f by simp_all
    have "\<exists>w. suffix k (death_ops w (ac_proxy_name c))"
      unfolding mark death_ops_def by (rule exI [of _ w]) (simp add: suffix_Cons)
    then have "alive_shape s' n" unfolding alive_shape_def s' using mark(1,2) by simp
    moreover have "unqueued s n p" if "unqueued s' n p" for p
    proof -
      from that mark(1) have "p = ac_proxy_name c" unfolding unqueued_def s' by simp
      then show ?thesis unfolding unqueued_def assms(2) mark(4) using mark(1) by simp
    qed
    moreover have "named s' = named s" by (simp add: named_def fun_eq_iff s')
    ultimately show ?thesis unfolding s' by simp
  next
    case (awake c w)
    have s': "lv_context s' = lv_context s" "lv_ops s' (AliveThread n) = k"
      "g_queue (lv_state s') = g_queue (lv_state s) @ [ac_proxy_name c]"
      using do_life_contexts [OF d] do_life_queue [OF d] do_life_new [OF d] awake unfolding f by simp_all
    have "\<exists>w. suffix k (death_ops w (ac_proxy_name c))"
      unfolding awake death_ops_def by (rule exI [of _ w]) (simp add: suffix_Cons)
    then have "alive_shape s' n" unfolding alive_shape_def s' using awake(1,2) by simp
    moreover have "\<not> unqueued s' n p" for p
      unfolding unqueued_def s' using awake by simp
    moreover have "unqueued s n (ac_proxy_name c)"
      unfolding unqueued_def assms(2) using awake by simp
    moreover have "named s' = named s" by (simp add: named_def fun_eq_iff s')
    ultimately show ?thesis unfolding s' by simp
  next
    case (tell c w)
    have s': "lv_context s' = lv_context s" "lv_ops s' (AliveThread n) = k"
      "g_queue (lv_state s') = g_queue (lv_state s)"
      using do_life_contexts [OF d] do_life_queue [OF d] do_life_new [OF d] tell unfolding f by simp_all
    have "\<exists>w. suffix k (death_ops w (ac_proxy_name c))"
      unfolding tell death_ops_def by (rule exI [of _ w]) (simp add: suffix_Cons)
    then have "alive_shape s' n" unfolding alive_shape_def s' using tell(1,2) by simp
    moreover have "\<not> unqueued s' n p" for p
      using tell(1,2) unfolding unqueued_def s' tell(4) by simp
    moreover have "named s' = named s" by (simp add: named_def fun_eq_iff s')
    ultimately show ?thesis unfolding s' by simp
  qed
  then have e: "alive_shape s' n" "\<And>p. unqueued s' n p \<Longrightarrow> unqueued s n p"
    "g_queue (lv_state s') = g_queue (lv_state s) \<or>
      (\<exists>q. unqueued s n q \<and> (\<forall>p. \<not> unqueued s' n p) \<and> g_queue (lv_state s') = g_queue (lv_state s) @ [q])"
    "\<And>m. m \<noteq> n \<Longrightarrow> lv_context s' m = lv_context s m" "named s' m p = named s m p" by blast+
  have others: "lv_ops s' (AliveThread m) = lv_ops s (AliveThread m)" if "m \<noteq> n" for m using that f by simp
  note claims = claims_after [OF assms(1) o(1) others e(4) e(1,2,3)]
  show "claims_ok s'" "unqueued s' m p \<Longrightarrow> unqueued s m p" "claimed s' p \<Longrightarrow> claimed s p" by (rule claims; assumption)+
  show "named s' m p = named s m p" by (rule e)
qed

end
