(* ===== verification/Thread_Phases.thy ===== *)
theory Thread_Phases
  imports Thread_Invariant
begin

text \<open>
  What holds of the proxy that the activator works for, before each of its operations.
\<close>

section \<open>Where the activator is\<close>

definition kill_and_map :: "activation_env \<Rightarrow> ProxyActivationShm \<Rightarrow> life_op list" where
  "kill_and_map env shm = kill_ops (as_proxy_name shm) @ map_ops env shm"

definition activator_shape :: "life_op list \<Rightarrow> bool" where
  "activator_shape ops \<longleftrightarrow>
     (\<exists>env shm. suffix ops [ReadZombie env shm]) \<or>
     (\<exists>env shm. suffix ops (kill_and_map env shm)) \<or>
     (\<exists>env p state sd. suffix ops [AwaitProxy env p state sd]) \<or>
     (\<exists>p sd. suffix ops [SetTerminate p, SignalStarted p, Undo p sd]) \<or>
     (\<exists>w p ts sub tc chan n.
        suffix ops [SetSubscribe p ts sub, SetChannel p tc chan, SetAlive p n, SignalChannel p, TellClients w p True])"

text \<open>An alive thread that has yet to queue its proxy is registered once the activator is done with it.\<close>

definition at_rest :: "lives \<Rightarrow> pname \<Rightarrow> bool" where
  "at_rest s p \<longleftrightarrow> (\<forall>n. unqueued s n p \<longrightarrow> alive_reg s n p \<and> chan_reg s p)"

definition all_rest :: "lives \<Rightarrow> bool" where
  "all_rest s \<longleftrightarrow> (\<forall>p. at_rest s p)"

definition others_rest :: "lives \<Rightarrow> pname \<Rightarrow> bool" where
  "others_rest s p \<longleftrightarrow> (\<forall>q. q \<noteq> p \<longrightarrow> at_rest s q)"

text \<open>The only unfinished alive thread of the proxy is the one just started; if none was, all are
  registered.\<close>

definition only_started :: "lives \<Rightarrow> pname \<Rightarrow> nat option \<Rightarrow> bool" where
  "only_started s p t \<longleftrightarrow> others_rest s p \<and>
     (case t of None \<Rightarrow> at_rest s p | Some n \<Rightarrow> named s n p \<and> (\<forall>m. unqueued s m p \<longrightarrow> m = n))"

definition channel_found :: "lives \<Rightarrow> pname \<Rightarrow> bool" where
  "channel_found s p \<longleftrightarrow> chan_reg s p \<and> ll_channel (lv_local s Activator) \<noteq> None"

definition whole :: "started \<Rightarrow> pname \<Rightarrow> bool" where
  "whole sd p \<longleftrightarrow> (\<forall>n. alive_thread sd = Some n \<longrightarrow>
     (\<exists>sub ts chan tc. sd_subscribe sd = Some (sub, Some ts) \<and> sd_channel sd = Some (chan, Some tc) \<and>
        cc_proxy_name chan = p))"

fun phase :: "lives \<Rightarrow> life_op list \<Rightarrow> bool" where
  "phase s (LockKill p # k) = (all_rest s \<and> (claimed s p \<longrightarrow> unlinked s p \<or> chan_reg s p))"
| "phase s (StopSubscribe p # k) = (all_rest s \<and> (claimed s p \<longrightarrow> unlinked s p \<or> chan_reg s p))"
| "phase s (StopChannel p # k) = (all_rest s \<and> (claimed s p \<longrightarrow> unlinked s p \<or> chan_reg s p))"
| "phase s (StopAlive p # k) = (all_rest s \<and> (claimed s p \<longrightarrow> unlinked s p \<or> channel_found s p))"
| "phase s (RemoveSubscribe p # k) =
     (others_rest s p \<and> (\<forall>n. unqueued s n p \<longrightarrow> ll_alive (lv_local s Activator) = Some n) \<and>
      (claimed s p \<longrightarrow> unlinked s p \<or> channel_found s p))"
| "phase s (RemoveChannel p # k) =
     (others_rest s p \<and> (\<forall>n. unqueued s n p \<longrightarrow> ll_alive (lv_local s Activator) = Some n) \<and>
      (claimed s p \<longrightarrow> unlinked s p \<or> channel_found s p))"
| "phase s (RemoveAlive p # k) =
     (others_rest s p \<and> (\<forall>n. unqueued s n p \<longrightarrow> ll_alive (lv_local s Activator) = Some n) \<and>
      (claimed s p \<longrightarrow> unlinked s p))"
| "phase s (UnlockKill p # k) =
     (others_rest s p \<and> (\<forall>n. \<not> unqueued s n p) \<and> (claimed s p \<longrightarrow> unlinked s p))"
| "phase s (MapChannel env p # k) =
     (others_rest s p \<and> (\<forall>n. \<not> unqueued s n p) \<and> (claimed s p \<longrightarrow> unlinked s p))"
| "phase s (MapSubscribe env p # k) =
     (others_rest s p \<and> (\<forall>n. \<not> unqueued s n p) \<and>
      (claimed s p \<longrightarrow> ll_channel_shm (lv_local s Activator) = None))"
| "phase s (MapAlive env p # k) =
     (others_rest s p \<and> (\<forall>n. \<not> unqueued s n p) \<and>
      (claimed s p \<longrightarrow> ll_channel_shm (lv_local s Activator) = None))"
| "phase s (StartThreads env shm # k) =
     (others_rest s (as_proxy_name shm) \<and> (\<forall>n. \<not> unqueued s n (as_proxy_name shm)) \<and>
      (claimed s (as_proxy_name shm) \<longrightarrow> ll_channel_shm (lv_local s Activator) = None))"
| "phase s (AwaitProxy env p state sd # k) = (only_started s p (alive_thread sd) \<and> whole sd p)"
| "phase s (SetTerminate p # k) = phase s k"
| "phase s (SignalStarted p # k) = phase s k"
| "phase s (Undo p sd # k) = only_started s p (alive_thread sd)"
| "phase s (SetSubscribe p ts sub # k) = phase s k"
| "phase s (SetChannel p tc chan # SetAlive q n # k) = (only_started s p (Some n) \<and> cc_proxy_name chan = p)"
| "phase s (SetAlive p n # k) = (only_started s p (Some n) \<and> ((\<exists>m. unqueued s m p) \<longrightarrow> chan_reg s p))"
| "phase s _ = all_rest s"

section \<open>Steps of the other threads\<close>

definition calm :: "lives \<Rightarrow> lives \<Rightarrow> bool" where
  "calm s s' \<longleftrightarrow> (\<forall>n p. unqueued s' n p \<longrightarrow> unqueued s n p) \<and> (\<forall>p. claimed s' p \<longrightarrow> claimed s p) \<and>
     (\<forall>p. admitting s p \<longrightarrow> unlinked s p \<longrightarrow> unlinked s' p) \<and>
     (\<forall>n p. unqueued s' n p \<longrightarrow> alive_reg s n p \<longrightarrow> alive_reg s' n p) \<and>
     (\<forall>n p. unqueued s' n p \<longrightarrow> chan_reg s p \<longrightarrow> chan_reg s' p) \<and>
     (\<forall>p. chan_reg s p \<longrightarrow> chan_reg s' p \<or> unlinked s' p) \<and>
     (\<forall>n p. named s n p \<longrightarrow> named s' n p) \<and>
     ll_channel (lv_local s' Activator) = ll_channel (lv_local s Activator) \<and>
     ll_alive (lv_local s' Activator) = ll_alive (lv_local s Activator) \<and>
     ll_channel_shm (lv_local s' Activator) = ll_channel_shm (lv_local s Activator)"

lemma calm_rest: "calm s s' \<Longrightarrow> at_rest s q \<Longrightarrow> at_rest s' q"
  unfolding calm_def at_rest_def by blast

lemma calm_all: "calm s s' \<Longrightarrow> all_rest s \<Longrightarrow> all_rest s'"
  unfolding all_rest_def using calm_rest by blast

lemma calm_others: "calm s s' \<Longrightarrow> others_rest s p \<Longrightarrow> others_rest s' p"
  unfolding others_rest_def using calm_rest by blast

lemma calm_started: "calm s s' \<Longrightarrow> only_started s p t \<Longrightarrow> only_started s' p t"
  unfolding only_started_def using calm_rest calm_others
  by (auto simp: calm_def split: option.splits)

lemma calm_claims:
  assumes "calm s s'" "admitting s p"
  shows "(claimed s p \<longrightarrow> unlinked s p \<or> chan_reg s p) \<Longrightarrow> (claimed s' p \<longrightarrow> unlinked s' p \<or> chan_reg s' p)"
    "(claimed s p \<longrightarrow> unlinked s p \<or> channel_found s p) \<Longrightarrow> (claimed s' p \<longrightarrow> unlinked s' p \<or> channel_found s' p)"
    "(claimed s p \<longrightarrow> unlinked s p) \<Longrightarrow> (claimed s' p \<longrightarrow> unlinked s' p)"
  using assms unfolding calm_def channel_found_def by metis+

lemma kill_and_map_list:
  "kill_and_map env shm = (let p = as_proxy_name shm in
     [LockKill p, StopSubscribe p, StopChannel p, StopAlive p, RemoveSubscribe p, RemoveChannel p, RemoveAlive p,
      UnlockKill p, MapChannel env p, MapSubscribe env p, MapAlive env p, StartThreads env shm])"
  by (simp add: kill_and_map_def kill_ops_def map_ops_def Let_def)

text \<open>The operation to do next and those that follow.\<close>

lemma kill_next:
  assumes "suffix (x # k) (kill_and_map env shm)"
  shows "let p = as_proxy_name shm in
    x = LockKill p \<and> (\<exists>k'. k = StopSubscribe p # k') \<or> x = StopSubscribe p \<and> (\<exists>k'. k = StopChannel p # k') \<or>
    x = StopChannel p \<and> (\<exists>k'. k = StopAlive p # k') \<or> x = StopAlive p \<and> (\<exists>k'. k = RemoveSubscribe p # k') \<or>
    x = RemoveSubscribe p \<and> (\<exists>k'. k = RemoveChannel p # k') \<or> x = RemoveChannel p \<and> (\<exists>k'. k = RemoveAlive p # k') \<or>
    x = RemoveAlive p \<and> (\<exists>k'. k = UnlockKill p # k') \<or> x = UnlockKill p \<and> (\<exists>k'. k = MapChannel env p # k') \<or>
    x = MapChannel env p \<and> (\<exists>k'. k = MapSubscribe env p # k') \<or> x = MapSubscribe env p \<and> (\<exists>k'. k = MapAlive env p # k') \<or>
    x = MapAlive env p \<and> k = [StartThreads env shm] \<or> x = StartThreads env shm \<and> k = []"
    "StartThreads env shm \<in> set (x # k)"
  using assms unfolding kill_and_map_list Let_def suffix_Cons suffix_Nil by (elim disjE; simp)+

lemma calm_phase:
  assumes "calm s s'" "activator_shape ops" "phase s ops"
    "\<And>env shm. StartThreads env shm \<in> set ops \<Longrightarrow> admitting s (as_proxy_name shm)"
  shows "phase s' ops"
proof -
  note c = calm_all [OF assms(1)] calm_others [OF assms(1)] calm_started [OF assms(1)]
  have p: "unqueued s' n p \<Longrightarrow> unqueued s n p" "claimed s' p \<Longrightarrow> claimed s p"
    "unqueued s' n p \<Longrightarrow> chan_reg s p \<Longrightarrow> chan_reg s' p" for n p
    using assms(1) unfolding calm_def by blast+
  have l': "ll_channel (lv_local s' Activator) = ll_channel (lv_local s Activator)"
    "ll_alive (lv_local s' Activator) = ll_alive (lv_local s Activator)"
    "ll_channel_shm (lv_local s' Activator) = ll_channel_shm (lv_local s Activator)"
    using assms(1) unfolding calm_def by blast+
  from assms(2) show ?thesis
    unfolding activator_shape_def
  proof (elim disjE exE)
    fix env shm assume k: "suffix ops (kill_and_map env shm)"
    show "phase s' ops"
    proof (cases ops)
      case (Cons x k')
      from kill_next(2) [OF k [unfolded Cons]] have a: "admitting s (as_proxy_name shm)"
        using assms(4) unfolding Cons by blast
      note d = calm_claims [OF assms(1) a]
      let ?p = "as_proxy_name shm"
      have n: "\<forall>n. \<not> unqueued s n ?p \<Longrightarrow> \<forall>n. \<not> unqueued s' n ?p" using p(1) by blast
      have l: "\<forall>n. unqueued s n ?p \<longrightarrow> ll_alive (lv_local s Activator) = Some n \<Longrightarrow>
          \<forall>n. unqueued s' n ?p \<longrightarrow> ll_alive (lv_local s' Activator) = Some n" using p(1) l' by simp
      have m: "claimed s ?p \<longrightarrow> ll_channel_shm (lv_local s Activator) = None \<Longrightarrow>
          claimed s' ?p \<longrightarrow> ll_channel_shm (lv_local s' Activator) = None" using p(2) l' by simp
      from kill_next(1) [OF k [unfolded Cons]] assms(3) show ?thesis
        unfolding Cons Let_def
        by (elim disjE conjE, simp_all only: phase.simps)
          (elim conjE, (intro conjI)?, (erule n l m d c(1,2))+)+
    qed (use assms(3) c in simp)
  next
    fix env shm assume "suffix ops [ReadZombie env shm]"
    then show "phase s' ops" using assms(3) c unfolding suffix_Cons suffix_Nil by (elim disjE) simp_all
  next
    fix env q state sd assume "suffix ops [AwaitProxy env q state sd]"
    then show "phase s' ops" using assms(3) c unfolding suffix_Cons suffix_Nil by (elim disjE) simp_all
  next
    fix q sd assume "suffix ops [SetTerminate q, SignalStarted q, Undo q sd]"
    then show "phase s' ops" using assms(3) c unfolding suffix_Cons suffix_Nil by (elim disjE) simp_all
  next
    fix w q ts sub tc chan n
    assume "suffix ops [SetSubscribe q ts sub, SetChannel q tc chan, SetAlive q n, SignalChannel q, TellClients w q True]"
    then show "phase s' ops" using assms(3) c p unfolding suffix_Cons suffix_Nil
      by (elim disjE) (simp_all, blast)
  qed
qed

lemma chan_reg_name: "chan_reg s p \<longleftrightarrow> chan_name (lv_state s) p \<noteq> None"
  by (simp add: chan_reg_def)

lemma terminator_names:
  assumes "claims_ok s" "lv_ops s Terminator = x # k" "x \<in> {StopAlive q, RemoveAlive q, RemoveChannel q}"
  shows "burying s q"
proof -
  from terminator_cases [OF claimsD(2) [OF assms(1), unfolded assms(2)]] assms(3)
  have "DropZombie q \<in> set k" by auto
  then show ?thesis by (simp add: burying_def assms(2))
qed

lemma calm_terminator:
  assumes "claims_ok s" "entries_ok s" "lv_ops s Terminator = x # k"
  shows "calm s (does Terminator x k s)"
proof -
  define s' where "s' = does Terminator x k s"
  obtain l new d where d: "do_life x (lv_local s Terminator) (lv_life s) = (l, new, d)"
    using prod_cases3 by blast
  note f = does_fields [OF d, of k, folded s'_def]
  note t = terminator_step [OF assms(1,3), folded s'_def]
  have n: "\<forall>e n. x \<noteq> LockAlive e n" "\<forall>p n. x \<noteq> SetAlive p n" "\<forall>p n c. x \<noteq> SetChannel p n c"
    using terminator_cases [OF claimsD(2) [OF assms(1), unfolded assms(3)]] by auto
  have other: "\<not> unqueued s m q" if "x \<in> {StopAlive q, RemoveAlive q, RemoveChannel q}" for m q
    using terminator_names [OF assms(1,3) that] claimsD(4) [OF assms(1)] by blast
  have g: "unlinked s p \<Longrightarrow> unlinked s' p" for p
    using do_life_segments [OF d] by (simp add: unlinked_def f(1))
  have a: "alive_reg s' m p" if "unqueued s m p" "alive_reg s m p" for m p
  proof -
    from other that(1) have "x \<noteq> RemoveAlive p" by blast
    then have "ht_lookup (g_alives (lv_state s')) p = ht_lookup (g_alives (lv_state s)) p"
      using do_life_alives [OF d n(1), of p] n(2) unfolding f(1) by (cases x) auto
    with that(2) show ?thesis by (simp add: alive_reg_def)
  qed
  have c: "chan_reg s' p" if "x \<noteq> RemoveChannel p" "chan_reg s p" for p
    using do_life_channels [OF d, of p] n(3) that unfolding chan_reg_name f(1) by (cases x) auto
  have cp: "chan_reg s' p" if "unqueued s m p" "chan_reg s p" for m p
    using c other [of p m] that by blast
  have r: "chan_reg s' p \<or> unlinked s' p" if "chan_reg s p" for p
  proof (cases "x = RemoveChannel p \<and> ll_channel (lv_local s Terminator) \<noteq> None")
    case True
    then have x: "x = RemoveChannel p" by blast
    have "chan_name (lv_state s) p = Some p"
      using entriesD(3) [OF assms(2)] that unfolding chan_reg_name by blast
    with True remove_channel_unlinks [OF d [unfolded x]] show ?thesis by (simp add: unlinked_def f(1))
  next
    case False
    then show ?thesis
      using do_life_channels [OF d, of p] n(3) that unfolding chan_reg_name f(1) by (cases x) auto
  qed
  have o: "lv_ops s' Activator = lv_ops s Activator" "lv_local s' Activator = lv_local s Activator"
    using f by simp_all
  have "calm s s'" unfolding calm_def t(2) o(2)
    using t(3) g a cp r by (auto simp: named_def t(4))
  then show ?thesis by (simp add: s'_def)
qed

lemma alive_tables:
  assumes "claims_ok s" "lv_ops s (AliveThread n) = x # k" "do_life x l (lv_life s) = (l', new, d)"
  shows "map_option te_thread (ht_lookup (g_alives (lf_state d)) p) =
      map_option te_thread (ht_lookup (g_alives (lv_state s)) p)"
    "chan_name (lf_state d) p = chan_name (lv_state s) p"
proof -
  show "chan_name (lf_state d) p = chan_name (lv_state s) p"
    using claimsD(1) [OF assms(1)] assms(2)
    by (cases rule: alive_cases) (use do_life_channels [OF assms(3), of p] in simp_all)
  show "map_option te_thread (ht_lookup (g_alives (lf_state d)) p) =
      map_option te_thread (ht_lookup (g_alives (lv_state s)) p)"
    using claimsD(1) [OF assms(1)] assms(2)
  proof (cases rule: alive_cases)
    case (lock c e)
    obtain c' where "do_life x l (lv_life s) =
        (l, if ac_dead c' then death_ops (ae_world e) (ac_proxy_name c) else [], write_context n c' (lv_life s))"
      unfolding lock(3) by (rule lock_alive [OF lock(1)])
    with assms(3) have "d = write_context n c' (lv_life s)" by simp
    then show ?thesis by (cases "ht_lookup (g_alives (lv_state s)) p") (auto simp: write_context_def on_life_def)
  qed (use do_life_alives [OF assms(3), of p] in simp_all)
qed

lemma calm_alive:
  assumes "claims_ok s" "lv_ops s (AliveThread n) = x # k"
  shows "calm s (does (AliveThread n) x k s)"
proof -
  define s' where "s' = does (AliveThread n) x k s"
  obtain l new d where d: "do_life x (lv_local s (AliveThread n)) (lv_life s) = (l, new, d)"
    using prod_cases3 by blast
  note f = does_fields [OF d, of k, folded s'_def]
  note t = alive_step [OF assms, folded s'_def]
  note e = alive_tables [OF assms d, folded f(1)]
  have "unlinked s p \<Longrightarrow> unlinked s' p" for p
    using do_life_segments [OF d] by (simp add: unlinked_def f(1))
  then have "calm s s'" unfolding calm_def t(4,7) alive_reg_def e(1) chan_reg_name e(2) using t(2,3) by blast
  then show ?thesis by (simp add: s'_def)
qed

lemma keeps_names:
  assumes "keeps_threads s st"
  shows "chan_name st p = chan_name (lv_state s) p"
proof -
  have "map_option (\<lambda>e. (te_thread e, cc_proxy_name (te_ctx e))) (ht_lookup (g_channels st) p) =
      map_option (\<lambda>e. (te_thread e, cc_proxy_name (te_ctx e))) (ht_lookup (g_channels (lv_state s)) p)"
    using assms unfolding keeps_threads_def by blast
  then show ?thesis
    by (cases "ht_lookup (g_channels st) p"; cases "ht_lookup (g_channels (lv_state s)) p") auto
qed

lemma calm_elsewhere:
  assumes "keeps_threads s st"
  shows "calm s (s\<lparr>lv_life := (lv_life s)\<lparr>lf_state := st\<rparr>\<rparr>)"
proof -
  let ?s = "s\<lparr>lv_life := (lv_life s)\<lparr>lf_state := st\<rparr>\<rparr>"
  have c: "chan_reg ?s p = chan_reg s p" for p
    using keeps_names [OF assms, of p] unfolding chan_reg_name by simp
  have p: "unqueued ?s = unqueued s" "burying ?s = burying s" "named ?s = named s" "alive_reg ?s = alive_reg s"
    "claimed ?s = claimed s"
    using assms by (simp_all add: fun_eq_iff unqueued_def burying_def named_def alive_reg_def claimed_def
        keeps_threads_def)
  have "admitting s p \<Longrightarrow> unlinked s p \<Longrightarrow> unlinked ?s p" for p
    using assms by (simp add: keeps_threads_def unlinked_def)
  then show ?thesis unfolding calm_def p c by simp
qed

lemma calm_starts:
  assumes "t = Terminator \<and> ops = [PopQueue] \<or> (\<exists>n c e. t = AliveThread n \<and> lv_context s n = Some c \<and>
      \<not> ac_dead c \<and> ops = [LockAlive e n])" "lv_ops s t = []"
  shows "calm s (puts t ops s)" "unqueued (puts t ops s) = unqueued s" "burying (puts t ops s) = burying s"
proof -
  show p: "unqueued (puts t ops s) = unqueued s"
    using assms by (auto simp: fun_eq_iff unqueued_def puts_def)
  show b: "burying (puts t ops s) = burying s"
    using assms by (auto simp: fun_eq_iff burying_def puts_def)
  show "calm s (puts t ops s)"
    unfolding calm_def p claimed_def b using assms(1)
    by (auto simp: puts_def unlinked_def alive_reg_def chan_reg_def named_def)
qed

end
