(* ===== verification/Thread_Safety.thy ===== *)
theory Thread_Safety
  imports Thread_Phases
begin

text \<open>
  The steps of the activator, the invariant of all threads, and what follows from it: a burial finds only
  dead instances.
\<close>

section \<open>A step of the activator\<close>

lemma activator_tail: "activator_shape (x # k) \<Longrightarrow> activator_shape k"
  unfolding activator_shape_def by (meson suffix_ConsD)

lemma activator_not:
  assumes "activator_shape (x # k)"
  shows "(\<forall>e n. x \<noteq> LockAlive e n) \<and> x \<noteq> PopQueue \<and> (\<forall>p. x \<noteq> AwakeTerminator p) \<and> (\<forall>p. x \<noteq> SetZombie p) \<and>
    (\<forall>p. x \<noteq> DropZombie p)"
  using assms unfolding activator_shape_def
proof (elim disjE exE)
  fix env shm assume "suffix (x # k) (kill_and_map env shm)"
  from kill_next(1) [OF this] show ?thesis unfolding Let_def by (elim disjE conjE; simp)
qed (unfold suffix_Cons suffix_Nil, (elim disjE; simp)+)

lemma activator_frame:
  assumes "activator_shape (x # k)" "do_life x (lv_local s Activator) (lv_life s) = (l, new, d)"
    "\<forall>env shm. x \<noteq> StartThreads env shm"
  defines "s' \<equiv> does Activator x k s"
  shows "lv_context s' = lv_context s" "named s' = named s" "unqueued s' = unqueued s" "claimed s' = claimed s"
    "burying s' = burying s" "claims_ok s' = claims_ok s" "lv_ops s' (AliveThread n) = lv_ops s (AliveThread n)"
    "g_queue (lv_state s') = g_queue (lv_state s)" "g_terminating (lv_state s') = g_terminating (lv_state s)"
    "lv_local s' Terminator = lv_local s Terminator" "unlinked s p \<Longrightarrow> unlinked s' p"
proof -
  note f = does_fields [OF assms(2), of k, folded s'_def]
  note n = activator_not [OF assms(1)]
  show c: "lv_context s' = lv_context s"
    using do_life_contexts [OF assms(2)] n assms(3) unfolding f(1) by blast
  then show "named s' = named s" by (simp add: named_def fun_eq_iff)
  show a: "lv_ops s' (AliveThread n) = lv_ops s (AliveThread n)" for n using f by simp
  show q: "g_queue (lv_state s') = g_queue (lv_state s)"
    using do_life_queue [OF assms(2)] n unfolding f(1) by (cases x) auto
  show "g_terminating (lv_state s') = g_terminating (lv_state s)"
    using do_life_terminating [OF assms(2)] n unfolding f(1) by (cases x) auto
  have t: "lv_ops s' Terminator = lv_ops s Terminator" using f by simp
  show "lv_local s' Terminator = lv_local s Terminator" using f by simp
  show "unlinked s p \<Longrightarrow> unlinked s' p"
    using do_life_segments [OF assms(2)] by (simp add: unlinked_def f(1))
  note cong = claims_cong [OF c a q t]
  show "unqueued s' = unqueued s" "claimed s' = claimed s" "burying s' = burying s" "claims_ok s' = claims_ok s"
    by (rule cong)+
qed

lemma activator_calm:
  assumes "activator_shape (x # k)" "do_life x (lv_local s Activator) (lv_life s) = (l, new, d)"
    "x \<in> {LockKill p, StopSubscribe p, RemoveSubscribe p, UnlockKill p, MapSubscribe env p, MapAlive env p,
       SetTerminate p, SignalStarted p, SetSubscribe p m sub, SignalChannel p, TellClients w p b}"
    "phase s k" "\<And>env shm. StartThreads env shm \<in> set k \<Longrightarrow> admitting s (as_proxy_name shm)"
  shows "new = []" "phase (does Activator x k s) k"
proof -
  define s' where "s' = does Activator x k s"
  note f = does_fields [OF assms(2), of k, folded s'_def]
  have nx: "\<forall>env shm. x \<noteq> StartThreads env shm" "\<forall>e n. x \<noteq> LockAlive e n"
    using assms(3) by auto
  note r = activator_frame [OF assms(1,2) nx(1), folded s'_def]
  show "new = []" using do_life_new [OF assms(2)] assms(3) by auto
  have a: "alive_reg s' = alive_reg s" unfolding alive_reg_def fun_eq_iff f(1)
    using do_life_alives [OF assms(2) nx(2)] assms(3) by auto
  have c: "chan_reg s' = chan_reg s" unfolding chan_reg_name fun_eq_iff f(1)
    using do_life_channels [OF assms(2)] assms(3) by auto
  have l: "ll_channel l = ll_channel (lv_local s Activator) \<and> ll_alive l = ll_alive (lv_local s Activator) \<and>
      ll_channel_shm l = ll_channel_shm (lv_local s Activator)"
    using assms(2,3) by (auto simp: Let_def split: prod.splits)
  have "calm s s'" unfolding calm_def r(2,3,4) a c using r(11) l f(2) by simp
  from calm_phase [OF this activator_tail [OF assms(1)] assms(4,5)] show "phase (does Activator x k s) k"
    by (simp add: s'_def)
qed

lemma no_claim_not_zombie:
  assumes "marks_ok s" "p \<notin> set (g_terminating (lv_state s))" "claimed s p"
  shows "\<exists>n. unqueued s n p"
  using assms unfolding marks_ok_def claimed_def by blast

lemma admitting_suffix:
  "lv_ops s Activator = x # k \<Longrightarrow> StartThreads env shm \<in> set k \<Longrightarrow> admitting s (as_proxy_name shm)"
  by (auto simp: admitting_def)

lemma ended_not_pending: "ended s n \<Longrightarrow> \<not> unqueued s n p"
  by (auto simp: ended_def unqueued_def)

lemma activator_kill:
  assumes ok: "claims_ok s" "entries_ok s" and o: "lv_ops s Activator = x # k"
    and suf: "suffix (x # k) (kill_and_map env shm)" and ph: "phase s (x # k)" and go: "may_go s Activator x"
    and nx: "\<forall>env shm. x \<noteq> StartThreads env shm"
  defines "s' \<equiv> does Activator x k s"
  shows "phase s' (lv_ops s' Activator)" "lv_ops s' Activator = k"
proof -
  let ?p = "as_proxy_name shm"
  obtain l new d where d: "do_life x (lv_local s Activator) (lv_life s) = (l, new, d)"
    using prod_cases3 by blast
  have shape: "activator_shape (x # k)" using suf unfolding activator_shape_def by blast
  note f = does_fields [OF d, of k, folded s'_def]
  note r = activator_frame [OF shape d nx, folded s'_def]
  note adm = admitting_suffix [OF o]
  have new: "new = []"
    using do_life_new [OF d] kill_next(1) [OF suf] nx activator_not [OF shape] unfolding Let_def by auto
  then show ops: "lv_ops s' Activator = k" using f by simp
  have quiet: "phase s' k" if "phase s k"
      "\<exists>p env. x \<in> {LockKill p, StopSubscribe p, RemoveSubscribe p, UnlockKill p, MapSubscribe env p, MapAlive env p}"
  proof -
    from that(2) obtain p env where "x \<in> {LockKill p, StopSubscribe p, RemoveSubscribe p, UnlockKill p,
        MapSubscribe env p, MapAlive env p}" by blast
    then have "x \<in> {LockKill p, StopSubscribe p, RemoveSubscribe p, UnlockKill p, MapSubscribe env p, MapAlive env p,
       SetTerminate p, SignalStarted p, SetSubscribe p m sub, SignalChannel p, TellClients w p b}" for m sub w b
      by auto
    from activator_calm(2) [OF shape d this that(1) adm] show ?thesis by (simp add: s'_def)
  qed
  have ns: "\<forall>e n. x \<noteq> LockAlive e n" "\<forall>q n. x \<noteq> SetAlive q n" "\<forall>q n c. x \<noteq> SetChannel q n c"
    "q \<noteq> ?p \<Longrightarrow> x \<noteq> RemoveAlive q \<and> x \<noteq> RemoveChannel q" for q
    using kill_next(1) [OF suf] unfolding Let_def by (elim disjE conjE; simp)+
  have reg: "alive_reg s' m q = alive_reg s m q" if "x \<noteq> RemoveAlive q" for m q
    using do_life_alives [OF d ns(1), of q] that ns(2) unfolding alive_reg_def f(1) by (cases x) auto
  have chan: "chan_reg s' q = chan_reg s q" if "x \<noteq> RemoveChannel q" for q
    using do_life_channels [OF d, of q] that ns(3) unfolding chan_reg_name f(1) by (cases x) auto
  have rest: "at_rest s' q = at_rest s q" if "x \<noteq> RemoveAlive q" "x \<noteq> RemoveChannel q" for q
    unfolding at_rest_def r(3) by (simp add: reg [OF that(1)] chan [OF that(2)])
  have others: "others_rest s' ?p = others_rest s ?p"
    unfolding others_rest_def using rest ns(4) by blast
  have all: "all_rest s \<Longrightarrow> others_rest s' ?p" unfolding others by (simp add: all_rest_def others_rest_def)
  from kill_next(1) [OF suf] ph show "phase s' (lv_ops s' Activator)"
    unfolding ops Let_def
  proof (elim disjE conjE exE)
    fix k' assume x: "x = StopChannel ?p" "k = StopAlive ?p # k'"
    have "channel_found s' ?p" if "chan_reg s ?p"
      using that chan d x unfolding channel_found_def f(2) by (auto simp: chan_reg_def channel_table_defs Let_def)
    moreover have "all_rest s \<Longrightarrow> all_rest s'" using rest x(1) by (simp add: all_rest_def)
    ultimately show "phase s' k" using ph r(4,11) unfolding x by auto
  next
    fix k' assume x: "x = StopAlive ?p" "k = RemoveSubscribe ?p # k'"
    have l: "l = (lv_local s Activator)\<lparr>ll_alive := map_option te_thread (ht_lookup (g_alives (lv_state s)) ?p),
        ll_sigterms := ll_sigterms l\<rparr>"
      using d x(1) by (auto simp: alive_table_defs Let_def)
    have "ll_channel (lv_local s' Activator) = ll_channel (lv_local s Activator)"
      unfolding f(2) by (subst l) simp
    then have c: "channel_found s' ?p = channel_found s ?p"
      using chan x(1) by (simp add: channel_found_def)
    have "ll_alive (lv_local s' Activator) = Some n" if "alive_reg s n ?p" for n
      using that unfolding f(2) alive_reg_def by (subst fun_upd_same, subst l) simp
    with ph all show "phase s' k" using r(3,4,11) unfolding x by (auto simp: c all_rest_def at_rest_def)
  next
    fix k' assume x: "x = RemoveChannel ?p" "k = RemoveAlive ?p # k'"
    have "unlinked s' ?p" if "channel_found s ?p"
      using remove_channel_unlinks [OF d [unfolded x(1)]] entriesD(3) [OF ok(2)] that
      unfolding unlinked_def f(1) channel_found_def chan_reg_name by simp
    moreover have "lv_local s' Activator = lv_local s Activator" using d x(1) unfolding f(2) by auto
    ultimately show "phase s' k" using ph r(3,4,11) unfolding x by (auto simp: others)
  next
    fix k' assume x: "x = RemoveAlive ?p" "k = UnlockKill ?p # k'"
    have "\<not> unqueued s n ?p" for n
      using ph go ended_not_pending unfolding x(1) by (auto split: option.splits)
    with ph show "phase s' k" using r(3,4,11) unfolding x by (auto simp: others)
  next
    fix k' assume x: "x = MapChannel env ?p" "k = MapSubscribe env ?p # k'"
    have "ll_channel_shm (lv_local s' Activator) = None" if "unlinked s ?p"
      using d x(1) that unfolding f(2) unlinked_def by (auto simp: proxy_channel_shm_get_def Let_def)
    with ph show "phase s' k" using r(3,4) unfolding x by (auto simp: others)
  next
    assume "x = StartThreads env shm"
    with nx show "phase s' k" by blast
  qed (use ph quiet in simp_all)
qed

lemma only_started_none: "only_started s p None \<Longrightarrow> all_rest s"
  unfolding only_started_def others_rest_def all_rest_def by auto

lemma register_shape:
  assumes "only_started s p (alive_thread sd)" "whole sd p"
  shows "phase s (register_ops w p sd)" "activator_shape (register_ops w p sd)"
proof -
  show "activator_shape (register_ops w p sd)"
    unfolding activator_shape_def register_ops_def
    by (auto split: option.splits simp: suffix_Cons)
  show "phase s (register_ops w p sd)"
  proof (cases "alive_thread sd")
    case None
    then have "register_ops w p sd = []"
      by (auto simp: register_ops_def alive_thread_def split: option.splits)
    with assms(1) None show ?thesis by (simp add: only_started_none)
  next
    case (Some n)
    with assms(2) obtain sub ts chan tc where "sd_subscribe sd = Some (sub, Some ts)"
      "sd_channel sd = Some (chan, Some tc)" "cc_proxy_name chan = p" unfolding whole_def by blast
    moreover obtain al where "sd_alive sd = Some (al, Some n)"
      using Some by (auto simp: alive_thread_def split: option.splits)
    ultimately show ?thesis using assms(1) Some by (simp add: register_ops_def)
  qed
qed

lemma conclude_shape:
  assumes "only_started s p (alive_thread sd)" "whole sd p"
  shows "phase s (conclude_ops env p state sd)" "activator_shape (conclude_ops env p state sd)"
  using assms register_shape [OF assms]
  by (auto simp: conclude_ops_def activator_shape_def suffix_Cons)

text \<open>The operations outside the kill and the mapping.\<close>

lemma activator_rest:
  assumes ok: "claims_ok s" "entries_ok s" "marks_ok s" and o: "lv_ops s Activator = x # k"
    and shape: "activator_shape (x # k)" and ph: "phase s (x # k)" and go: "may_go s Activator x"
    and nx: "\<forall>env shm. x \<noteq> StartThreads env shm" and no: "\<forall>env shm. \<not> suffix (x # k) (kill_and_map env shm)"
  defines "s' \<equiv> does Activator x k s"
  shows "phase s' (lv_ops s' Activator) \<and> activator_shape (lv_ops s' Activator)"
proof -
  obtain l new d where d: "do_life x (lv_local s Activator) (lv_life s) = (l, new, d)"
    using prod_cases3 by blast
  note f = does_fields [OF d, of k, folded s'_def]
  note r = activator_frame [OF shape d nx, folded s'_def]
  note adm = admitting_suffix [OF o]
  have ops: "lv_ops s' Activator = new @ k" using f by simp
  have tail: "activator_shape k" by (rule activator_tail [OF shape])
  have quiet: "phase s' (new @ k) \<and> activator_shape (new @ k)" if "phase s k"
      "\<exists>p env m sub w b. x \<in> {SetTerminate p, SignalStarted p, SetSubscribe p m sub, SignalChannel p, TellClients w p b}"
  proof -
    from that(2) obtain p m sub w b where
      "x \<in> {SetTerminate p, SignalStarted p, SetSubscribe p m sub, SignalChannel p, TellClients w p b}" by blast
    then have x: "x \<in> {LockKill p, StopSubscribe p, RemoveSubscribe p, UnlockKill p, MapSubscribe env p, MapAlive env p,
       SetTerminate p, SignalStarted p, SetSubscribe p m sub, SignalChannel p, TellClients w p b}" for env
      by auto
    from activator_calm [OF shape d x that(1) adm] tail show ?thesis by (simp add: s'_def)
  qed
  have reg: "alive_reg s' m q = alive_reg s m q" if "\<forall>q. x \<noteq> RemoveAlive q" "\<forall>n. x \<noteq> SetAlive q n" for m q
    using do_life_alives [OF d, of q] that activator_not [OF shape] unfolding alive_reg_def f(1)
    by (cases x) (auto split: option.splits)
  have chan: "chan_reg s' q = chan_reg s q" if "\<forall>q. x \<noteq> RemoveChannel q" "\<forall>n c. x \<noteq> SetChannel q n c" for q
    using do_life_channels [OF d, of q] that unfolding chan_reg_name f(1) by (cases x) auto
  have rest: "at_rest s' q = at_rest s q"
    if "\<forall>q. x \<noteq> RemoveAlive q \<and> x \<noteq> RemoveChannel q" "\<forall>n c. x \<noteq> SetAlive q n \<and> x \<noteq> SetChannel q n c" for q
    unfolding at_rest_def r(3) using that by (simp add: reg chan)
  have unchanged: "phase s' ops" if "phase s ops" "activator_shape ops" "l = lv_local s Activator" "d = lv_life s"
    "\<forall>env shm. StartThreads env shm \<notin> set ops" for ops
  proof (rule calm_phase [OF _ that(2,1)])
    show "calm s s'"
      unfolding calm_def r(3,4) alive_reg_def chan_reg_def unlinked_def named_def f(1,2) that(3,4) by simp
  qed (use that(5) in blast)
  have "phase s' (new @ k) \<and> activator_shape (new @ k)"
    using shape ph unfolding activator_shape_def [of "x # k"] suffix_Cons suffix_Nil
  proof (elim disjE exE)
    fix env shm assume "x # k = [ReadZombie env shm]"
    then have x: "x = ReadZombie env shm" "k = []" by simp_all
    let ?p = "as_proxy_name shm"
    have l: "l = lv_local s Activator" "d = lv_life s" using d x by (auto split: if_splits)
    have all: "all_rest s" using ph x by simp
    show ?thesis
    proof (cases "proxy_thread_zombie ?p (g_terminating (lv_state s))")
      case True
      then have new: "new = [AwaitProxy env ?p ACTIVATIONSTATE_DISPATCHER_FAILED no_threads]" using d x by simp
      have "phase s new" using all
        by (simp add: new only_started_def others_rest_def all_rest_def whole_def alive_thread_def no_threads_def)
      then show ?thesis using unchanged [OF _ _ l, of new] x(2)
        by (simp add: new activator_shape_def suffix_Cons)
    next
      case False
      then have new: "new = kill_and_map env shm" using d x by (simp add: kill_and_map_def)
      have "all_rest s'" using all rest x by (simp add: all_rest_def)
      moreover have "claimed s ?p \<longrightarrow> chan_reg s ?p"
        using no_claim_not_zombie [OF ok(3)] False all unfolding terminating_eq all_rest_def at_rest_def by blast
      ultimately show ?thesis
        using chan x(1) unfolding new x(2) by (auto simp: kill_and_map_list Let_def activator_shape_def r(4))
    qed
  next
    fix env p state sd assume "x # k = [AwaitProxy env p state sd]"
    then have x: "x = AwaitProxy env p state sd" "k = []" by simp_all
    have l: "l = lv_local s Activator" "d = lv_life s" "new = conclude_ops env p (fst (await_proxy env state)) sd"
      using d x by auto
    have "\<forall>env shm. StartThreads env shm \<notin> set new"
      unfolding l(3) conclude_ops_def register_ops_def by (auto split: option.splits)
    with ph x conclude_shape [of s p sd env "fst (await_proxy env state)"] show ?thesis
      using unchanged [OF _ _ l(1,2), of new] by (simp add: l(3))
  next
    fix p sd assume "x # k = [Undo p sd]"
    then have x: "x = Undo p sd" "k = []" by simp_all
    have "all_rest s"
    proof (cases "alive_thread sd")
      case (Some n)
      with go x ended_not_pending have "\<not> unqueued s n q" for q by simp
      have "only_started s p (Some n)" using ph x Some by simp
      with \<open>\<And>q. \<not> unqueued s n q\<close> have "at_rest s p" "others_rest s p"
        unfolding at_rest_def only_started_def by auto
      then show ?thesis unfolding all_rest_def others_rest_def by metis
    qed (use ph x only_started_none in auto)
    moreover have "new = []" using do_life_new [OF d] x by simp
    ultimately show ?thesis using rest tail x by (simp add: all_rest_def)
  next
    fix w p ts sub tc chan' n
    assume "x # k = [SetChannel p tc chan', SetAlive p n, SignalChannel p, TellClients w p True]"
    then have x: "x = SetChannel p tc chan'" "k = [SetAlive p n, SignalChannel p, TellClients w p True]" by simp_all
    have "new = []" using do_life_new [OF d] x by simp
    moreover have "chan_reg s' p"
      using do_life_channels [OF d, of p] x(1) unfolding chan_reg_name f(1) by auto
    moreover have "only_started s' p (Some n)" using ph x rest
      by (auto simp: only_started_def others_rest_def r(2,3))
    ultimately show ?thesis using tail x by simp
  next
    fix w p ts sub tc chan' n
    assume "x # k = [SetAlive p n, SignalChannel p, TellClients w p True]"
    then have x: "x = SetAlive p n" "k = [SignalChannel p, TellClients w p True]" by simp_all
    have new: "new = []" using do_life_new [OF d] x by simp
    have st: "only_started s p (Some n)" "\<And>m. unqueued s m p \<Longrightarrow> chan_reg s p" using ph x by auto
    then obtain c where c: "lv_context s n = Some c" by (auto simp: only_started_def named_def)
    have "alive_reg s' n p"
      using do_life_alives [OF d, of p] c x(1) unfolding alive_reg_def f(1) by simp
    then have "at_rest s' p" using st chan [of p] x(1) unfolding at_rest_def r(3) only_started_def by auto
    moreover have "at_rest s' q" if "q \<noteq> p" for q
      using rest [of q] st(1) that x(1) by (simp add: only_started_def others_rest_def)
    ultimately have "all_rest s'" unfolding all_rest_def by metis
    then show ?thesis using tail x new by simp
  qed (use ph no quiet in \<open>auto simp: suffix_Cons\<close>)
  then show ?thesis by (simp add: ops)
qed

lemma started_facts:
  assumes "start_threads env shm s c a = (created, sd)"
  shows "whole sd (as_proxy_name shm)"
    "alive_thread sd = Some n \<Longrightarrow> av_alive_thread env = Some n \<and>
       sd_alive sd = Some (proxy_alive_context_create (as_proxy_name shm) (as_pid shm) a, Some n)"
  using assms by (auto simp: start_threads_def whole_def alive_thread_def proxy_channel_context_create_def Let_def
      split: if_splits option.splits)

lemma activator_start:
  assumes ok: "claims_ok s" "entries_ok s" and o: "lv_ops s Activator = [StartThreads env shm]"
    and ph: "phase s [StartThreads env shm]" and go: "may_go s Activator (StartThreads env shm)"
  defines "s' \<equiv> does Activator (StartThreads env shm) [] s"
  shows "claims_ok s' \<and> entries_ok s' \<and> burying s' = burying s \<and> phase s' (lv_ops s' Activator) \<and>
    activator_shape (lv_ops s' Activator) \<and>
    (\<forall>n. lv_ops s' (AliveThread n) = lv_ops s (AliveThread n)) \<and> lv_state s' = lv_state s \<and>
    lv_local s' Terminator = lv_local s Terminator"
proof -
  let ?p = "as_proxy_name shm" and ?l = "lv_local s Activator"
  obtain l new d where d: "do_life (StartThreads env shm) ?l (lv_life s) = (l, new, d)"
    using prod_cases3 by blast
  note f = does_fields [OF d, of "[]", folded s'_def]
  have ops: "lv_ops s' (AliveThread n) = lv_ops s (AliveThread n)" "lv_ops s' Terminator = lv_ops s Terminator"
    "lv_ops s' Activator = new" "lv_local s' Terminator = lv_local s Terminator" for n using f by simp_all
  then have b: "burying s' = burying s" by (simp add: burying_def fun_eq_iff)
  have st: "lv_state s' = lv_state s" using d unfolding f(1)
    by (auto simp: Let_def split: option.splits prod.splits)
  from ph have none: "\<And>n. \<not> unqueued s n ?p" "others_rest s ?p" by simp_all
  have rest: "at_rest s' q = at_rest s q" if "\<And>n. unqueued s' n q = unqueued s n q" for q
    unfolding at_rest_def alive_reg_def chan_reg_def st that ..
  have new_shape: "activator_shape new" using do_life_new [OF d] d
    by (auto simp: activator_shape_def suffix_Cons Let_def split: option.splits prod.splits)
  consider (none) "new = [] \<or> (\<exists>state sd. new = [AwaitProxy env ?p state sd] \<and> alive_thread sd = None)"
      "lv_context s' = lv_context s"
    | (some) state sd n c where "new = [AwaitProxy env ?p state sd]" "alive_thread sd = Some n" "whole sd ?p"
      "av_alive_thread env = Some n" "lv_context s' = (lv_context s)(n \<mapsto> c)" "ac_proxy_name c = ?p"
      "\<not> ac_dead c" "\<not> claimed s ?p"
  proof (cases "\<exists>c1 s1 a1. ll_channel_shm ?l = Some c1 \<and> ll_subscribe_shm ?l = Some s1 \<and> ll_alive_shm ?l = Some a1")
    case True
    then obtain c1 s1 a1 where m: "ll_channel_shm ?l = Some c1" "ll_subscribe_shm ?l = Some s1"
      "ll_alive_shm ?l = Some a1" by blast
    obtain cr sd where sd: "start_threads env shm s1 c1 a1 = (cr, sd)" by force
    note facts = started_facts [OF sd]
    have new: "\<exists>state. new = [AwaitProxy env ?p state sd]" using d m sd by auto
    show ?thesis
    proof (cases "alive_thread sd")
      case None
      then have "lv_context s' = lv_context s" using d m sd unfolding f(1) alive_thread_def
        by (auto split: option.splits prod.splits)
      with new None none that(1) show ?thesis by blast
    next
      case (Some n)
      let ?c = "proxy_alive_context_create ?p (as_pid shm) a1"
      have "lv_context s' = (lv_context s)(n \<mapsto> ?c)" using facts(2) [OF Some] d m sd unfolding f(1) by auto
      moreover have "\<not> claimed s ?p" using ph m(1) by auto
      ultimately show ?thesis
        using new Some facts(1) facts(2) [OF Some] that(2) by (auto simp: proxy_alive_context_create_def)
    qed
  next
    case False
    then have "new = [] \<and> d = lv_life s" using d by (auto split: option.splits)
    then show ?thesis using that(1) f(1) by simp
  qed
  then have main: "claims_ok s' \<and> entries_ok s' \<and> phase s' new"
  proof cases
    case none
    have q: "g_queue (lv_state s') = g_queue (lv_state s)" by (simp add: st)
    note c = claims_cong [OF none(2) ops(1) q ops(2)]
    have "at_rest s' ?p" "others_rest s' ?p"
      using rest c(3) \<open>others_rest s ?p\<close> \<open>\<And>n. \<not> unqueued s n ?p\<close>
      by (simp_all add: others_rest_def) (simp add: at_rest_def)
    then have "all_rest s'" unfolding all_rest_def others_rest_def by metis
    then have "phase s' new" using none(1)
      by (auto simp: only_started_def others_rest_def all_rest_def whole_def)
    moreover have "entries_ok s'" using ok(2) unfolding entries_ok_def st none(2) .
    ultimately show ?thesis using ok(1) c(1) by simp
  next
    case (some state sd n c)
    have fresh: "lv_context s n = None" using go some(4) by simp
    then have idle: "lv_ops s (AliveThread n) = []" using claimsD(1) [OF ok(1), of n] by (simp add: alive_shape_def)
    have p: "unqueued s' m q \<longleftrightarrow> unqueued s m q \<or> m = n \<and> q = ?p" for m q
      unfolding unqueued_def some(5) ops(1) using some(6,7) fresh by auto
    have sh: "alive_shape s' m" for m
      using claimsD(1) [OF ok(1), of m] idle some(7) unfolding alive_shape_def some(5) ops(1) by simp
    have "claims_ok s'" unfolding claims_ok_def b p ops st
      using sh claimsD(2-6) [OF ok(1)] some(8) none(1) unfolding claimed_def
      by (intro conjI allI impI ballI) blast+
    moreover have "entries_ok s'"
      using ok(2) fresh unfolding entries_ok_def st some(5) by (auto split: if_splits)
    moreover have "at_rest s' q = at_rest s q" if "q \<noteq> ?p" for q using rest [of q] that by (simp add: p)
    with none(2) have "others_rest s' ?p" by (simp add: others_rest_def)
    then have "phase s' new"
      using some(3) none(1) by (simp add: some(1,2) only_started_def named_def some(5,6) p)
    ultimately show ?thesis by blast
  qed
  then show ?thesis using new_shape ops b st by simp
qed

section \<open>The invariant\<close>

definition lives_ok :: "lives \<Rightarrow> bool" where
  "lives_ok s \<longleftrightarrow> claims_ok s \<and> marks_ok s \<and> entries_ok s \<and> no_signals s \<and>
     activator_shape (lv_ops s Activator) \<and> phase s (lv_ops s Activator)"

text \<open>The entries after an operation that starts no thread.\<close>

lemma entries_step:
  assumes "entries_ok s" "do_life x (lv_local s t) (lv_life s) = (l, new, d)"
    "\<forall>env shm. x \<noteq> StartThreads env shm"
    "\<And>p n. x = SetAlive p n \<Longrightarrow> named s n p" "\<And>p n c. x = SetChannel p n c \<Longrightarrow> cc_proxy_name c = p"
  shows "entries_ok (does t x k s)"
proof -
  note f = does_fields [OF assms(2), of k]
  have c: "chan_name (lf_state d) p \<in> {None, Some p}" for p
  proof -
    have "chan_name (lv_state s) p \<in> {None, Some p}" using assms(1) unfolding entries_ok_def by blast
    then show ?thesis using do_life_channels [OF assms(2), of p] assms(5) by (cases x) auto
  qed
  have a: "lf_contexts d (te_thread e) = Some (te_ctx e) \<and> ac_proxy_name (te_ctx e) = p"
    if e: "ht_lookup (g_alives (lf_state d)) p = Some e" for p e
  proof (cases "\<exists>e n. x = LockAlive e n")
    case False
    then have ctx: "lf_contexts d = lv_context s" using do_life_contexts [OF assms(2)] assms(3) by blast
    show ?thesis
    proof (cases "ht_lookup (g_alives (lv_state s)) p = Some e")
      case True
      then show ?thesis using entriesD(1,2) [OF assms(1)] by (simp add: ctx)
    next
      case other: False
      then obtain n c where "x = SetAlive p n" "lv_context s n = Some c" "e = \<lparr>te_thread = n, te_ctx = c\<rparr>"
        using do_life_alives [OF assms(2), of p] False e by (cases x) (auto split: if_splits option.splits)
      with assms(4) [of p n] show ?thesis by (simp add: ctx named_def)
    qed
  next
    case True
    then obtain ev n where x: "x = LockAlive ev n" by blast
    show ?thesis
    proof (cases "lv_context s n")
      case None
      then have "d = lv_life s" using assms(2) unfolding x by simp
      then show ?thesis using entriesD(1,2) [OF assms(1)] e by simp
    next
      case (Some c)
      then obtain c' where c': "ac_proxy_name c' = ac_proxy_name c" and
        "do_life x (lv_local s t) (lv_life s) = (lv_local s t,
           if ac_dead c' then death_ops (ae_world ev) (ac_proxy_name c) else [], write_context n c' (lv_life s))"
        unfolding x by (rule lock_alive)
      with assms(2) have d: "d = write_context n c' (lv_life s)" by simp
      from e obtain e0 where e0: "ht_lookup (g_alives (lv_state s)) p = Some e0"
        "e = (if te_thread e0 = n then e0\<lparr>te_ctx := c'\<rparr> else e0)"
        unfolding d by (auto simp: write_context_def on_life_def)
      from entriesD(1,2) [OF assms(1) e0(1)] show ?thesis
        using c' Some unfolding d e0(2) by (auto simp: write_context_def on_life_def)
    qed
  qed
  show ?thesis unfolding entries_ok_def f(1) using a c by blast
qed

lemma marksD:
  assumes "marks_ok s"
  shows "distinct (g_terminating (lv_state s))"
    "p \<in> set (g_queue (lv_state s)) \<Longrightarrow> p \<in> set (g_terminating (lv_state s))"
    "burying s p \<Longrightarrow> p \<in> set (g_terminating (lv_state s))"
    "AwakeTerminator p \<in> set (lv_ops s (AliveThread n)) \<Longrightarrow> SetZombie p \<notin> set (lv_ops s (AliveThread n)) \<Longrightarrow>
       p \<in> set (g_terminating (lv_state s))"
  using assms unfolding marks_ok_def by blast+

lemma marksI:
  assumes "distinct (g_terminating (lv_state s))"
    "\<And>p. p \<in> set (g_queue (lv_state s)) \<Longrightarrow> p \<in> set (g_terminating (lv_state s))"
    "\<And>p. burying s p \<Longrightarrow> p \<in> set (g_terminating (lv_state s))"
    "\<And>p n. AwakeTerminator p \<in> set (lv_ops s (AliveThread n)) \<Longrightarrow> SetZombie p \<notin> set (lv_ops s (AliveThread n)) \<Longrightarrow>
       p \<in> set (g_terminating (lv_state s))"
  shows "marks_ok s"
  using assms unfolding marks_ok_def by blast

lemma marks_terminator:
  assumes "claims_ok s" "marks_ok s" "lv_ops s Terminator = x # k"
  shows "marks_ok (does Terminator x k s)"
proof -
  define s' where "s' = does Terminator x k s"
  obtain l new d where d: "do_life x (lv_local s Terminator) (lv_life s) = (l, new, d)"
    using prod_cases3 by blast
  note f = does_fields [OF d, of k, folded s'_def]
  note t = terminator_step [OF assms(1,3), folded s'_def]
  note m = marksD [OF assms(2)]
  have a: "lv_ops s' (AliveThread n) = lv_ops s (AliveThread n)" for n using f by simp
  have "marks_ok s'"
  proof (cases "\<exists>q. x = DropZombie q")
    case True
    then obtain q where q: "x = DropZombie q" by blast
    have g: "g_terminating (lv_state s') = proxy_thread_terminating_drop q (g_terminating (lv_state s))"
      using do_life_terminating [OF d] unfolding f(1) q by simp
    have bq: "burying s q" using assms(3) q by (simp add: burying_def)
    have keep: "p \<in> set (g_terminating (lv_state s'))" if "p \<in> set (g_terminating (lv_state s))" "p \<noteq> q" for p
      using that unfolding g terminating_eq by simp
    have "k = [PopQueue]" using terminator_cases [OF claimsD(2) [OF assms(1), unfolded assms(3)]] q by auto
    moreover have "new = []" using do_life_new [OF d] q by simp
    ultimately have b: "\<not> burying s' p" for p using f by (simp add: burying_def)
    show ?thesis
    proof (rule marksI)
      show "distinct (g_terminating (lv_state s'))" using m(1) unfolding g terminating_eq by simp
      show "p \<in> set (g_terminating (lv_state s'))" if "p \<in> set (g_queue (lv_state s'))" for p
      proof (rule keep)
        have "p \<in> set (g_queue (lv_state s))" using that t(6) by blast
        then show "p \<in> set (g_terminating (lv_state s))" "p \<noteq> q" using m(2) claimsD(6) [OF assms(1)] bq by auto
      qed
      show "p \<in> set (g_terminating (lv_state s'))"
        if "AwakeTerminator p \<in> set (lv_ops s' (AliveThread n))" "SetZombie p \<notin> set (lv_ops s' (AliveThread n))" for p n
      proof (rule keep)
        show "p \<in> set (g_terminating (lv_state s))" using m(4) [of p n] that unfolding a by blast
        have "unqueued s n p"
          using claimsD(1) [OF assms(1), of n] that(1) unfolding a unqueued_def alive_shape_def death_ops_def
          by (auto split: option.splits if_splits dest!: set_mono_suffix)
        then show "p \<noteq> q" using claimsD(4) [OF assms(1)] bq by blast
      qed
    qed (use b in blast)
  next
    case False
    then have g: "g_terminating (lv_state s') = g_terminating (lv_state s)"
      using do_life_terminating [OF d] terminator_cases [OF claimsD(2) [OF assms(1), unfolded assms(3)]]
      unfolding f(1) by auto
    show ?thesis by (rule marksI; unfold g a) (use m t(5,6) in blast)+
  qed
  then show ?thesis by (simp add: s'_def)
qed

lemma marks_alive:
  assumes "claims_ok s" "marks_ok s" "lv_ops s (AliveThread n) = x # k"
  shows "marks_ok (does (AliveThread n) x k s)"
proof -
  define s' where "s' = does (AliveThread n) x k s"
  obtain l new d where d: "do_life x (lv_local s (AliveThread n)) (lv_life s) = (l, new, d)"
    using prod_cases3 by blast
  note f = does_fields [OF d, of k, folded s'_def]
  note m = marksD [OF assms(2)]
  have t: "burying s' p = burying s p" for p using f by (simp add: burying_def)
  have a: "lv_ops s' (AliveThread i) = (if i = n then new @ k else lv_ops s (AliveThread i))" for i using f by simp
  have g: "g_terminating (lv_state s') = (case x of SetZombie p \<Rightarrow> array_add p (g_terminating (lv_state s))
      | _ \<Rightarrow> g_terminating (lv_state s))"
    and q: "g_queue (lv_state s') = (case x of AwakeTerminator p \<Rightarrow> g_queue (lv_state s) @ [p] | _ \<Rightarrow> g_queue (lv_state s))"
    using claimsD(1) [OF assms(1)] assms(3)
    by (cases rule: alive_cases; use do_life_terminating [OF d] do_life_queue [OF d] in \<open>simp add: f(1) terminating_eq\<close>)+
  have more: "p \<in> set (g_terminating (lv_state s')) " if "p \<in> set (g_terminating (lv_state s))" for p
    using that unfolding g by (cases x) auto
  have mine: "p \<in> set (g_terminating (lv_state s'))"
    if "AwakeTerminator p \<in> set (new @ k)" "SetZombie p \<notin> set (new @ k)" for p
    using claimsD(1) [OF assms(1)] assms(3)
  proof (cases rule: alive_cases)
    case (lock c e)
    obtain c' where "do_life x (lv_local s (AliveThread n)) (lv_life s) =
        (lv_local s (AliveThread n), if ac_dead c' then death_ops (ae_world e) (ac_proxy_name c) else [],
         write_context n c' (lv_life s))"
      unfolding lock(3) by (rule lock_alive [OF lock(1)])
    with d that lock(4) show ?thesis by (auto simp: death_ops_def split: if_splits)
  next
    case (mark c w)
    with that do_life_new [OF d] show ?thesis unfolding g by auto
  next
    case (awake c w)
    with that do_life_new [OF d] show ?thesis by auto
  next
    case (tell c w)
    with that do_life_new [OF d] show ?thesis by auto
  qed
  have queued: "p \<in> set (g_terminating (lv_state s'))" if "p \<in> set (g_queue (lv_state s'))" for p
    using claimsD(1) [OF assms(1)] assms(3)
  proof (cases rule: alive_cases)
    case (awake c w)
    then show ?thesis using that m(2) m(4) [of "ac_proxy_name c" n] assms(3) more unfolding q by auto
  qed (use that m(2) more q in auto)
  have "marks_ok s'"
  proof (rule marksI)
    show "distinct (g_terminating (lv_state s'))" using m(1) unfolding g by (cases x) auto
    show "p \<in> set (g_terminating (lv_state s'))"
      if "AwakeTerminator p \<in> set (lv_ops s' (AliveThread i))" "SetZombie p \<notin> set (lv_ops s' (AliveThread i))" for p i
      using that mine more m(4) [of p i] unfolding a by (cases "i = n") auto
  qed (use queued m(3) t more in blast)+
  then show ?thesis by (simp add: s'_def)
qed

lemma no_signals_terminator:
  assumes "claims_ok s" "entries_ok s" "no_signals s" "lv_ops s Terminator = x # k"
  shows "no_signals (does Terminator x k s)"
proof -
  obtain l new d where d: "do_life x (lv_local s Terminator) (lv_life s) = (l, new, d)"
    using prod_cases3 by blast
  note shape = terminator_cases [OF claimsD(2) [OF assms(1), unfolded assms(4)]]
  then have "\<forall>p sd. x \<noteq> Undo p sd" by auto
  note sig = do_life_sigterms [OF d this]
  have "ac_dead (te_ctx e)" if "x = StopAlive p" "ht_lookup (g_alives (lv_state s)) p = Some e" for p e
  proof (rule ccontr)
    assume "\<not> ac_dead (te_ctx e)"
    with entriesD(1,2) [OF assms(2) that(2)] have "unqueued s (te_thread e) p" by (simp add: unqueued_def)
    moreover have "burying s p" using terminator_names [OF assms(1,4)] that(1) by blast
    ultimately show False using claimsD(4) [OF assms(1)] by blast
  qed
  then have "ll_sigterms l = []"
    using sig assms(3) unfolding no_signals_def by (cases x) (auto split: option.splits)
  then show ?thesis using does_fields(2) [OF d] by (simp add: no_signals_def)
qed

lemma calm_phase_ops:
  assumes "calm s s'" "lives_ok s" "lv_ops s' Activator = lv_ops s Activator"
  shows "phase s' (lv_ops s' Activator) \<and> activator_shape (lv_ops s' Activator)"
proof -
  have "admitting s (as_proxy_name shm)" if "StartThreads env shm \<in> set (lv_ops s Activator)" for env shm
    using that unfolding admitting_def by blast
  with calm_phase [OF assms(1)] assms(2,3) show ?thesis unfolding lives_ok_def by simp
qed

lemma ok_turn:
  assumes "lives_ok s" "lv_ops s Activator = []"
  shows "lives_ok (puts Activator (activator_ops env b dead shm) s)"
proof -
  let ?s = "puts Activator (activator_ops env b dead shm) s"
  have c: "claims_ok ?s = claims_ok s" "unqueued ?s = unqueued s" "burying ?s = burying s"
    by (rule claims_cong; simp add: puts_def)+
  have s: "lv_life ?s = lv_life s" "lv_local ?s = lv_local s" "lv_ops ?s (AliveThread n) = lv_ops s (AliveThread n)" for n
    by (simp_all add: puts_def)
  have "at_rest ?s p = at_rest s p" for p
    by (simp add: at_rest_def c alive_reg_def chan_reg_def s)
  then have "all_rest ?s" using assms by (simp add: lives_ok_def all_rest_def)
  then have "phase ?s (lv_ops ?s Activator)" "activator_shape (lv_ops ?s Activator)"
    by (auto simp: puts_def activator_ops_def activator_shape_def)
  with assms(1) show ?thesis
    by (simp add: lives_ok_def c marks_ok_def entries_ok_def no_signals_def s)
qed

lemma ok_starts:
  assumes "lives_ok s" "lv_ops s t = []"
    "t = Terminator \<and> ops = [PopQueue] \<or> (\<exists>n c e. t = AliveThread n \<and> lv_context s n = Some c \<and>
      \<not> ac_dead c \<and> ops = [LockAlive e n])"
  shows "lives_ok (puts t ops s)"
proof -
  let ?s = "puts t ops s"
  note calm = calm_starts [OF assms(3,2)]
  have s: "lv_life ?s = lv_life s" "lv_local ?s = lv_local s" "lv_ops ?s Activator = lv_ops s Activator"
    using assms(3) by (auto simp: puts_def)
  note ok = assms(1) [unfolded lives_ok_def]
  have "alive_shape ?s n" for n
  proof (cases "t = AliveThread n")
    case True
    with assms(3) show ?thesis by (auto simp: alive_shape_def puts_def)
  next
    case False
    then have o: "lv_ops ?s (AliveThread n) = lv_ops s (AliveThread n)" by (simp add: puts_def)
    from claimsD(1) [OF conjunct1 [OF ok], of n] show ?thesis unfolding alive_shape_def s(1) o .
  qed
  moreover have "terminator_shape (lv_ops ?s Terminator)"
  proof (cases "t = Terminator")
    case True
    then have "lv_ops ?s Terminator = [PopQueue]" using assms(3) by (auto simp: puts_def)
    then show ?thesis by (auto simp: terminator_shape_def terminator_list suffix_Cons)
  next
    case False
    then show ?thesis using claimsD(2) [OF conjunct1 [OF ok]] by (simp add: puts_def)
  qed
  ultimately have "claims_ok ?s" using ok unfolding claims_ok_def calm(2,3) s(1) by blast
  moreover have "marks_ok ?s"
  proof -
    have "AwakeTerminator p \<in> set (lv_ops ?s (AliveThread n)) \<Longrightarrow> lv_ops ?s (AliveThread n) = lv_ops s (AliveThread n)"
      for p n using assms(3) by (auto simp: puts_def split: if_splits)
    moreover note m = marksD [OF conjunct1 [OF conjunct2 [OF ok]]]
    ultimately show ?thesis by (intro marksI; unfold calm(3) s(1)) (metis m)+
  qed
  ultimately show ?thesis
    using ok calm_phase_ops [OF calm(1) assms(1) s(3)] unfolding lives_ok_def entries_ok_def no_signals_def s by blast
qed

lemma ok_elsewhere:
  assumes "lives_ok s" "keeps_threads s st"
  shows "lives_ok (s\<lparr>lv_life := (lv_life s)\<lparr>lf_state := st\<rparr>\<rparr>)"
proof -
  let ?s = "s\<lparr>lv_life := (lv_life s)\<lparr>lf_state := st\<rparr>\<rparr>"
  have st: "g_queue st = g_queue (lv_state s)" "g_terminating st = g_terminating (lv_state s)"
    "g_alives st = g_alives (lv_state s)" using assms(2) by (simp_all add: keeps_threads_def)
  have c: "claims_ok ?s = claims_ok s" "burying ?s = burying s" by (rule claims_cong; simp add: st)+
  have "marks_ok ?s = marks_ok s" by (simp add: marks_ok_def c st)
  moreover have "entries_ok ?s = entries_ok s"
    by (simp add: entries_ok_def st keeps_names [OF assms(2)])
  moreover have "no_signals ?s = no_signals s" by (simp add: no_signals_def)
  ultimately show ?thesis
    using assms(1) calm_phase_ops [OF calm_elsewhere [OF assms(2)] assms(1)] c unfolding lives_ok_def by simp
qed

lemma ok_terminator:
  assumes "lives_ok s" "lv_ops s Terminator = x # k"
  shows "lives_ok (does Terminator x k s)"
proof -
  obtain l new d where d: "do_life x (lv_local s Terminator) (lv_life s) = (l, new, d)"
    using prod_cases3 by blast
  note ok = assms(1) [unfolded lives_ok_def]
  then have c: "claims_ok s" and m: "marks_ok s" and e: "entries_ok s" and n: "no_signals s" by blast+
  note shape = terminator_cases [OF claimsD(2) [OF c, unfolded assms(2)]]
  have "entries_ok (does Terminator x k s)" using shape by (intro entries_step [OF e d]) auto
  moreover have "lv_ops (does Terminator x k s) Activator = lv_ops s Activator"
    using does_fields(3) [OF d] by simp
  ultimately show ?thesis
    using terminator_step(1) [OF c assms(2)] marks_terminator [OF c m assms(2)]
      no_signals_terminator [OF c e n assms(2)] calm_phase_ops [OF calm_terminator [OF c e assms(2)] assms(1)]
    by (simp add: lives_ok_def)
qed

lemma ok_alive:
  assumes "lives_ok s" "lv_ops s (AliveThread i) = x # k"
  shows "lives_ok (does (AliveThread i) x k s)"
proof -
  obtain l new d where d: "do_life x (lv_local s (AliveThread i)) (lv_life s) = (l, new, d)"
    using prod_cases3 by blast
  note ok = assms(1) [unfolded lives_ok_def]
  then have c: "claims_ok s" and m: "marks_ok s" and e: "entries_ok s" and n: "no_signals s" by blast+
  have "entries_ok (does (AliveThread i) x k s)"
    using claimsD(1) [OF c] assms(2) by (intro entries_step [OF e d]) (auto elim: alive_cases)
  moreover have "no_signals (does (AliveThread i) x k s)"
    using n alive_step(8) [OF c assms(2)] by (simp add: no_signals_def)
  ultimately show ?thesis
    using alive_step(1,6) [OF c assms(2)] marks_alive [OF c m assms(2)]
      calm_phase_ops [OF calm_alive [OF c assms(2)] assms(1)]
    by (simp add: lives_ok_def)
qed

lemma phase_sets:
  assumes "activator_shape (x # k)" "phase s (x # k)"
  shows "x = SetAlive p n \<Longrightarrow> named s n p" "x = SetChannel p n c \<Longrightarrow> cc_proxy_name c = p"
  using assms unfolding activator_shape_def
  by (auto simp: suffix_Cons kill_and_map_list Let_def only_started_def)

lemma ok_activator:
  assumes "lives_ok s" "lv_ops s Activator = x # k" "may_go s Activator x"
  shows "lives_ok (does Activator x k s)"
proof -
  let ?s = "does Activator x k s"
  obtain l new d where d: "do_life x (lv_local s Activator) (lv_life s) = (l, new, d)"
    using prod_cases3 by blast
  have ok: "claims_ok s" "entries_ok s" "marks_ok s" "no_signals s" "activator_shape (x # k)" "phase s (x # k)"
    using assms(1,2) by (simp_all add: lives_ok_def)
  show ?thesis
  proof (cases "\<exists>env shm. x = StartThreads env shm")
    case True
    then obtain env shm where x: "x = StartThreads env shm" by blast
    have k: "k = []" using ok(5) unfolding activator_shape_def x
      by (auto simp: suffix_Cons kill_and_map_list Let_def)
    from activator_start [of s env shm] ok assms(2,3) show ?thesis
      unfolding x k by (simp add: lives_ok_def marks_ok_def no_signals_def)
  next
    case False
    then have nx: "\<forall>env shm. x \<noteq> StartThreads env shm" by blast
    note r = activator_frame [OF ok(5) d nx]
    have "phase ?s (lv_ops ?s Activator) \<and> activator_shape (lv_ops ?s Activator)"
    proof (cases "\<exists>env shm. suffix (x # k) (kill_and_map env shm)")
      case True
      then obtain env shm where "suffix (x # k) (kill_and_map env shm)" by blast
      from activator_kill [OF ok(1,2) assms(2) this ok(6) assms(3) nx] activator_tail [OF ok(5)]
      show ?thesis by simp
    next
      case False
      then show ?thesis using activator_rest [OF ok(1,2,3) assms(2) ok(5,6) assms(3) nx] by blast
    qed
    moreover have "entries_ok ?s"
      by (rule entries_step [OF ok(2) d nx]) (use phase_sets [OF ok(5,6)] in blast)+
    ultimately show ?thesis
      using ok by (simp add: lives_ok_def marks_ok_def no_signals_def r)
  qed
qed

lemma ok_step:
  assumes "life_step s s'" "lives_ok s"
  shows "lives_ok s'"
  using assms
proof (cases rule: life_step.cases)
  case (operation u x k)
  with assms(2) show ?thesis by (cases u) (auto intro: ok_activator ok_terminator ok_alive)
next
  case (turn env b dead shm)
  with assms(2) show ?thesis by (simp add: ok_turn)
next
  case awake
  with assms(2) show ?thesis by (simp add: ok_starts)
next
  case (watch n c e)
  have "lives_ok (puts (AliveThread n) [LockAlive e n] s)" by (rule ok_starts [OF assms(2) watch(2)]) (use watch in blast)
  with watch(1) show ?thesis by simp
next
  case (elsewhere st)
  with assms(2) show ?thesis by (simp add: ok_elsewhere)
qed

lemma ok_init: "lives_init s \<Longrightarrow> lives_ok s"
  by (auto simp: lives_init_def lives_ok_def claims_ok_def marks_ok_def entries_ok_def no_signals_def
      alive_shape_def terminator_shape_def activator_shape_def unqueued_def burying_def all_rest_def at_rest_def)

interpretation lives: invariant_system lives_init life_step lives_ok
  by unfold_locales (auto intro: ok_init ok_step)

end
