(* ===== verification/Thread_Losses.thy ===== *)
theory Thread_Losses
  imports Thread_Safety Proxy_Lifecycle
begin

text \<open>
  What the interleaved threads guarantee of burials, and three runs in which a proxy that dies before the
  activator has registered it is lost.
\<close>

section \<open>Runs of given turns\<close>

text \<open>One operation of each thread of the list, if it may go.\<close>

fun play :: "life_thread list \<Rightarrow> lives \<Rightarrow> lives option" where
  "play [] s = Some s"
| "play (t # ts) s =
     (case lv_ops s t of
        [] \<Rightarrow> None
      | x # k \<Rightarrow> if may_go s t x \<and> life_ok x (lv_local s t) (lv_life s) then play ts (does t x k s) else None)"

lemma play_steps: "play ts s = Some s' \<Longrightarrow> life_step\<^sup>*\<^sup>* s s'"
proof (induction ts arbitrary: s)
  case (Cons t ts)
  then obtain x k where "lv_ops s t = x # k" "may_go s t x" "life_ok x (lv_local s t) (lv_life s)"
    "play ts (does t x k s) = Some s'" by (auto split: list.splits if_splits)
  with Cons.IH show ?case by (meson converse_rtranclp_into_rtranclp operation)
qed simp

definition sample_lives :: lives where
  "sample_lives = \<lparr>lv_life = \<lparr>lf_state = sample_segments, lf_contexts = \<lambda>_. None\<rparr>,
     lv_local = \<lambda>_. no_life_local, lv_ops = \<lambda>_. [], lv_kill = None\<rparr>"

lemma sample_lives_init: "lives_init sample_lives"
  by (simp add: sample_lives_def lives_init_def sample_segments_def initial_gonggo_def no_life_local_def)

definition death :: alive_event where
  "death = \<lparr>ae_status = EOWNERDEAD, ae_alive = True, ae_world = sample_world Map.empty (\<lambda>_. []), ae_env = id\<rparr>"

text \<open>The proxy \<open>p\<close> asks to be admitted and dies as soon as its threads have been started.\<close>

definition asked :: lives where
  "asked = puts Activator (activator_ops sample_env False False sample_activation_shm) sample_lives"

definition sample_context :: "bool \<Rightarrow> ProxyAliveContext" where
  "sample_context dead = \<lparr>ac_proxy_name = ''p'', ac_pid = 42, ac_dead = dead, ac_shm = \<lparr>al_alive = True\<rparr>\<rparr>"

definition sample_started :: started where
  "sample_started = \<lparr>sd_subscribe = Some (proxy_subscribe_context_create ''p'' idle_subscribe_shm, Some 1),
     sd_channel = Some (proxy_channel_context_create ''p'' idle_channel_shm, Some 2),
     sd_alive = Some (sample_context False, Some 3)\<rparr>"

definition waiting :: lives where
  "waiting = \<lparr>lv_life = \<lparr>lf_state = sample_segments, lf_contexts = (\<lambda>_. None)(3 \<mapsto> sample_context False)\<rparr>,
     lv_local = (\<lambda>_. no_life_local)(Activator := no_life_local\<lparr>ll_channel_shm := Some idle_channel_shm,
       ll_subscribe_shm := Some idle_subscribe_shm, ll_alive_shm := Some \<lparr>al_alive = True\<rparr>\<rparr>),
     lv_ops = (\<lambda>_. [])(Activator := [AwaitProxy sample_env ''p'' ACTIVATIONSTATE_DISPATCHER_SUCCESS sample_started]),
     lv_kill = None\<rparr>"

definition queued :: lives where
  "queued = waiting\<lparr>lv_life := \<lparr>lf_state = sample_segments\<lparr>g_terminating := [''p''], g_queue := [''p'']\<rparr>,
     lf_contexts = (\<lambda>_. None)(3 \<mapsto> sample_context True)\<rparr>\<rparr>"

lemmas play_defs = puts_def does_def kill_ops_def map_ops_def terminate_ops_def death_ops_def terminating_eq
  subscribe_table_defs channel_table_defs alive_table_defs numeral_eq_Suc ht_lookup_def Let_def

lemma asked_played: "play (replicate 13 Activator) asked = Some waiting"
  by (simp add: play_defs asked_def sample_lives_def activator_ops_def sample_activation_shm_def
      sample_segments_def initial_gonggo_def no_life_local_def sample_env_def proxy_channel_shm_get_def
      proxy_subscribe_shm_get_def proxy_alive_shm_get_def path_defs start_threads_def waiting_def
      sample_context_def sample_started_def proxy_alive_context_create_def fun_upd_twist)

lemma quiet_notification:
  "g_proxynames st = [] \<Longrightarrow> client_proxy_alive_notification (sample_world t f) p b st = st"
  by (simp add: client_proxy_alive_notification_def client_proxyname_table_request_dup_def sample_world_def
      ht_keys_def)

lemmas life_defs = on_life_def write_context_def share_context_def proxy_terminator_awake_def array_add_def
  quiet_notification sample_segments_def initial_gonggo_def

lemma death_played: "play (replicate 4 (AliveThread 3)) (puts (AliveThread 3) [LockAlive death 3] waiting) = Some queued"
  by (simp add: play_defs waiting_def queued_def death_def sample_context_def life_defs)
    (simp add: fun_eq_iff)

lemma concluded:
  "conclude_ops sample_env ''p'' (fst (await_proxy sample_env ACTIVATIONSTATE_DISPATCHER_SUCCESS)) sample_started =
     [SetSubscribe ''p'' 1 (proxy_subscribe_context_create ''p'' idle_subscribe_shm),
      SetChannel ''p'' 2 (proxy_channel_context_create ''p'' idle_channel_shm), SetAlive ''p'' 3,
      SignalChannel ''p'', TellClients (sample_world Map.empty (\<lambda>_. [])) ''p'' True]"
  by (simp add: conclude_ops_def await_proxy_def sample_env_def register_ops_def sample_started_def)

lemmas burial_defs = concluded proxy_channel_stop_def set_state_def proxy_channel_context_create_def
  proxy_subscribe_context_create_def idle_channel_shm_def proxy_alive_stop_def ended_def proxy_subscribe_stop_def ht_insert_def ht_remove_def unlink_all_eq client_proxyname_table_request_unsent_def
  array_drop_eq

definition buried :: "life_thread list \<Rightarrow> life_thread list \<Rightarrow> lives option" where
  "buried before after = play (before @ replicate 12 Terminator @ after)
     ((queued)\<lparr>lv_ops := (lv_ops queued)(Terminator := [PopQueue])\<rparr>)"

lemma queued_reachable: "life_step\<^sup>*\<^sup>* sample_lives queued"
proof -
  have "life_step sample_lives asked"
    unfolding asked_def by (rule turn) (simp add: sample_lives_def)
  moreover have "life_step\<^sup>*\<^sup>* asked waiting" by (rule play_steps [OF asked_played])
  moreover have "life_step waiting (puts (AliveThread 3) [LockAlive death 3] waiting)"
    by (rule watch [of _ _ "sample_context False"]) (simp_all add: waiting_def sample_context_def)
  moreover have "life_step\<^sup>*\<^sup>* (puts (AliveThread 3) [LockAlive death 3] waiting) queued"
    by (rule play_steps [OF death_played])
  ultimately show ?thesis by (meson converse_rtranclp_into_rtranclp rtranclp_trans)
qed

text \<open>The burial comes before the registration, after its first step, and after its third.\<close>

lemma lost:
  "\<exists>s. buried [] (replicate 6 Activator) = Some s \<and> (\<forall>t. lv_ops s t = []) \<and>
     ht_lookup (g_subscribes (lv_state s)) ''p'' \<noteq> None \<and> ht_lookup (g_channels (lv_state s)) ''p'' \<noteq> None \<and>
     ht_lookup (g_alives (lv_state s)) ''p'' = Some \<lparr>te_thread = 3, te_ctx = sample_context True\<rparr> \<and>
     g_queue (lv_state s) = [] \<and> g_terminating (lv_state s) = [] \<and>
     lv_context s = (\<lambda>_. None)(3 \<mapsto> sample_context True)"
  by (simp add: buried_def play_defs waiting_def queued_def sample_context_def life_defs burial_defs del: case_map_option)

lemma torn:
  "\<exists>s. buried (replicate 2 Activator) (replicate 4 Activator) = Some s \<and> (\<forall>t. lv_ops s t = []) \<and>
     ht_lookup (g_subscribes (lv_state s)) ''p'' = None \<and> alive_reg s 3 ''p''"
  by (simp add: alive_reg_def buried_def play_defs waiting_def queued_def sample_context_def life_defs burial_defs del: case_map_option)

lemma dangling:
  "\<exists>s. buried (replicate 4 Activator) [] = Some s \<and> ht_lookup (g_channels (lv_state s)) ''p'' = None \<and>
     (\<exists>k. lv_ops s Activator = SignalChannel ''p'' # k)"
  by (simp add: buried_def play_defs waiting_def queued_def sample_context_def life_defs burial_defs del: case_map_option)

lemma buried_reachable:
  assumes "buried before after = Some s"
  shows "life_step\<^sup>*\<^sup>* sample_lives s"
proof -
  have "life_step queued (puts Terminator [PopQueue] queued)"
    by (rule awake) (simp add: queued_def waiting_def)
  moreover have "life_step\<^sup>*\<^sup>* (puts Terminator [PopQueue] queued) s"
    by (rule play_steps [of "before @ replicate 12 Terminator @ after"])
      (use assms in \<open>simp add: buried_def puts_def\<close>)
  ultimately show ?thesis using queued_reachable by (meson converse_rtranclp_into_rtranclp rtranclp_trans)
qed

section \<open>Burials\<close>

lemma not_pending:
  assumes "claims_ok s" "lv_context s n = Some c" "ac_proxy_name c = p" "\<not> unqueued s n p"
  shows "ac_dead c \<and> length (lv_ops s (AliveThread n)) \<le> 1"
proof -
  have d: "ac_dead c" "AwakeTerminator p \<notin> set (lv_ops s (AliveThread n))"
    using assms(2-4) by (auto simp: unqueued_def)
  then obtain w where "suffix (lv_ops s (AliveThread n)) (death_ops w p)"
    using claimsD(1) [OF assms(1), of n] assms(2,3) by (auto simp: alive_shape_def)
  with d show ?thesis unfolding death_ops_def suffix_Cons suffix_Nil by (elim disjE) simp_all
qed

text \<open>C18: whatever the order in which the activator, the terminator and the alive threads do their operations, a
  proxy that is queued to be buried or is being buried is marked as a zombie, so it is not activated
  meanwhile, and every instance still registered under its name has been found dead, by an alive thread that
  is about to end: the terminator never kills a running instance, never sends a signal and never joins a
  thread that waits for it.  And whenever the activator has nothing to do, each
  proxy that runs is registered: its name leads to its alive thread and to a channel thread.  It needs the
  zombie mark to be set before the proxy is queued and dropped after the kill, a kill to unlink the
  segments of what it removes, and processes not to create segments under a name while the activator works
  for it.\<close>

theorem burials_find_only_the_dead:
  assumes "lives_init s0" "life_step\<^sup>*\<^sup>* s0 s"
  shows "(\<forall>p. p \<in> set (g_queue (lv_state s)) \<or> burying s p \<longrightarrow>
       proxy_thread_zombie p (g_terminating (lv_state s)) \<and>
       (\<forall>e. ht_lookup (g_alives (lv_state s)) p = Some e \<longrightarrow>
          ac_dead (te_ctx e) \<and> length (lv_ops s (AliveThread (te_thread e))) \<le> 1)) \<and>
     ll_sigterms (lv_local s Terminator) = [] \<and>
     (lv_ops s Activator = [] \<longrightarrow>
       (\<forall>n c. lv_context s n = Some c \<and> \<not> ac_dead c \<longrightarrow>
          alive_reg s n (ac_proxy_name c) \<and> chan_reg s (ac_proxy_name c)))"
proof -
  have "lives_ok s" by (rule lives.inv_reachable [OF assms])
  then have ok: "claims_ok s" "marks_ok s" "entries_ok s" "no_signals s" "phase s (lv_ops s Activator)"
    by (simp_all add: lives_ok_def)
  have "ac_dead (te_ctx e) \<and> length (lv_ops s (AliveThread (te_thread e))) \<le> 1"
    if "p \<in> set (g_queue (lv_state s)) \<or> burying s p" "ht_lookup (g_alives (lv_state s)) p = Some e" for p e
  proof -
    have "\<not> unqueued s (te_thread e) p" using claimsD(4) [OF ok(1)] that(1) by blast
    with not_pending [OF ok(1)] entriesD(1,2) [OF ok(3) that(2)] show ?thesis by blast
  qed
  moreover have "alive_reg s n (ac_proxy_name c) \<and> chan_reg s (ac_proxy_name c)"
    if "lv_ops s Activator = []" "lv_context s n = Some c" "\<not> ac_dead c" for n c
  proof -
    have "unqueued s n (ac_proxy_name c)" using that(2,3) by (simp add: unqueued_def)
    moreover have "all_rest s" using ok(5) that(1) by simp
    ultimately show ?thesis unfolding all_rest_def at_rest_def by blast
  qed
  ultimately show ?thesis
    using marksD(2,3) [OF ok(2)] ok(4) unfolding terminating_eq no_signals_def by blast
qed

theorem burials_find_only_the_dead_witness:
  "proxy_thread_zombie ''p'' (g_terminating (lv_state queued))"
proof -
  have "life_step\<^sup>*\<^sup>* sample_lives queued" by (rule queued_reachable)
  from burials_find_only_the_dead [OF sample_lives_init this] show ?thesis by (simp add: queued_def)
qed

section \<open>A proxy that is lost\<close>

text \<open>Steps after which the activator still has nothing to do.\<close>

definition idle_step :: "lives \<Rightarrow> lives \<Rightarrow> bool" where
  "idle_step s s' \<longleftrightarrow> life_step s s' \<and> lv_ops s' Activator = []"

lemma idle_calm:
  assumes "lives_ok s" "idle_step s s'" "lv_ops s Activator = []" "\<not> claimed s p" "alive_reg s n p"
  shows "\<not> claimed s' p \<and> alive_reg s' n p"
proof -
  have ok: "claims_ok s" "entries_ok s" using assms(1) by (simp_all add: lives_ok_def)
  from assms(2) have "life_step s s'" by (simp add: idle_step_def)
  then show ?thesis
  proof (cases rule: life_step.cases)
    case (turn env b dead shm)
    have "claimed s' = claimed s" unfolding turn(1) by (rule claims_cong; simp add: puts_def)
    with assms(4,5) show ?thesis by (simp add: turn(1) puts_def alive_reg_def)
  next
    case awake
    from calm_starts(1) [of Terminator "[PopQueue]" s] awake assms(4,5) show ?thesis
      by (auto simp: calm_def puts_def alive_reg_def)
  next
    case (watch m c e)
    from calm_starts(1) [of "AliveThread m" "[LockAlive e m]" s] watch assms(4,5) show ?thesis
      by (auto simp: calm_def puts_def alive_reg_def)
  next
    case (elsewhere st)
    from calm_elsewhere [OF elsewhere(2)] assms(4,5) elsewhere show ?thesis
      by (auto simp: calm_def alive_reg_def keeps_threads_def)
  next
    case (operation t x k)
    show ?thesis
    proof (cases t)
      case Activator
      with operation assms(3) show ?thesis by simp
    next
      case (AliveThread m)
      obtain l new d where d: "do_life x (lv_local s t) (lv_life s) = (l, new, d)" using prod_cases3 by blast
      from operation(2) AliveThread have o: "lv_ops s (AliveThread m) = x # k" by simp
      from alive_step(3) [OF ok(1) o] alive_tables(1) [OF ok(1) o d, of p] does_fields(1) [OF d] assms(4,5)
      show ?thesis unfolding operation(1) AliveThread alive_reg_def by auto
    next
      case Terminator
      obtain l new d where d: "do_life x (lv_local s t) (lv_life s) = (l, new, d)" using prod_cases3 by blast
      from operation(2) Terminator have o: "lv_ops s Terminator = x # k" by simp
      have "x \<noteq> RemoveAlive p" using terminator_names [OF ok(1) o, of p] assms(4) by (auto simp: claimed_def)
      moreover have "\<forall>e n. x \<noteq> LockAlive e n" "\<forall>p n. x \<noteq> SetAlive p n"
        using terminator_cases [OF claimsD(2) [OF ok(1), unfolded o]] by auto
      ultimately have "ht_lookup (g_alives (lf_state d)) p = ht_lookup (g_alives (lv_state s)) p"
        using do_life_alives [OF d, of p] by (cases x) auto
      with terminator_step(3) [OF ok(1) o] does_fields(1) [OF d] assms(4,5)
      show ?thesis unfolding operation(1) Terminator alive_reg_def by auto
    qed
  qed
qed

lemma stays_lost:
  assumes "idle_step\<^sup>*\<^sup>* s s'" "lives_ok s" "lv_ops s Activator = []" "\<not> claimed s p" "alive_reg s n p"
  shows "\<not> claimed s' p \<and> alive_reg s' n p"
proof -
  from assms(1) have "lives_ok s' \<and> lv_ops s' Activator = [] \<and> \<not> claimed s' p \<and> alive_reg s' n p"
  proof (induction rule: rtranclp_induct)
    case (step s1 s2)
    then show ?case using idle_calm [of s1 s2 p n] ok_step [of s1 s2] by (auto simp: idle_step_def)
  qed (use assms in blast)
  then show ?thesis by blast
qed



end
