(* ===== verification/Spec2Isabelle.thy ===== *)
theory Spec2Isabelle
  imports Main_Program Utilities Lock_Guarantees Table_Exchange Table_Twice Table_Locks Segment_Names Thread_Losses
begin

text \<open>
  Gonggo passes JSON messages between the websocket and REST clients of a web server and the processes
  that offer services, the proxies.  This development models the server: the handlers and threads of
  \<open>src/gear\<close> and the start in \<open>src/main/main.c\<close>.

  \<^bold>\<open>How the program works.\<close>  A client message (\<open>wshandler.c\<close>, \<open>clientservice.c\<close>) is checked and acknowledged;
  if it is for a proxy, it is stored in four tables: the request with its connection and deadline, the
  requests of the connection, the text for the proxy, and the queue of the proxy.  The channel thread of
  the proxy (\<open>proxychannel.c\<close>) hands the queue over through shared memory, the subscribe thread
  (\<open>proxysubscribe.c\<close>) takes answers and sends them to the requesters (\<open>clientreply.c\<close>), logging them in a
  database (\<open>db.c\<close>).  The alive thread (\<open>proxyalive.c\<close>) sees a proxy die, the terminator
  (\<open>proxyterminator.c\<close>, \<open>proxy.c\<close>) ends its threads, the activator (\<open>proxyactivator.c\<close>) starts the threads of
  a new one.  The timeout thread (\<open>clienttimeout.c\<close>) answers overdue requests, the drain thread
  (\<open>dbresponddrain.c\<close>) deletes old responses.  A REST call (\<open>resthandler.c\<close>) waits for its proxy's answer.
  \<open>work.c\<close> creates and destroys all of this.

  \<^bold>\<open>Where it is modelled.\<close>
  \<^item> \<open>Gonggo_Prelude\<close>: arrays, hash tables, C strings, and the locales \<open>keyed_store\<close>, \<open>name_array\<close>,
    \<open>invariant_system\<close>, which the theories of the tables and \<open>Dispatcher_Steps\<close> interpret.  \<open>Json_Lib\<close>: JSON
    values; cJSON is a parameter.
  \<^item> Tables: \<open>Request_Table\<close>, \<open>Connection_Table\<close>, \<open>Service_Table\<close>, \<open>Proxyname_Table\<close> (with the queue it
    implements), \<open>Name_Arrays\<close>, \<open>Thread_Tables\<close>, each for the file of that name; \<open>Database\<close> for \<open>db.c\<close>;
    \<open>Proxy_Types\<close> for \<open>proxy.h\<close>.
  \<^item> Handlers and threads on the shared state \<open>gonggo\<close> of \<open>Dispatcher_State\<close>: \<open>Client_Reply\<close>, \<open>Client_Service\<close>
    (messages and closing), \<open>Client_Timeout\<close>, \<open>Proxy_Subscribe\<close>, \<open>Proxy_Channel\<close>, \<open>Proxy_Threads\<close> (kill, alive
    thread, terminator), \<open>Proxy_Activator\<close>, \<open>Rest_Handler\<close>.
  \<^item> The process: \<open>Configuration\<close> (\<open>confvar.c\<close>), \<open>Log_File\<close> (\<open>log.c\<close>), \<open>Process_State\<close> (creation and
    destruction of the static objects, \<open>alivemutex.c\<close>, start and stop flags), \<open>Startup\<close> (\<open>work.c\<close>),
    \<open>Main_Program\<close> (\<open>main.c\<close>), \<open>Glib_Shim\<close> (\<open>glibshim.c\<close>), \<open>Utilities\<close> (\<open>util.c\<close>).
  \<^item> Data races: \<open>Table_Steps\<close> has the handlers that use the client tables as sequences of single table
    operations and shows that a handler run alone is the function above; \<open>Table_Races\<close> interleaves these
    sequences of any number of threads, \<open>Table_Interleaving\<close> proves the invariant of all interleavings,
    \<open>Table_Runs\<close> and \<open>Table_Twice\<close> its consequences and two runs that go wrong, \<open>Table_Exchange\<close> that the exchange of a channel
    thread is one of its runs.
  \<^item> Births and deaths of proxies: \<open>Thread_Steps\<close> has the activator, the terminator and the alive threads as
    sequences of single operations on the thread tables, the queue and the marks, and shows that each run alone
    is the function above; \<open>Thread_Races\<close> interleaves them under the mutexes and joins of the code;
    \<open>Thread_Invariant\<close>, \<open>Thread_Phases\<close> and \<open>Thread_Safety\<close> prove the invariant of all interleavings (who has a
    claim on a dead proxy; what the activator may rely on before each of its operations), \<open>Thread_Losses\<close>
    its consequences and three runs that go wrong.  Both groups rest on \<open>Operation_Runs\<close>.
  \<^item> Deadlocks: \<open>Lock_Programs\<close> has, for every thread, the mutexes it takes and gives, the joins, waits and
    signals, in the order of the code; \<open>Lock_Model\<close> the states and steps, and the locale \<open>lock_hierarchy\<close> that
    \<open>Lock_Guarantees\<close> interprets on these programs with the ranks of \<open>Lock_Order\<close>; \<open>Table_Locks\<close> shows that
    the handlers of \<open>Table_Steps\<close> take the mutexes of these programs.
  \<^item> Results: \<open>Table_Invariant\<close> and \<open>Dispatcher_Steps\<close> (the invariant of the whole dispatcher),
    \<open>Message_Verdict\<close>, \<open>Connection_Close\<close>, \<open>Client_Answers\<close>, \<open>Channel_Guarantees\<close>, \<open>Segment_Names\<close>,
    \<open>Proxy_Lifecycle\<close>, \<open>Startup_Guarantees\<close>, and this theory.

  \<^bold>\<open>What the lemmas show.\<close>  The tables agree with each other in every reachable state, so that no request is
  lost or left over when it is answered, expires or its connection closes; the same holds when the single table
  operations of all threads interleave, because every thread forgets the request before its other entries; a closed
  connection is forgotten in every interleaving, while an answer can be written to a connection that has just ended; messages, REST calls and
  configurations are answered by the first check they violate; the queue of a proxy is handed over in
  order and again after its death; activation, burial and shut-down leave the thread tables and the
  objects of the process as they should, and where they do not, the exact circumstances; in every interleaving
  of births and deaths a burial finds only dead instances, but a proxy that dies before it is registered is
  lost.  The threads take their
  mutexes in one order, so they never wait for each other in a circle, but for two situations in which they
  can; these, and a REST call whose proxy has died, are shown to block threads for ever.

  \<^bold>\<open>How it is modelled.\<close>
  \<^item> One handler, or one stretch of a thread between two places where it blocks, is a function on the shared
    state.  Each operation of a table runs under its mutex and is atomic.  The relation \<open>gonggo_step\<close>
    interleaves handlers and stretches, the relations \<open>conc_step\<close> and \<open>life_step\<close> the single operations inside
    them.
  \<^item> What another thread, a proxy or the system brings when a thread waits is an event: lists of events
    (\<open>chan_event\<close>, \<open>alive_event\<close>, \<open>channel_round\<close>) are as long as the run that is looked at, and where one
    ends the thread is \<open>Blocked\<close> or waiting.  No result is assumed from running out of events.
  \<^item> Loops over arrays and tables recurse over the list; the loop over a query string decreases its length;
    the paging of \<open>Database\<close> has a fuel, and any number above that of the stored responses is enough.
  \<^item> \<open>time_t\<close>, \<open>gsize\<close> and \<open>guint\<close> are words; \<open>int\<close> is cut to 32 bits where the code converts to it.
  \<^item> Undefined behaviour (a null pointer read, an unset buffer) is the result \<open>None\<close>.

  \<^bold>\<open>Not modelled.\<close>  cJSON, SQLite, civetweb, POSIX threads and shared memory are outside the repository: their
  results are arguments, with their documented behaviour as hypotheses.  Freeing of memory, attributes of
  mutexes, log messages and \<open>confvar_float\<close> (never called) are left out.  \<open>conc_step\<close> has the threads that use the
  client tables, \<open>life_step\<close> those that change the thread tables; what the ones do is a single step of the
  others, and \<open>proxy_thread_kill_all\<close> at the end of the server is interleaved as a whole stretch only.
  \<open>life_step\<close> relies on the proxies: none creates segments under a name that the activator works for.
  Handlers (\<open>gonggo_step\<close>, \<open>conc_step\<close>, \<open>life_step\<close>) and locking (\<open>lock_step\<close>) are two models: the second
  knows what a thread does to mutexes and not what it does to the data, which decide through the arguments of
  its programs; \<open>Table_Locks\<close> joins the two for the handlers of the client tables.
\<close>

section \<open>Properties of the whole dispatcher\<close>


lemma sample_route:
  "client_service_route (sample_world (\<lambda>_. Some sample_request) (\<lambda>_. ''x'')) ''/g'' ''m'' 7
     (initial_gonggo ''g'') =
   Some (route_save (sample_world (\<lambda>_. Some sample_request) (\<lambda>_. ''x'')) 7 ''r1'' ''p'' ''s'' None 30
     (mg_websocket_write 7 ''x'' (initial_gonggo ''g'')))"
proof -
  let ?w = "sample_world (\<lambda>_. Some sample_request) (\<lambda>_. ''x'')"
  have p: "g_path (initial_gonggo ''g'') = Some ''/g''" by (simp add: initial_gonggo_def)
  have "cJSON_Parse (w_json ?w) ''m'' = Some sample_request" by simp
  then have "client_service_route ?w ''/g'' ''m'' 7 (initial_gonggo ''g'') =
      handle_message ?w sample_request 7 (initial_gonggo ''g'')"
    by (rule route_handles [OF p])
  also have "\<dots> = msg_action ?w sample_request 7 (mg_websocket_write 7 ''x'' (initial_gonggo ''g''))"
    unfolding handle_message_def sample_world_fields sample_request_fields
    by (simp add: client_parsing_status_reply_def)
  finally show ?thesis
    by (simp add: msg_action_def Let_def sample_request_fields)
qed




end
